(* ===== verification/Prelude.thy ===== *)
theory Prelude
  imports Main "HOL-Library.Word"
begin

unbundle bit_operations_syntax

section \<open>Shared types, results and generic lemmas\<close>

text \<open>
  This theory holds what every component of the kernel model shares:
  \<^item> the C integer types of \<^verbatim>\<open>kernel/types.h\<close> as words;
  \<^item> the result type \<open>res\<close> of a kernel operation: a normal return, a \<^verbatim>\<open>panic\<close>, a
    thread that went to sleep on a channel, or a loop that used up its fuel;
  \<^item> sequencing (\<open>kbind\<close>) and the lifting of an operation on a part of the state to the
    whole (\<open>on_part\<close>);
  \<^item> the scan loops over tables (\<open>find_slot\<close>) that \<^verbatim>\<open>filealloc\<close>, \<^verbatim>\<open>fdalloc\<close>,
    \<^verbatim>\<open>allocproc\<close>, \<^verbatim>\<open>bget\<close> and \<^verbatim>\<open>iget\<close> are instances of;
  \<^item> generic lemmas on lists and words, and the collections of simplification rules.
\<close>

subsection \<open>C integer types\<close>

type_synonym uint8 = "8 word"
type_synonym uint16 = "16 word"
type_synonym uint32 = "32 word"
type_synonym uint64 = "64 word"
type_synonym addr = uint64
type_synonym memory = "addr \<Rightarrow> uint8"

subsection \<open>Wait channels\<close>

text \<open>
  A wait channel is the address of a kernel object. Distinct objects have distinct
  addresses, so a channel is named by the object it is the address of.
\<close>

datatype chan =
    ChLog
  | ChBufLock nat
  | ChInodeLock nat
  | ChPipeRead addr
  | ChPipeWrite addr
  | ChProc nat
  | ChTicks
  | ChCons
  | ChUartTx

subsection \<open>Results of kernel operations\<close>

datatype ('s, 'a) res =
    Ok 'a 's
  | Panic string
  | Sleep chan 's
  | Diverge

definition kbind :: "('s, 'a) res \<Rightarrow> ('a \<Rightarrow> 's \<Rightarrow> ('s, 'b) res) \<Rightarrow> ('s, 'b) res" where
  "kbind r f = (case r of Ok a s \<Rightarrow> f a s | Panic m \<Rightarrow> Panic m
                        | Sleep c s \<Rightarrow> Sleep c s | Diverge \<Rightarrow> Diverge)"

definition on_part :: "('s \<Rightarrow> 't) \<Rightarrow> ('t \<Rightarrow> 's \<Rightarrow> 's) \<Rightarrow> ('t \<Rightarrow> ('t, 'a) res) \<Rightarrow> 's \<Rightarrow> ('s, 'a) res" where
  "on_part get put f s =
     (case f (get s) of Ok a t \<Rightarrow> Ok a (put t s) | Panic m \<Rightarrow> Panic m
                      | Sleep c t \<Rightarrow> Sleep c (put t s) | Diverge \<Rightarrow> Diverge)"

lemma kbind_simps [simp]:
  "kbind (Ok a s) f = f a s"
  "kbind (Panic m) f = Panic m"
  "kbind (Sleep c s) f = Sleep c s"
  "kbind Diverge f = Diverge"
  by (simp_all add: kbind_def)

lemma kbind_eq_Ok: "kbind r f = Ok b t \<longleftrightarrow> (\<exists>a s. r = Ok a s \<and> f a s = Ok b t)"
  by (cases r) auto

lemma kbind_eq_Panic: "kbind r f = Panic m \<longleftrightarrow> r = Panic m \<or> (\<exists>a s. r = Ok a s \<and> f a s = Panic m)"
  by (cases r) auto

lemma kbind_cong [fundef_cong]:
  "\<lbrakk> r = r'; \<And>a s. r' = Ok a s \<Longrightarrow> f a s = g a s \<rbrakk> \<Longrightarrow> kbind r f = kbind r' g"
  by (cases r') auto

lemma kbind_assoc: "kbind (kbind r f) g = kbind r (\<lambda>a s. kbind (f a s) g)"
  by (cases r) auto

lemma on_part_simps:
  "f (get s) = Ok a t \<Longrightarrow> on_part get put f s = Ok a (put t s)"
  "f (get s) = Panic m \<Longrightarrow> on_part get put f s = Panic m"
  "f (get s) = Sleep c t \<Longrightarrow> on_part get put f s = Sleep c (put t s)"
  "f (get s) = Diverge \<Longrightarrow> on_part get put f s = Diverge"
  by (simp_all add: on_part_def)

lemma on_part_eq_Ok: "on_part get put f s = Ok a s' \<longleftrightarrow> (\<exists>t. f (get s) = Ok a t \<and> s' = put t s)"
  by (auto simp: on_part_def split: res.splits)

subsection \<open>Table scans\<close>

text \<open>
  The C tables are scanned by \<^verbatim>\<open>for(p = tab; p < &tab[N]; p++) if(free(p)) ...\<close>:
  the first entry that satisfies the test is taken. \<open>find_slot P xs i\<close> scans the entries
  \<open>xs\<close>, the first of which has index \<open>i\<close>.
\<close>

fun find_slot :: "('a \<Rightarrow> bool) \<Rightarrow> 'a list \<Rightarrow> nat \<Rightarrow> nat option" where
  "find_slot P [] i = None"
| "find_slot P (x # xs) i = (if P x then Some i else find_slot P xs (Suc i))"

lemma find_slot_None: "find_slot P xs i = None \<longleftrightarrow> (\<forall>x \<in> set xs. \<not> P x)"
  by (induction xs arbitrary: i) auto

lemma find_slot_Some:
  "find_slot P xs i = Some k \<Longrightarrow>
     i \<le> k \<and> k < i + length xs \<and> P (xs ! (k - i)) \<and> (\<forall>j < k - i. \<not> P (xs ! j))"
proof (induction xs arbitrary: i)
  case Nil
  then show ?case by simp
next
  case (Cons x xs)
  show ?case
  proof (cases "P x")
    case True
    with Cons.prems show ?thesis by simp
  next
    case False
    with Cons.prems have fs: "find_slot P xs (Suc i) = Some k" by simp
    note ih = Cons.IH [OF fs]
    then have k: "k - i = Suc (k - Suc i)" by arith
    have "\<not> P ((x # xs) ! j)" if "j < k - i" for j
      using ih that False k by (cases j) auto
    with ih k show ?thesis by auto
  qed
qed

lemma find_slot_0:
  "find_slot P xs 0 = Some k \<Longrightarrow> k < length xs \<and> P (xs ! k) \<and> (\<forall>j < k. \<not> P (xs ! j))"
  using find_slot_Some [of P xs 0 k] by simp

lemma find_slot_SomeI:
  assumes "k < length xs" "P (xs ! k)" "\<forall>j < k. \<not> P (xs ! j)"
  shows "find_slot P xs 0 = Some k"
proof (cases "find_slot P xs 0")
  case None
  then show ?thesis using assms by (auto simp: find_slot_None all_set_conv_all_nth)
next
  case (Some i)
  then show ?thesis using find_slot_0 [OF Some] assms by (metis linorder_neqE_nat)
qed

text \<open>
  The contract of a table of slots with a \<open>free\<close> test and an operation that claims a
  slot: what every allocator built on \<open>find_slot\<close> promises its clients.
\<close>

locale slot_table =
  fixes slots :: "'t \<Rightarrow> 'e list"
    and free :: "'e \<Rightarrow> bool"
    and take_slot :: "'t \<Rightarrow> nat \<Rightarrow> 't"
  assumes take_len: "length (slots (take_slot t k)) = length (slots t)"
    and take_used: "k < length (slots t) \<Longrightarrow> free (slots t ! k) \<Longrightarrow> \<not> free (slots (take_slot t k) ! k)"
    and take_other: "j < length (slots t) \<Longrightarrow> j \<noteq> k \<Longrightarrow> slots (take_slot t k) ! j = slots t ! j"
begin

lemma scan_found:
  assumes "find_slot free (slots t) 0 = Some k"
  shows "k < length (slots t) \<and> free (slots t ! k) \<and> \<not> free (slots (take_slot t k) ! k)"
  using find_slot_0 [OF assms] take_used by blast

lemma scan_full: "find_slot free (slots t) 0 = None \<longleftrightarrow> (\<forall>j < length (slots t). \<not> free (slots t ! j))"
  by (auto simp: find_slot_None all_set_conv_all_nth)

lemma scan_used_kept:
  assumes "find_slot free (slots t) 0 = Some k" and "j < length (slots t)" and "\<not> free (slots t ! j)"
  shows "slots (take_slot t k) ! j = slots t ! j"
  using assms find_slot_0 take_other by metis

lemma scan_count:
  assumes "find_slot free (slots t) 0 = Some k"
  shows "card {j. j < length (slots (take_slot t k)) \<and> free (slots (take_slot t k) ! j)} + 1
       = card {j. j < length (slots t) \<and> free (slots t ! j)}"
proof -
  let ?A = "{j. j < length (slots t) \<and> free (slots t ! j)}"
  let ?B = "{j. j < length (slots (take_slot t k)) \<and> free (slots (take_slot t k) ! j)}"
  from scan_found [OF assms] have k: "k \<in> ?A" and nk: "k \<notin> ?B" by auto
  have "j \<in> ?B \<longleftrightarrow> j \<in> ?A - {k}" for j
    using nk by (cases "j = k") (auto simp: take_len take_other)
  then have "?B = ?A - {k}" by blast
  moreover have "finite ?A" by simp
  ultimately show ?thesis using k card_Suc_Diff1 by (metis Suc_eq_plus1)
qed

end

subsection \<open>Transition systems and invariants\<close>

text \<open>
  A component with concurrent steps is a predicate for its initial states and a step
  relation. The locale gives, from the two obligations of an invariant, that every state
  of every run satisfies it.
\<close>

locale invariant_system =
  fixes start :: "'s \<Rightarrow> bool"
    and step :: "'s \<Rightarrow> 's \<Rightarrow> bool"
    and inv :: "'s \<Rightarrow> bool"
  assumes start_inv: "start s \<Longrightarrow> inv s"
    and step_inv: "inv s \<Longrightarrow> step s t \<Longrightarrow> inv t"
begin

lemma run_inv: "step\<^sup>*\<^sup>* s t \<Longrightarrow> inv s \<Longrightarrow> inv t"
  by (induction rule: rtranclp_induct) (auto intro: step_inv)

lemma reachable_inv: "start s \<Longrightarrow> step\<^sup>*\<^sup>* s t \<Longrightarrow> inv t"
  by (blast intro: run_inv start_inv)

end

subsection \<open>Lists\<close>

lemma nth_list_update_if:
  "i < length xs \<Longrightarrow> xs[j := v] ! i = (if i = j then v else xs ! i)"
  by simp

subsection \<open>Words\<close>

lemma unat_of_nat64: "n < 2 ^ 64 \<Longrightarrow> unat (of_nat n :: uint64) = n"
  by (simp add: unat_of_nat)

lemma unat_lt64 [simp]: "unat (a :: uint64) < 18446744073709551616"
  using unsigned_less [of a, where ?'a = nat] by simp

lemma unat_of_nat32: "n < 2 ^ 32 \<Longrightarrow> unat (of_nat n :: uint32) = n"
  by (simp add: unat_of_nat)

lemma unat_add_mod_dvd:
  fixes a b :: uint64
  assumes "m dvd 2 ^ 64"
  shows "unat (a + b) mod m = (unat a + unat b) mod m"
  using assms by (simp add: unat_word_ariths mod_mod_cancel)

lemma unat_diff_mod_dvd:
  fixes a b :: uint64
  assumes "m dvd 2 ^ 64" and "unat a mod m = 0" and "unat b mod m = 0"
  shows "unat (a - b) mod m = 0"
proof -
  have "unat ((a - b) + b) mod m = (unat (a - b) + unat b) mod m"
    using assms(1) by (rule unat_add_mod_dvd)
  then show ?thesis using assms(2,3)
    by (metis add.right_neutral diff_add_cancel mod_add_right_eq)
qed

end
