(* ===== verification/Locks.thy ===== *)
theory Locks
  imports Prelude
begin

section \<open>Spin locks and sleep locks\<close>

text \<open>
  \<^verbatim>\<open>kernel/spinlock.c\<close> with any number of processors that take one lock. Each processor runs
  \<^verbatim>\<open>acquire\<close>, its critical section and \<^verbatim>\<open>release\<close> over and over; the atomic steps are those of
  the code: \<^verbatim>\<open>push_off\<close> and the check of \<^verbatim>\<open>holding\<close>, the atomic swap (which may be
  repeated), the store of the owner, and in \<^verbatim>\<open>release\<close> the check, the clearing of the owner,
  the atomic release and \<^verbatim>\<open>pop_off\<close>. The steps of different processors interleave freely.
  The invariant shows mutual exclusion and that no panic of the lock code is reachable, which
  is what lets the other components treat a critical section as one step.

  The sleep locks of \<^verbatim>\<open>kernel/sleeplock.c\<close> are operations on the lock itself; a process that
  finds one taken goes to sleep on it.
\<close>

subsection \<open>Interrupt nesting\<close>

record hart =
  noff :: int
  intena :: bool
  sie :: bool

definition push_off :: "hart \<Rightarrow> hart" where
  "push_off h =
     (let old = sie h;
          h = h\<lparr>sie := False\<rparr>;
          h = (if noff h = 0 then h\<lparr>intena := old\<rparr> else h)
      in h\<lparr>noff := noff h + 1\<rparr>)"

definition pop_off :: "hart \<Rightarrow> (hart, unit) res" where
  "pop_off h =
     (if sie h then Panic ''pop_off - interruptible''
      else if noff h < 1 then Panic ''pop_off''
      else let h = h\<lparr>noff := noff h - 1\<rparr>
           in Ok () (if noff h = 0 \<and> intena h then h\<lparr>sie := True\<rparr> else h))"

subsection \<open>The lock\<close>

record spinlock =
  sl_locked :: bool
  sl_cpu :: "nat option"

definition initlock :: spinlock where
  "initlock = \<lparr>sl_locked = False, sl_cpu = None\<rparr>"

definition holding :: "nat \<Rightarrow> spinlock \<Rightarrow> bool" where
  "holding c lk \<longleftrightarrow> sl_locked lk \<and> sl_cpu lk = Some c"

text \<open>
  Where a processor is: outside, spinning on the swap, past the swap, in the critical
  section, past the clearing of the owner, past the release, or stopped by a panic.
\<close>

datatype lock_pc = Outside | Spinning | Swapped | Critical | Cleared | Released | Stopped

record lock_sys =
  lk :: spinlock
  harts :: "nat \<Rightarrow> hart"
  pcs :: "nat \<Rightarrow> lock_pc"

inductive lock_step :: "lock_sys \<Rightarrow> lock_sys \<Rightarrow> bool" where
  acquire_enter: "pcs s c = Outside \<Longrightarrow> \<not> holding c (lk s) \<Longrightarrow>
    lock_step s (s\<lparr>harts := (harts s)(c := push_off (harts s c)), pcs := (pcs s)(c := Spinning)\<rparr>)"
| acquire_panic: "pcs s c = Outside \<Longrightarrow> holding c (lk s) \<Longrightarrow>
    lock_step s (s\<lparr>harts := (harts s)(c := push_off (harts s c)), pcs := (pcs s)(c := Stopped)\<rparr>)"
| acquire_spin: "pcs s c = Spinning \<Longrightarrow> sl_locked (lk s) \<Longrightarrow> lock_step s s"
| acquire_swap: "pcs s c = Spinning \<Longrightarrow> \<not> sl_locked (lk s) \<Longrightarrow>
    lock_step s (s\<lparr>lk := (lk s)\<lparr>sl_locked := True\<rparr>, pcs := (pcs s)(c := Swapped)\<rparr>)"
| acquire_done: "pcs s c = Swapped \<Longrightarrow>
    lock_step s (s\<lparr>lk := (lk s)\<lparr>sl_cpu := Some c\<rparr>, pcs := (pcs s)(c := Critical)\<rparr>)"
| release_enter: "pcs s c = Critical \<Longrightarrow> holding c (lk s) \<Longrightarrow>
    lock_step s (s\<lparr>lk := (lk s)\<lparr>sl_cpu := None\<rparr>, pcs := (pcs s)(c := Cleared)\<rparr>)"
| release_panic: "pcs s c = Critical \<Longrightarrow> \<not> holding c (lk s) \<Longrightarrow>
    lock_step s (s\<lparr>pcs := (pcs s)(c := Stopped)\<rparr>)"
| release_unlock: "pcs s c = Cleared \<Longrightarrow>
    lock_step s (s\<lparr>lk := (lk s)\<lparr>sl_locked := False\<rparr>, pcs := (pcs s)(c := Released)\<rparr>)"
| release_pop: "pcs s c = Released \<Longrightarrow> pop_off (harts s c) = Ok () h \<Longrightarrow>
    lock_step s (s\<lparr>harts := (harts s)(c := h), pcs := (pcs s)(c := Outside)\<rparr>)"
| release_pop_panic: "pcs s c = Released \<Longrightarrow> pop_off (harts s c) = Panic m \<Longrightarrow>
    lock_step s (s\<lparr>pcs := (pcs s)(c := Stopped)\<rparr>)"

inductive_cases lock_stepE: "lock_step s t"

definition owner_pc :: "lock_pc \<Rightarrow> bool" where
  "owner_pc p \<longleftrightarrow> p \<in> {Swapped, Critical, Cleared}"

definition lock_start :: "lock_sys \<Rightarrow> bool" where
  "lock_start s \<longleftrightarrow> lk s = initlock \<and> (\<forall>c. pcs s c = Outside \<and> noff (harts s c) = 0)"

definition lock_inv :: "lock_sys \<Rightarrow> bool" where
  "lock_inv s \<longleftrightarrow>
     (\<forall>c. pcs s c \<noteq> Stopped) \<and>
     (\<forall>c d. owner_pc (pcs s c) \<longrightarrow> owner_pc (pcs s d) \<longrightarrow> c = d) \<and>
     (sl_locked (lk s) \<longleftrightarrow> (\<exists>c. owner_pc (pcs s c))) \<and>
     (\<forall>c. sl_cpu (lk s) = Some c \<longleftrightarrow> pcs s c = Critical) \<and>
     (\<forall>c. noff (harts s c) = (if pcs s c = Outside then 0 else 1)) \<and>
     (\<forall>c. pcs s c \<noteq> Outside \<longrightarrow> \<not> sie (harts s c))"

lemma push_off_simps [simp]:
  "noff (push_off h) = noff h + 1" "sie (push_off h) = False"
  "intena (push_off h) = (if noff h = 0 then sie h else intena h)"
  by (simp_all add: push_off_def Let_def)

lemma pop_off_ok:
  "\<not> sie h \<Longrightarrow> 1 \<le> noff h \<Longrightarrow>
   pop_off h = Ok () (h\<lparr>noff := noff h - 1, sie := (noff h = 1 \<and> intena h)\<rparr>)"
  by (auto simp: pop_off_def Let_def)

lemma lock_invD:
  assumes "lock_inv s"
  shows "pcs s c \<noteq> Stopped" "owner_pc (pcs s c) \<Longrightarrow> owner_pc (pcs s d) \<Longrightarrow> c = d"
    "sl_locked (lk s) \<longleftrightarrow> (\<exists>c. owner_pc (pcs s c))" "sl_cpu (lk s) = Some c \<longleftrightarrow> pcs s c = Critical"
    "noff (harts s c) = (if pcs s c = Outside then 0 else 1)" "pcs s c \<noteq> Outside \<Longrightarrow> \<not> sie (harts s c)"
  using assms unfolding lock_inv_def by blast+

lemma lock_start_inv: "lock_start s \<Longrightarrow> lock_inv s"
  by (auto simp: lock_start_def lock_inv_def initlock_def owner_pc_def)

lemma owner_pc_simps [simp]:
  "owner_pc Swapped" "owner_pc Critical" "owner_pc Cleared"
  "\<not> owner_pc Outside" "\<not> owner_pc Spinning" "\<not> owner_pc Released" "\<not> owner_pc Stopped"
  by (simp_all add: owner_pc_def)

lemma no_owner: "lock_inv s \<Longrightarrow> \<not> sl_locked (lk s) \<Longrightarrow> \<not> owner_pc (pcs s d)"
  using lock_invD(3) by blast

lemma owner_upd_same:
  "owner_pc (f c) = owner_pc p \<Longrightarrow> (\<exists>d. owner_pc ((f(c := p)) d)) = (\<exists>d. owner_pc (f d))"
  by (metis fun_upd_other fun_upd_same)

text \<open>A step that moves one processor and keeps whether it owns the lock.\<close>

lemma lock_inv_move:
  assumes inv: "lock_inv s" and own: "owner_pc (pcs s c) = owner_pc p" and p: "p \<noteq> Stopped"
    and cpu: "\<forall>d. cpu = Some d \<longleftrightarrow> ((pcs s)(c := p)) d = Critical"
    and h: "noff h = (if p = Outside then 0 else 1)" "p \<noteq> Outside \<longrightarrow> \<not> sie h"
  shows "lock_inv (s\<lparr>lk := (lk s)\<lparr>sl_cpu := cpu\<rparr>, harts := (harts s)(c := h), pcs := (pcs s)(c := p)\<rparr>)"
  using lock_invD [OF inv] cpu h p own owner_upd_same [of "pcs s" c p, OF own]
  unfolding lock_inv_def by (simp split: if_splits) (metis own)

text \<open>A step that takes or gives up the lock while no other processor owns it.\<close>

lemma lock_inv_switch:
  assumes inv: "lock_inv s" and p: "p = Swapped \<or> p = Released" "b = owner_pc p"
    and c: "pcs s c \<noteq> Outside" "pcs s c \<noteq> Critical" and others: "\<And>d. d \<noteq> c \<Longrightarrow> \<not> owner_pc (pcs s d)"
  shows "lock_inv (s\<lparr>lk := (lk s)\<lparr>sl_locked := b\<rparr>, pcs := (pcs s)(c := p)\<rparr>)"
proof -
  have p': "p \<noteq> Stopped" "p \<noteq> Critical" "p \<noteq> Outside" using p by auto
  let ?f = "(pcs s)(c := p)"
  let ?t = "s\<lparr>lk := (lk s)\<lparr>sl_locked := b\<rparr>, pcs := ?f\<rparr>"
  have pt: "pcs ?t = ?f" and bt: "sl_locked (lk ?t) = b" by simp_all
  have "d = e" if "owner_pc (?f d)" "owner_pc (?f e)" for d e
    using that others by (metis fun_upd_apply)
  then have "\<forall>d e. owner_pc (pcs ?t d) \<longrightarrow> owner_pc (pcs ?t e) \<longrightarrow> d = e"
    unfolding pt by blast
  moreover have "sl_locked (lk ?t) \<longleftrightarrow> (\<exists>d. owner_pc (pcs ?t d))"
    unfolding pt bt using others p(2) by (metis fun_upd_apply)
  moreover have "\<forall>d. sl_cpu (lk ?t) = Some d \<longleftrightarrow> pcs ?t d = Critical"
    using lock_invD(4) [OF inv] c p' by simp
  moreover have "\<forall>d. noff (harts ?t d) = (if pcs ?t d = Outside then 0 else 1)"
    using lock_invD(5) [OF inv] c p' by simp
  moreover have "\<forall>d. pcs ?t d \<noteq> Outside \<longrightarrow> \<not> sie (harts ?t d)"
    using lock_invD(6) [OF inv] c by simp
  moreover have "\<forall>d. pcs ?t d \<noteq> Stopped" using lock_invD(1) [OF inv] p' by simp
  ultimately show ?thesis unfolding lock_inv_def by blast
qed

lemma lock_step_inv:
  assumes inv: "lock_inv s" and st: "lock_step s t"
  shows "lock_inv t"
  using st
proof cases
  case (acquire_enter c)
  have "lock_inv (s\<lparr>lk := (lk s)\<lparr>sl_cpu := sl_cpu (lk s)\<rparr>, harts := (harts s)(c := push_off (harts s c)),
      pcs := (pcs s)(c := Spinning)\<rparr>)"
    by (rule lock_inv_move [OF inv]) (use acquire_enter lock_invD(4) [OF inv] lock_invD(5) [OF inv, of c] in auto)
  then show ?thesis using acquire_enter by simp
next
  case (acquire_panic c)
  then have "pcs s c = Critical" using lock_invD(4) [OF inv, of c] by (simp add: holding_def)
  then show ?thesis using acquire_panic by simp
next
  case (acquire_spin c)
  then show ?thesis using inv by simp
next
  case (acquire_swap c)
  have "lock_inv (s\<lparr>lk := (lk s)\<lparr>sl_locked := True\<rparr>, pcs := (pcs s)(c := Swapped)\<rparr>)"
    by (rule lock_inv_switch [OF inv]) (use acquire_swap no_owner [OF inv] in auto)
  then show ?thesis using acquire_swap by simp
next
  case (acquire_done c)
  have "pcs s d \<noteq> Critical" for d using lock_invD(2) [OF inv, of c d] acquire_done by auto
  then have "lock_inv (s\<lparr>lk := (lk s)\<lparr>sl_cpu := Some c\<rparr>, harts := (harts s)(c := harts s c),
      pcs := (pcs s)(c := Critical)\<rparr>)"
    by (intro lock_inv_move [OF inv]) (use acquire_done lock_invD(5,6) [OF inv, of c] in auto)
  then show ?thesis using acquire_done by simp
next
  case (release_enter c)
  have "pcs s d \<noteq> Critical" if "d \<noteq> c" for d using lock_invD(2) [OF inv, of c d] release_enter that by auto
  then have "lock_inv (s\<lparr>lk := (lk s)\<lparr>sl_cpu := None\<rparr>, harts := (harts s)(c := harts s c),
      pcs := (pcs s)(c := Cleared)\<rparr>)"
    by (intro lock_inv_move [OF inv]) (use release_enter lock_invD(5,6) [OF inv, of c] in auto)
  then show ?thesis using release_enter by simp
next
  case (release_panic c)
  then have "owner_pc (pcs s c)" by simp
  then have "sl_locked (lk s)" using lock_invD(3) [OF inv] by blast
  moreover have "sl_cpu (lk s) = Some c" using lock_invD(4) [OF inv, of c] release_panic by simp
  ultimately show ?thesis using release_panic by (simp add: holding_def)
next
  case (release_unlock c)
  have "\<not> owner_pc (pcs s d)" if "d \<noteq> c" for d using lock_invD(2) [OF inv, of c d] release_unlock that by auto
  then have "lock_inv (s\<lparr>lk := (lk s)\<lparr>sl_locked := False\<rparr>, pcs := (pcs s)(c := Released)\<rparr>)"
    by (intro lock_inv_switch [OF inv]) (use release_unlock in auto)
  then show ?thesis using release_unlock by simp
next
  case (release_pop c h)
  have "noff (harts s c) = 1" "\<not> sie (harts s c)"
    using lock_invD(5,6) [OF inv, of c] release_pop by auto
  then have "noff h = 0" using release_pop pop_off_ok [of "harts s c"] by auto
  then have "lock_inv (s\<lparr>lk := (lk s)\<lparr>sl_cpu := sl_cpu (lk s)\<rparr>, harts := (harts s)(c := h),
      pcs := (pcs s)(c := Outside)\<rparr>)"
    by (intro lock_inv_move [OF inv]) (use release_pop lock_invD(4) [OF inv] in auto)
  then show ?thesis using release_pop by simp
next
  case (release_pop_panic c m)
  then show ?thesis using lock_invD(5,6) [OF inv, of c] pop_off_ok [of "harts s c"] by simp
qed

interpretation spin: invariant_system lock_start lock_step lock_inv
  by unfold_locales (auto intro: lock_start_inv lock_step_inv)

subsection \<open>Sleep locks\<close>

record sleeplock =
  locked :: bool
  lkpid :: int

definition initsleeplock :: sleeplock where
  "initsleeplock = \<lparr>locked = False, lkpid = 0\<rparr>"

definition acquiresleep :: "chan \<Rightarrow> int \<Rightarrow> sleeplock \<Rightarrow> (sleeplock, unit) res" where
  "acquiresleep ch pid l =
     (if locked l then Sleep ch l else Ok () (l\<lparr>locked := True, lkpid := pid\<rparr>))"

definition releasesleep :: "sleeplock \<Rightarrow> sleeplock" where
  "releasesleep l = l\<lparr>locked := False, lkpid := 0\<rparr>"

definition holdingsleep :: "int \<Rightarrow> sleeplock \<Rightarrow> bool" where
  "holdingsleep pid l \<longleftrightarrow> locked l \<and> lkpid l = pid"

lemma sleeplock_simps [simp]:
  "\<not> locked (releasesleep l)" "\<not> locked initsleeplock"
  by (simp_all add: releasesleep_def initsleeplock_def)

subsection \<open>Nested push_off and pop_off\<close>

fun pops :: "nat \<Rightarrow> hart \<Rightarrow> (hart, unit) res" where
  "pops 0 h = Ok () h"
| "pops (Suc n) h = kbind (pop_off h) (\<lambda>_ h. pops n h)"

lemma pushes_state: "noff h = 0 \<Longrightarrow> 0 < n \<Longrightarrow>
   (push_off ^^ n) h = \<lparr>noff = int n, intena = sie h, sie = False, \<dots> = hart.more h\<rparr>"
proof (induction n)
  case (Suc n)
  then show ?case by (cases n) (auto simp: push_off_def Let_def)
qed simp

lemma pops_state: "noff h = int n \<Longrightarrow> \<not> sie h \<Longrightarrow> k < n \<Longrightarrow> pops k h = Ok () (h\<lparr>noff := int (n - k)\<rparr>)"
proof (induction k arbitrary: h n)
  case (Suc k)
  then have "pop_off h = Ok () (h\<lparr>noff := noff h - 1\<rparr>)"
    by (subst pop_off_ok) auto
  moreover have "pops k (h\<lparr>noff := noff h - 1\<rparr>) = Ok () (h\<lparr>noff := int (n - 1 - k)\<rparr>)"
    using Suc.prems by (subst Suc.IH [of _ "n - 1"]) auto
  ultimately show ?case by simp
qed simp

lemma pops_snoc: "pops (Suc m) g = kbind (pops m g) (\<lambda>_ h. pop_off h)"
proof (induction m arbitrary: g)
  case 0
  then show ?case by (cases "pop_off g") auto
next
  case (Suc m)
  have "pops (Suc (Suc m)) g = kbind (pop_off g) (\<lambda>_ h. pops (Suc m) h)" by (rule pops.simps(2))
  also have "\<dots> = kbind (pop_off g) (\<lambda>_ h. kbind (pops m h) (\<lambda>_ h. pop_off h))" by (simp only: Suc.IH)
  also have "\<dots> = kbind (pops (Suc m) g) (\<lambda>_ h. pop_off h)" by (simp only: kbind_assoc pops.simps)
  finally show ?case .
qed

subsection \<open>Properties\<close>

text \<open>Property C10: in every interleaving of processors that acquire and release a spin lock, at
  most one is between the successful swap and the release, and none has stopped with a panic of
  \<^verbatim>\<open>acquire\<close>, \<^verbatim>\<open>release\<close> or \<^verbatim>\<open>pop_off\<close>; a processor in the critical section runs with
  interrupts off.\<close>

theorem spinlock_mutual_exclusion:
  assumes "lock_start s" and "lock_step\<^sup>*\<^sup>* s t"
  shows "(\<forall>c d. owner_pc (pcs t c) \<longrightarrow> owner_pc (pcs t d) \<longrightarrow> c = d) \<and> (\<forall>c. pcs t c \<noteq> Stopped) \<and>
         (\<forall>c. pcs t c = Critical \<longrightarrow> holding c (lk t) \<and> \<not> sie (harts t c))"
proof -
  have inv: "lock_inv t" by (rule spin.reachable_inv [OF assms])
  have "holding c (lk t) \<and> \<not> sie (harts t c)" if "pcs t c = Critical" for c
    using lock_invD(3,4,6) [OF inv] that unfolding holding_def by (metis lock_pc.distinct(5) owner_pc_simps(2))
  then show ?thesis using lock_invD(1,2) [OF inv] by blast
qed

theorem spinlock_mutual_exclusion_witness:
  "\<exists>s t. lock_start s \<and> lock_step\<^sup>*\<^sup>* s t \<and> pcs t 0 = Critical \<and>
     (\<forall>c d. owner_pc (pcs t c) \<longrightarrow> owner_pc (pcs t d) \<longrightarrow> c = d) \<and> (\<forall>c. pcs t c \<noteq> Stopped) \<and>
     (\<forall>c. pcs t c = Critical \<longrightarrow> holding c (lk t) \<and> \<not> sie (harts t c))"
proof -
  define s where "s = \<lparr>lk = initlock, harts = (\<lambda>_. \<lparr>noff = 0, intena = False, sie = True\<rparr>), pcs = (\<lambda>_. Outside)\<rparr>"
  define s1 where "s1 = s\<lparr>harts := (harts s)(0 := push_off (harts s 0)), pcs := (pcs s)(0 := Spinning)\<rparr>"
  define s2 where "s2 = s1\<lparr>lk := (lk s1)\<lparr>sl_locked := True\<rparr>, pcs := (pcs s1)(0 := Swapped)\<rparr>"
  define s3 where "s3 = s2\<lparr>lk := (lk s2)\<lparr>sl_cpu := Some 0\<rparr>, pcs := (pcs s2)(0 := Critical)\<rparr>"
  have st: "lock_start s" by (simp add: s_def lock_start_def)
  have "lock_step s s1" unfolding s1_def by (rule acquire_enter) (simp_all add: s_def holding_def initlock_def)
  moreover have "lock_step s1 s2" unfolding s2_def by (rule acquire_swap) (simp_all add: s1_def s_def initlock_def)
  moreover have "lock_step s2 s3" unfolding s3_def by (rule acquire_done) (simp add: s2_def)
  ultimately have run: "lock_step\<^sup>*\<^sup>* s s3" by (meson converse_rtranclp_into_rtranclp rtranclp.rtrancl_refl)
  have "pcs s3 0 = Critical" by (simp add: s3_def)
  then show ?thesis using spinlock_mutual_exclusion [OF st run] st run by blast
qed

text \<open>Property C11: \<^verbatim>\<open>push_off\<close> and \<^verbatim>\<open>pop_off\<close> nest: after \<open>n\<close> calls of \<^verbatim>\<open>push_off\<close> from depth 0
  interrupts are off, \<open>n\<close> calls of \<^verbatim>\<open>pop_off\<close> succeed, and only the last one restores the
  interrupt state of before.\<close>

theorem push_pop_nest:
  assumes "noff h = 0" and "0 < n"
  shows "\<not> sie ((push_off ^^ n) h) \<and>
    (\<forall>k < n. \<exists>h'. pops k ((push_off ^^ n) h) = Ok () h' \<and> \<not> sie h') \<and>
    (\<exists>h'. pops n ((push_off ^^ n) h) = Ok () h' \<and> noff h' = 0 \<and> sie h' = sie h)"
proof -
  define g where "g = (push_off ^^ n) h"
  have g: "noff g = int n" "intena g = sie h" "\<not> sie g"
    unfolding g_def pushes_state [OF assms] by simp_all
  have k: "pops k g = Ok () (g\<lparr>noff := int (n - k)\<rparr>)" if "k < n" for k
    by (rule pops_state [OF g(1,3) that])
  have "pops n g = kbind (pops (n - 1) g) (\<lambda>_ h. pop_off h)"
    using assms(2) pops_snoc [of "n - 1" g] by simp
  also have "\<dots> = pop_off (g\<lparr>noff := 1\<rparr>)" using k [of "n - 1"] assms(2) by simp
  finally have "pops n g = Ok () (g\<lparr>noff := 0, sie := sie h\<rparr>)" using g by (simp add: pop_off_ok)
  then show ?thesis unfolding g_def [symmetric] using k g by auto
qed

theorem push_pop_nest_witness:
  "\<not> sie ((push_off ^^ 2) \<lparr>noff = 0, intena = False, sie = True\<rparr>) \<and>
   (\<exists>h'. pops 1 ((push_off ^^ 2) \<lparr>noff = 0, intena = False, sie = True\<rparr>) = Ok () h' \<and> \<not> sie h') \<and>
   (\<exists>h'. pops 2 ((push_off ^^ 2) \<lparr>noff = 0, intena = False, sie = True\<rparr>) = Ok () h' \<and> noff h' = 0 \<and> sie h')"
proof -
  let ?h = "\<lparr>noff = 0, intena = False, sie = True\<rparr>"
  have "noff ?h = 0" "(0::nat) < 2" "(1::nat) < 2" by simp_all
  then show ?thesis using push_pop_nest [of ?h 2] unfolding hart.select_convs by blast
qed

end
