(* ===== verification/Riscv.thy ===== *)
theory Riscv
  imports Prelude
begin

section \<open>Address layout and Sv39 page-table entries\<close>

text \<open>
  The constants and macros of \<^verbatim>\<open>kernel/riscv.h\<close>, \<^verbatim>\<open>kernel/memlayout.h\<close> and
  \<^verbatim>\<open>kernel/param.h\<close> that the memory system uses: page rounding, the three index fields of a
  virtual address, the flag bits of a page-table entry with the extensions of the C908 core,
  the conversions between physical addresses and entries, and the fixed addresses at the
  top of the virtual address space. The lemmas give the algebra the components need:
  rounding, the decomposition of a page address into its indices, the round trip of
  \<^verbatim>\<open>PA2PTE\<close>/\<^verbatim>\<open>PTE2PA\<close>, and the separation of the kernel stacks.
\<close>

subsection \<open>Sizes and fixed addresses\<close>

definition PGSIZE :: uint64 where [simp]: "PGSIZE = 4096"
definition PGSHIFT :: nat where [simp]: "PGSHIFT = 12"
definition MAXVA :: uint64 where [simp]: "MAXVA = 2 ^ (9 + 9 + 9 + 12 - 1)"
definition KERNBASE :: uint64 where [simp]: "KERNBASE = 0x00200000"
definition PHYSTOP :: uint64 where [simp]: "PHYSTOP = KERNBASE + 1022 * 1024 * 1024"
definition UART0 :: uint64 where [simp]: "UART0 = 0x91400000"
definition PLIC :: uint64 where [simp]: "PLIC = 0x0f00000000"
definition WDT0_BASE :: uint64 where [simp]: "WDT0_BASE = 0x91106000"
definition K230_SD1 :: uint64 where [simp]: "K230_SD1 = 0x91581000"
definition TRAMPOLINE :: uint64 where [simp]: "TRAMPOLINE = MAXVA - PGSIZE"
definition TRAPFRAME :: uint64 where [simp]: "TRAPFRAME = TRAMPOLINE - PGSIZE"
definition KSTACK :: "uint64 \<Rightarrow> uint64" where "KSTACK p = TRAMPOLINE - (p + 1) * 2 * PGSIZE"

definition NPROC :: nat where [simp]: "NPROC = 64"
definition NCPU :: nat where [simp]: "NCPU = 2"
definition NOFILE :: nat where [simp]: "NOFILE = 16"
definition NFILE :: nat where [simp]: "NFILE = 100"
definition NINODE :: nat where [simp]: "NINODE = 50"
definition NDEV :: nat where [simp]: "NDEV = 10"
definition ROOTDEV :: uint32 where [simp]: "ROOTDEV = 1"
definition MAXARG :: nat where [simp]: "MAXARG = 32"
definition MAXOPBLOCKS :: nat where [simp]: "MAXOPBLOCKS = 10"
definition LOGBLOCKS :: nat where [simp]: "LOGBLOCKS = MAXOPBLOCKS * 3"
definition NBUF :: nat where [simp]: "NBUF = MAXOPBLOCKS * 3"
definition FSSIZE :: nat where [simp]: "FSSIZE = 2000"
definition MAXPATH :: nat where [simp]: "MAXPATH = 128"
definition USERSTACK :: uint64 where [simp]: "USERSTACK = 1"

subsection \<open>Page rounding\<close>

definition PGROUNDDOWN :: "uint64 \<Rightarrow> uint64" where
  "PGROUNDDOWN a = a AND NOT (PGSIZE - 1)"

definition PGROUNDUP :: "uint64 \<Rightarrow> uint64" where
  "PGROUNDUP sz = (sz + PGSIZE - 1) AND NOT (PGSIZE - 1)"

subsection \<open>Page-table entries\<close>

definition PTE_V :: uint64 where "PTE_V = push_bit 0 1"
definition PTE_R :: uint64 where "PTE_R = push_bit 1 1"
definition PTE_W :: uint64 where "PTE_W = push_bit 2 1"
definition PTE_X :: uint64 where "PTE_X = push_bit 3 1"
definition PTE_U :: uint64 where "PTE_U = push_bit 4 1"
definition PTE_G :: uint64 where "PTE_G = push_bit 5 1"
definition PTE_A :: uint64 where "PTE_A = push_bit 6 1"
definition PTE_D :: uint64 where "PTE_D = push_bit 7 1"
definition PTE_COW :: uint64 where "PTE_COW = push_bit 8 1"
definition PTE_THEAD_MAEE :: uint64 where
  "PTE_THEAD_MAEE = push_bit 62 1 OR push_bit 61 1 OR push_bit 60 1"
definition PTE_THEAD_SO :: uint64 where "PTE_THEAD_SO = push_bit 63 1"
definition PTE_IO :: uint64 where "PTE_IO = PTE_R OR PTE_W OR PTE_THEAD_SO"

definition PA2PTE :: "uint64 \<Rightarrow> uint64" where
  "PA2PTE pa = push_bit 10 (drop_bit 12 pa)"

definition PTE2PA :: "uint64 \<Rightarrow> uint64" where
  "PTE2PA pte = push_bit 12 (drop_bit 10 pte) AND 0x00FFFFFFFFFFFF00"

definition PTE_FLAGS :: "uint64 \<Rightarrow> uint64" where
  "PTE_FLAGS pte = pte AND 0x3FF"

definition PXMASK :: uint64 where [simp]: "PXMASK = 0x1FF"
definition PXSHIFT :: "nat \<Rightarrow> nat" where [simp]: "PXSHIFT level = PGSHIFT + 9 * level"
definition PX :: "nat \<Rightarrow> uint64 \<Rightarrow> uint64" where
  "PX level va = drop_bit (PXSHIFT level) va AND PXMASK"

definition SATP_SV39 :: uint64 where "SATP_SV39 = push_bit 60 8"
definition MAKE_SATP :: "uint64 \<Rightarrow> uint64" where
  "MAKE_SATP pagetable = SATP_SV39 OR drop_bit 12 pagetable"

subsection \<open>Reading the bits of an entry\<close>

named_theorems pte_bit \<open>the tests of the C code on an entry, as bits\<close>

lemma and_push1: "(x AND push_bit n 1 \<noteq> 0) = bit x n" for x :: uint64
proof -
  have "x AND push_bit n 1 = (if bit x n then push_bit n 1 else 0)"
    by (rule bit_word_eqI) (auto simp: bit_simps)
  moreover have "push_bit n (1::uint64) \<noteq> 0" if "bit x n"
    using that bit_imp_le_length [OF that] by (auto simp: bit_eq_iff bit_simps)
  ultimately show ?thesis by auto
qed

lemma pte_tests [pte_bit]:
  "(x AND PTE_V \<noteq> 0) = bit x 0" "(x AND PTE_R \<noteq> 0) = bit x 1" "(x AND PTE_W \<noteq> 0) = bit x 2"
  "(x AND PTE_X \<noteq> 0) = bit x 3" "(x AND PTE_U \<noteq> 0) = bit x 4" "(x AND PTE_COW \<noteq> 0) = bit x 8"
  "(x AND PTE_V = 0) = (\<not> bit x 0)" "(x AND PTE_R = 0) = (\<not> bit x 1)" "(x AND PTE_W = 0) = (\<not> bit x 2)"
  "(x AND PTE_X = 0) = (\<not> bit x 3)" "(x AND PTE_U = 0) = (\<not> bit x 4)" "(x AND PTE_COW = 0) = (\<not> bit x 8)"
  unfolding PTE_V_def PTE_R_def PTE_W_def PTE_X_def PTE_U_def PTE_COW_def
  using and_push1 by blast+

lemmas pte_flag_defs =
  PTE_V_def PTE_R_def PTE_W_def PTE_X_def PTE_U_def PTE_G_def PTE_A_def PTE_D_def PTE_COW_def
  PTE_THEAD_MAEE_def PTE_THEAD_SO_def PTE_IO_def

lemma bit_push1: "bit (push_bit k (1::uint64)) n = (n = k \<and> n < 64)"
  by (simp only: bit_push_bit_iff bit_1_iff) auto

lemma bit_flags [pte_bit]:
  "bit PTE_V n = (n = 0)" "bit PTE_R n = (n = 1)" "bit PTE_W n = (n = 2)" "bit PTE_X n = (n = 3)"
  "bit PTE_U n = (n = 4)" "bit PTE_G n = (n = 5)" "bit PTE_A n = (n = 6)" "bit PTE_D n = (n = 7)"
  "bit PTE_COW n = (n = 8)" "bit PTE_THEAD_MAEE n = (n = 60 \<or> n = 61 \<or> n = 62)"
  "bit PTE_THEAD_SO n = (n = 63)" "bit PTE_IO n = (n = 1 \<or> n = 2 \<or> n = 63)"
  unfolding pte_flag_defs bit_or_iff bit_push1 by auto

lemma bit_PA2PTE: "bit (PA2PTE pa) n = (10 \<le> n \<and> n < 64 \<and> bit pa (n + 2))"
  by (auto simp: PA2PTE_def bit_push_bit_iff bit_drop_bit_eq add.commute)

lemma bit_high_mask: "bit (0x00FFFFFFFFFFFF00 :: uint64) n = (8 \<le> n \<and> n < 56)"
proof -
  have "(0x00FFFFFFFFFFFF00 :: uint64) = push_bit 8 (mask 48)"
    by (simp add: mask_eq_exp_minus_1)
  then show ?thesis by (simp only: bit_push_bit_iff bit_mask_iff) auto
qed

lemma bit_PTE2PA: "bit (PTE2PA pte) n = (12 \<le> n \<and> n < 56 \<and> bit pte (n - 2))"
  unfolding PTE2PA_def bit_and_iff bit_high_mask by (auto simp: bit_push_bit_iff bit_drop_bit_eq)

subsection \<open>Page alignment\<close>

definition pgaligned :: "uint64 \<Rightarrow> bool" where
  "pgaligned a \<longleftrightarrow> a mod PGSIZE = 0"

lemma pgaligned_take_bit: "pgaligned a \<longleftrightarrow> take_bit 12 a = 0"
  by (simp add: pgaligned_def take_bit_eq_mod)

lemma pgaligned_unat: "pgaligned a \<longleftrightarrow> unat a mod 4096 = 0"
  by (simp add: pgaligned_def unat_mod_distrib flip: unat_eq_zero)

lemma pgaligned_bit: "pgaligned a \<longleftrightarrow> (\<forall>n < 12. \<not> bit a n)"
  by (auto simp: pgaligned_take_bit bit_eq_iff bit_take_bit_iff)

lemma mask12: "(PGSIZE - 1) = mask 12"
  by (simp add: mask_eq_exp_minus_1)

lemma bit_PGROUNDDOWN: "bit (PGROUNDDOWN a) n = (12 \<le> n \<and> bit a n)"
  unfolding PGROUNDDOWN_def mask12
  by (auto simp: bit_and_iff bit_not_iff bit_mask_iff dest: bit_imp_le_length)

lemma PGROUNDDOWN_shift: "PGROUNDDOWN a = push_bit 12 (drop_bit 12 a)"
  by (rule bit_word_eqI) (auto simp: bit_PGROUNDDOWN bit_push_bit_iff bit_drop_bit_eq)

lemma unat_PGROUNDDOWN: "unat (PGROUNDDOWN a) = unat a div 4096 * 4096"
proof -
  have lt: "unat a < 2 ^ 64" using unsigned_less [of a] by simp
  have "unat (PGROUNDDOWN a) = (unat a div 4096 * 4096) mod 2 ^ 64"
    unfolding PGROUNDDOWN_shift unsigned_push_bit_eq unsigned_drop_bit_eq
    using lt by (simp add: push_bit_eq_mult drop_bit_eq_div take_bit_eq_mod)
  moreover have "unat a div 4096 * 4096 \<le> unat a" by simp
  moreover note lt
  ultimately show ?thesis by (metis le_less_trans mod_less)
qed

lemma pgaligned_PGROUNDDOWN [simp, intro!]: "pgaligned (PGROUNDDOWN a)"
  by (simp add: pgaligned_unat unat_PGROUNDDOWN)

lemma PGROUNDDOWN_le: "PGROUNDDOWN a \<le> a"
  by (simp add: word_le_nat_alt unat_PGROUNDDOWN)

lemma PGROUNDDOWN_id: "pgaligned a \<Longrightarrow> PGROUNDDOWN a = a"
  by (rule bit_word_eqI) (metis bit_PGROUNDDOWN linorder_not_le pgaligned_bit)

lemma PGROUNDUP_down: "PGROUNDUP a = PGROUNDDOWN (a + 4095)"
  by (simp add: PGROUNDUP_def PGROUNDDOWN_def algebra_simps)

lemma pgaligned_PGROUNDUP [simp, intro!]: "pgaligned (PGROUNDUP a)"
  by (simp add: PGROUNDUP_down)

lemma unat_PGROUNDUP:
  assumes "unat a + 4095 < 2 ^ 64"
  shows "unat (PGROUNDUP a) = (unat a + 4095) div 4096 * 4096"
  using assms by (simp add: PGROUNDUP_down unat_PGROUNDDOWN unat_word_ariths)

lemma pgaligned_add: "pgaligned a \<Longrightarrow> pgaligned b \<Longrightarrow> pgaligned (a + b)"
  using unat_add_mod_dvd [of 4096 a b] by (auto simp: pgaligned_unat mod_eq_0_iff_dvd)

lemma pgaligned_diff: "pgaligned a \<Longrightarrow> pgaligned b \<Longrightarrow> pgaligned (a - b)"
  using unat_diff_mod_dvd [of 4096 a b] by (simp add: pgaligned_unat)

lemma pgaligned_PGSIZE [simp]: "pgaligned 4096" "pgaligned 0"
  by (simp_all add: pgaligned_unat)

subsection \<open>Entries built from an address and flags\<close>

text \<open>
  The bits of an entry that are not its page number: the low ten flag bits and the
  attribute bits 54 to 63. The C code extracts them with \<^verbatim>\<open>pte & ~0x003FFFFFFFFFFC00UL\<close>.
\<close>

definition PTE_ATTRS :: "uint64 \<Rightarrow> uint64" where
  "PTE_ATTRS pte = pte AND NOT 0x003FFFFFFFFFFC00"

definition attr_only :: "uint64 \<Rightarrow> bool" where
  "attr_only fl \<longleftrightarrow> PTE_ATTRS fl = fl"

lemma bit_ppn_mask: "bit (0x003FFFFFFFFFFC00 :: uint64) n = (10 \<le> n \<and> n < 54)"
proof -
  have "(0x003FFFFFFFFFFC00 :: uint64) = push_bit 10 (mask 44)"
    by (simp add: mask_eq_exp_minus_1)
  then show ?thesis by (simp only: bit_push_bit_iff bit_mask_iff) auto
qed

lemma bit_PTE_ATTRS: "bit (PTE_ATTRS x) n = (bit x n \<and> (n < 10 \<or> 54 \<le> n))"
  unfolding PTE_ATTRS_def bit_and_iff bit_not_iff bit_ppn_mask
  by (auto dest: bit_imp_le_length)

lemma attr_only_bit: "attr_only fl \<longleftrightarrow> (\<forall>n. bit fl n \<longrightarrow> n < 10 \<or> 54 \<le> n)"
proof -
  have "n < 64" if "bit fl n" for n using bit_imp_le_length [OF that] by simp
  then show ?thesis
    unfolding attr_only_def bit_eq_iff [of "PTE_ATTRS fl"] bit_PTE_ATTRS by auto
qed

lemma attr_only_PTE_ATTRS [simp]: "attr_only (PTE_ATTRS x)"
  by (simp add: attr_only_bit bit_PTE_ATTRS)

lemma attr_only_flags [simp]:
  "attr_only PTE_V" "attr_only PTE_R" "attr_only PTE_W" "attr_only PTE_X" "attr_only PTE_U"
  "attr_only PTE_A" "attr_only PTE_D" "attr_only PTE_COW" "attr_only PTE_THEAD_MAEE" "attr_only PTE_IO"
  by (auto simp: attr_only_bit pte_bit)

lemma attr_only_or [simp]: "attr_only a \<Longrightarrow> attr_only b \<Longrightarrow> attr_only (a OR b)"
  by (auto simp: attr_only_bit bit_or_iff)

lemma high_bit_lt: "pa < 2 ^ 56 \<Longrightarrow> bit pa n \<Longrightarrow> n < 56" for pa :: uint64
proof (rule ccontr)
  assume lt: "pa < 2 ^ 56" and b: "bit pa n" and "\<not> n < 56"
  then have n: "56 \<le> n" by simp
  from lt have "unat pa < 2 ^ 56" by (simp add: word_less_nat_alt)
  then have "take_bit 56 (unat pa) = unat pa" by (simp add: take_bit_nat_eq_self)
  moreover have "bit (unat pa) n" using b by (simp add: bit_unsigned_iff)
  ultimately have "bit (take_bit 56 (unat pa)) n" by simp
  with n show False by (simp add: bit_take_bit_iff)
qed

lemma PTE2PA_entry:
  assumes "pgaligned pa" and "pa < 2 ^ 56" and "attr_only fl"
  shows "PTE2PA (PA2PTE pa OR fl) = pa"
proof (rule bit_word_eqI)
  fix n :: nat
  show "bit (PTE2PA (PA2PTE pa OR fl)) n = bit pa n"
  proof (cases "12 \<le> n \<and> n < 56")
    case True
    moreover from True have "\<not> bit fl (n - 2)" using assms(3) by (auto simp: attr_only_bit)
    moreover from True have "n - 2 + 2 = n" by arith
    ultimately show ?thesis unfolding bit_PTE2PA bit_or_iff bit_PA2PTE by auto
  next
    case False
    moreover have "\<not> bit pa n"
      using False assms(1,2) high_bit_lt [of pa n] by (auto simp: pgaligned_bit)
    ultimately show ?thesis by (auto simp: bit_PTE2PA)
  qed
qed

lemma PTE_ATTRS_entry:
  assumes "pa < 2 ^ 56" and "attr_only fl"
  shows "PTE_ATTRS (PA2PTE pa OR fl) = fl"
proof (rule bit_word_eqI)
  fix n :: nat
  have "\<not> bit pa (n + 2)" if "54 \<le> n" using high_bit_lt [OF assms(1), of "n + 2"] that by auto
  then show "bit (PTE_ATTRS (PA2PTE pa OR fl)) n = bit fl n"
    using assms(2) by (auto simp: bit_PTE_ATTRS bit_or_iff bit_PA2PTE attr_only_bit)
qed

lemma pgaligned_PTE2PA [simp, intro!]: "pgaligned (PTE2PA pte)"
  by (simp add: pgaligned_bit bit_PTE2PA)

subsection \<open>The three indices of a virtual address\<close>

lemma bit_PX: "bit (PX l va) n = (n < 9 \<and> bit va (12 + 9 * l + n))"
proof -
  have m: "PXMASK = mask 9" by (simp add: mask_eq_exp_minus_1)
  show ?thesis
    unfolding PX_def m bit_and_iff bit_mask_iff
    by (auto simp: bit_drop_bit_eq dest: bit_imp_le_length)
qed

lemma PX_lt: "unat (PX l va) < 512"
proof -
  have "PXMASK = mask 9" by (simp add: mask_eq_exp_minus_1)
  then have "PX l va = take_bit 9 (drop_bit (PXSHIFT l) va)"
    by (simp only: PX_def take_bit_eq_mask)
  then have "unat (PX l va) = unat (drop_bit (PXSHIFT l) va) mod 2 ^ 9"
    by (simp add: take_bit_eq_mod unat_mod_distrib)
  then show ?thesis by simp
qed

lemma MAXVA_bit: "va < MAXVA \<Longrightarrow> bit va n \<Longrightarrow> n < 38"
proof (rule ccontr)
  assume lt: "va < MAXVA" and b: "bit va n" and "\<not> n < 38"
  then have n: "38 \<le> n" by simp
  from lt have "unat va < 2 ^ 38" by (simp add: word_less_nat_alt)
  then have "take_bit 38 (unat va) = unat va" by (simp add: take_bit_nat_eq_self)
  moreover have "bit (unat va) n" using b by (simp add: bit_unsigned_iff)
  ultimately have "bit (take_bit 38 (unat va)) n" by simp
  with n show False by (simp add: bit_take_bit_iff)
qed

text \<open>Two page addresses below \<^verbatim>\<open>MAXVA\<close> with the same three indices are equal.\<close>

lemma PX_inj:
  assumes "pgaligned va" "pgaligned va'" "va < MAXVA" "va' < MAXVA"
    and "PX 2 va = PX 2 va'" "PX 1 va = PX 1 va'" "PX 0 va = PX 0 va'"
  shows "va = va'"
proof (rule bit_word_eqI)
  fix n :: nat
  have px: "bit va (12 + 9 * l + k) = bit va' (12 + 9 * l + k)"
    if "PX l va = PX l va'" "k < 9" for l k
    using that bit_PX [of l va k] bit_PX [of l va' k] by auto
  consider "n < 12" | "12 \<le> n" "n < 21" | "21 \<le> n" "n < 30" | "30 \<le> n" "n < 39" | "39 \<le> n"
    by linarith
  then show "bit va n = bit va' n"
  proof cases
    case 1 with assms(1,2) show ?thesis by (simp add: pgaligned_bit)
  next
    case 2 with px [OF assms(7), of "n - 12"] show ?thesis by simp
  next
    case 3 with px [OF assms(6), of "n - 21"] show ?thesis by simp
  next
    case 4 with px [OF assms(5), of "n - 30"] show ?thesis by simp
  next
    case 5 with MAXVA_bit [OF assms(3)] MAXVA_bit [OF assms(4)] show ?thesis by fastforce
  qed
qed

subsection \<open>Kernel stacks\<close>

lemma unat_KSTACK:
  assumes "p < 64"
  shows "unat (KSTACK p) = 2 ^ 38 - 4096 - (unat p + 1) * 8192"
proof -
  have p: "unat p < 64" using assms by (simp add: word_less_nat_alt)
  have m: "unat ((p + 1) * 2 * PGSIZE) = (unat p + 1) * 8192"
    using p by (simp add: unat_word_ariths)
  have "(p + 1) * 2 * PGSIZE \<le> TRAMPOLINE"
    using p m by (simp add: word_le_nat_alt)
  then have "unat (KSTACK p) = unat TRAMPOLINE - unat ((p + 1) * 2 * PGSIZE)"
    unfolding KSTACK_def by (rule unat_sub)
  then show ?thesis using m by simp
qed

subsection \<open>Properties\<close>

text \<open>Property C6: an entry built from a page address and attribute bits gives both back: \<^verbatim>\<open>PTE2PA\<close>
  returns the address and the mask of \<^verbatim>\<open>uvmcopy\<close> and \<^verbatim>\<open>vmfault\<close> returns the attributes,
  the T-Head memory attributes in the top bits included.\<close>

theorem pte_roundtrip:
  assumes "pgaligned pa" and "pa < 2 ^ 56" and "attr_only fl"
  shows "PTE2PA (PA2PTE pa OR fl) = pa \<and> PTE_ATTRS (PA2PTE pa OR fl) = fl"
  using PTE2PA_entry [OF assms] PTE_ATTRS_entry [OF assms(2,3)] by blast

theorem pte_roundtrip_witness:
  "PTE2PA (PA2PTE 0x80201000 OR (PTE_V OR PTE_W OR PTE_THEAD_MAEE)) = 0x80201000 \<and>
   PTE_ATTRS (PA2PTE 0x80201000 OR (PTE_V OR PTE_W OR PTE_THEAD_MAEE)) = PTE_V OR PTE_W OR PTE_THEAD_MAEE"
  by (rule pte_roundtrip) (simp_all add: pgaligned_unat)

text \<open>Property C7: the kernel stacks of two processes and the guard pages below them do not
  overlap, and all of them lie below the trampoline page.\<close>

theorem kstack_separate:
  assumes "i < 64" and "j < 64" and "i \<noteq> j"
  shows "(unat (KSTACK i) + 4096 \<le> unat (KSTACK j) - 4096 \<or> unat (KSTACK j) + 4096 \<le> unat (KSTACK i) - 4096)
       \<and> unat (KSTACK i) + 4096 \<le> unat TRAMPOLINE"
proof -
  have ij: "unat i < 64" "unat j < 64" "unat i \<noteq> unat j"
    using assms by (auto simp: word_less_nat_alt word_unat_eq_iff)
  then show ?thesis unfolding unat_KSTACK [OF assms(1)] unat_KSTACK [OF assms(2)] by auto
qed

theorem kstack_separate_witness:
  "(unat (KSTACK 3) + 4096 \<le> unat (KSTACK 63) - 4096 \<or> unat (KSTACK 63) + 4096 \<le> unat (KSTACK 3) - 4096)
   \<and> unat (KSTACK 3) + 4096 \<le> unat TRAMPOLINE"
  by (rule kstack_separate) simp_all

end
