(* ===== verification/Bio.thy ===== *)
theory Bio
  imports Locks Riscv
begin

section \<open>The disk and the buffer cache\<close>

text \<open>
  \<^verbatim>\<open>kernel/ramdisk.c\<close> and \<^verbatim>\<open>kernel/bio.c\<close>. The disk is the image that the linker places in
  memory (\<open>img\<close>, a list of bytes). A buffer is named by its index in \<^verbatim>\<open>bcache.buf\<close>; the
  doubly linked list of buffers is the list \<open>lru\<close> of indices from \<^verbatim>\<open>head.next\<close> to
  \<^verbatim>\<open>head.prev\<close>. Two fields are not state of the code but records of its effects: \<open>dwrites\<close>
  lists the block writes the disk has received, in order, and \<open>woken\<close> the channels on which
  \<^verbatim>\<open>wakeup\<close> was called. \<open>pid\<close> is the process identifier of the caller (\<^verbatim>\<open>myproc()->pid\<close>). The
  state is an extensible record: the log and the file system extend it, and every operation
  here applies to the extended state.

  The abstraction of the cache is \<open>cur\<close>, the current contents of a block: those of its
  valid buffer if there is one, otherwise those of the disk.
\<close>

type_synonym bytes = "uint8 list"

definition BSIZE :: nat where "BSIZE = 1024"

record buf =
  valid :: bool
  bdev :: uint32
  blockno :: uint32
  blk_lock :: sleeplock
  refcnt :: int
  bdata :: bytes

record bcache =
  bufs :: "buf list"
  lru :: "nat list"
  img :: bytes
  dwrites :: "(uint32 \<times> bytes) list"
  woken :: "chan list"

definition upd_buf :: "nat \<Rightarrow> (buf \<Rightarrow> buf) \<Rightarrow> 'a bcache_scheme \<Rightarrow> 'a bcache_scheme" where
  "upd_buf i f s = s\<lparr>bufs := (bufs s)[i := f (bufs s ! i)]\<rparr>"

subsection \<open>The disk\<close>

text \<open>The product of block number and block size is computed in 32 bits.\<close>

definition diskaddr :: "uint32 \<Rightarrow> nat" where
  "diskaddr bn = unat (bn * 1024)"

definition ramdisk_rw :: "int \<Rightarrow> nat \<Rightarrow> bool \<Rightarrow> 'a bcache_scheme \<Rightarrow> ('a bcache_scheme, unit) res" where
  "ramdisk_rw pid i write s =
     (let b = bufs s ! i; a = diskaddr (blockno b)
      in if \<not> holdingsleep pid (blk_lock b) then Panic ''ramdisk_rw: buf not locked''
         else if a + BSIZE > length (img s) then Panic ''ramdisk: read/write out of bounds''
         else if write
         then Ok () (s\<lparr>img := take a (img s) @ bdata b @ drop (a + BSIZE) (img s),
                       dwrites := dwrites s @ [(blockno b, bdata b)]\<rparr>)
         else Ok () (upd_buf i (\<lambda>b. b\<lparr>bdata := take BSIZE (drop a (img s)), valid := True\<rparr>) s))"

subsection \<open>The buffer cache\<close>

definition binit :: "'a bcache_scheme \<Rightarrow> 'a bcache_scheme" where
  "binit s = s\<lparr>lru := foldl (\<lambda>l i. i # l) [] [0..<NBUF],
               bufs := map (\<lambda>b. b\<lparr>blk_lock := initsleeplock\<rparr>) (bufs s)\<rparr>"

definition lock_buf :: "int \<Rightarrow> nat \<Rightarrow> 'a bcache_scheme \<Rightarrow> ('a bcache_scheme, nat) res" where
  "lock_buf pid i s =
     (case acquiresleep (ChBufLock i) pid (blk_lock (bufs s ! i)) of
        Ok _ l \<Rightarrow> Ok i (upd_buf i (\<lambda>b. b\<lparr>blk_lock := l\<rparr>) s)
      | Panic m \<Rightarrow> Panic m | Sleep c _ \<Rightarrow> Sleep c s | Diverge \<Rightarrow> Diverge)"

definition bget :: "int \<Rightarrow> uint32 \<Rightarrow> uint32 \<Rightarrow> 'a bcache_scheme \<Rightarrow> ('a bcache_scheme, nat) res" where
  "bget pid dev bn s =
     (case find (\<lambda>i. bdev (bufs s ! i) = dev \<and> blockno (bufs s ! i) = bn) (lru s) of
        Some i \<Rightarrow> lock_buf pid i (upd_buf i (\<lambda>b. b\<lparr>refcnt := refcnt b + 1\<rparr>) s)
      | None \<Rightarrow>
          (case find (\<lambda>i. refcnt (bufs s ! i) = 0) (rev (lru s)) of
             Some i \<Rightarrow> lock_buf pid i
               (upd_buf i (\<lambda>b. b\<lparr>bdev := dev, blockno := bn, valid := False, refcnt := 1\<rparr>) s)
           | None \<Rightarrow> Panic ''bget: no buffers''))"

definition bread :: "int \<Rightarrow> uint32 \<Rightarrow> uint32 \<Rightarrow> 'a bcache_scheme \<Rightarrow> ('a bcache_scheme, nat) res" where
  "bread pid dev bn s =
     kbind (bget pid dev bn s) (\<lambda>i s.
       if \<not> valid (bufs s ! i)
       then kbind (ramdisk_rw pid i False s) (\<lambda>_ s. Ok i (upd_buf i (\<lambda>b. b\<lparr>valid := True\<rparr>) s))
       else Ok i s)"

definition bwrite :: "int \<Rightarrow> nat \<Rightarrow> 'a bcache_scheme \<Rightarrow> ('a bcache_scheme, unit) res" where
  "bwrite pid i s =
     (if \<not> holdingsleep pid (blk_lock (bufs s ! i)) then Panic ''bwrite''
      else ramdisk_rw pid i True s)"

definition brelse :: "int \<Rightarrow> nat \<Rightarrow> 'a bcache_scheme \<Rightarrow> ('a bcache_scheme, unit) res" where
  "brelse pid i s =
     (if \<not> holdingsleep pid (blk_lock (bufs s ! i)) then Panic ''brelse''
      else let s = upd_buf i (\<lambda>b. b\<lparr>blk_lock := releasesleep (blk_lock b)\<rparr>) s;
               s = s\<lparr>woken := woken s @ [ChBufLock i]\<rparr>;
               s = upd_buf i (\<lambda>b. b\<lparr>refcnt := refcnt b - 1\<rparr>) s
           in Ok () (if refcnt (bufs s ! i) = 0 then s\<lparr>lru := i # remove1 i (lru s)\<rparr> else s))"

definition bpin :: "nat \<Rightarrow> 'a bcache_scheme \<Rightarrow> 'a bcache_scheme" where
  "bpin i s = upd_buf i (\<lambda>b. b\<lparr>refcnt := refcnt b + 1\<rparr>) s"

definition bunpin :: "nat \<Rightarrow> 'a bcache_scheme \<Rightarrow> 'a bcache_scheme" where
  "bunpin i s = upd_buf i (\<lambda>b. b\<lparr>refcnt := refcnt b - 1\<rparr>) s"

text \<open>Storing into the data of a buffer the caller holds, as the layers above do.\<close>

definition set_data :: "nat \<Rightarrow> bytes \<Rightarrow> 'a bcache_scheme \<Rightarrow> 'a bcache_scheme" where
  "set_data i d s = upd_buf i (\<lambda>b. b\<lparr>bdata := d\<rparr>) s"

subsection \<open>Blocks of the image\<close>

definition dblock :: "bytes \<Rightarrow> uint32 \<Rightarrow> bytes" where
  "dblock im bn = take BSIZE (drop (1024 * unat bn) im)"

definition in_disk :: "bytes \<Rightarrow> uint32 \<Rightarrow> bool" where
  "in_disk im bn \<longleftrightarrow> unat bn < 2 ^ 22 \<and> 1024 * unat bn + 1024 \<le> length im"

definition dput :: "bytes \<Rightarrow> uint32 \<Rightarrow> bytes \<Rightarrow> bytes" where
  "dput im bn d = take (1024 * unat bn) im @ d @ drop (1024 * unat bn + 1024) im"

lemma diskaddr_eq: "unat bn < 2 ^ 22 \<Longrightarrow> diskaddr bn = 1024 * unat bn"
  by (simp add: diskaddr_def unat_word_ariths)

lemma length_dput: "length d = 1024 \<Longrightarrow> in_disk im bn \<Longrightarrow> length (dput im bn d) = length im"
  by (simp add: dput_def in_disk_def)

lemma in_disk_dput: "length d = 1024 \<Longrightarrow> in_disk im bn \<Longrightarrow> in_disk (dput im bn d) b = in_disk im b"
  using length_dput [of d im bn] by (simp add: in_disk_def)

lemma length_dblock: "in_disk im bn \<Longrightarrow> length (dblock im bn) = 1024"
  by (auto simp: dblock_def in_disk_def BSIZE_def)

lemma dblock_dput:
  assumes d: "length d = 1024" and bn: "in_disk im bn" and b: "in_disk im b"
  shows "dblock (dput im bn d) b = (if b = bn then d else dblock im b)"
proof -
  have "nth (dput im bn d) k = (if 1024 * unat bn \<le> k \<and> k < 1024 * unat bn + 1024
      then d ! (k - 1024 * unat bn) else im ! k)" if "k < length im" for k
    using that d bn by (auto simp: dput_def nth_append in_disk_def min_absorb2)
  note n = this
  have len: "length (dput im bn d) = length im" using length_dput [OF d bn] .
  show ?thesis
  proof (cases "b = bn")
    case True
    then show ?thesis using d bn by (simp add: dblock_def dput_def BSIZE_def in_disk_def)
  next
    case False
    then have "unat b \<noteq> unat bn" by (simp add: word_unat_eq_iff)
    then have "dput im bn d ! (1024 * unat b + k) = im ! (1024 * unat b + k)" if "k < 1024" for k
      using n [of "1024 * unat b + k"] that b by (auto simp: in_disk_def)
    then have "dblock (dput im bn d) b = dblock im b"
      using b len by (intro nth_equalityI) (auto simp: dblock_def BSIZE_def in_disk_def)
    then show ?thesis using False by simp
  qed
qed

lemma dput_dput: "length d = 1024 \<Longrightarrow> in_disk im bn \<Longrightarrow> dput (dput im bn d) bn d' = dput im bn d'"
  by (simp add: dput_def in_disk_def min_absorb2)

subsection \<open>The invariant of the cache\<close>

text \<open>
  \<open>binv pid H s\<close>: the buffers in \<open>H\<close> are locked by \<open>pid\<close> and no others are; the list is a
  permutation of the buffers; a block of the file system's device has at most one buffer;
  counts are not negative, a held buffer is referenced and valid, and a buffer that could be
  recycled holds what the disk holds. Buffers whose device is 0 have not been used yet.
\<close>

definition buf_ok :: "int \<Rightarrow> bool \<Rightarrow> bytes \<Rightarrow> buf \<Rightarrow> bool" where
  "buf_ok pid held im b \<longleftrightarrow>
     length (bdata b) = 1024 \<and> 0 \<le> refcnt b \<and> locked (blk_lock b) = held \<and>
     (held \<longrightarrow> lkpid (blk_lock b) = pid \<and> 0 < refcnt b \<and> valid b \<and> bdev b = ROOTDEV) \<and>
     (bdev b = 0 \<longrightarrow> refcnt b = 0) \<and> (bdev b \<noteq> 0 \<longrightarrow> bdev b = ROOTDEV \<and> in_disk im (blockno b)) \<and>
     (refcnt b = 0 \<and> valid b \<and> bdev b = ROOTDEV \<longrightarrow> bdata b = dblock im (blockno b))"

definition holds_block :: "'a bcache_scheme \<Rightarrow> uint32 \<Rightarrow> nat \<Rightarrow> bool" where
  "holds_block s bn i \<longleftrightarrow> bdev (bufs s ! i) = ROOTDEV \<and> blockno (bufs s ! i) = bn"

definition binv :: "int \<Rightarrow> nat set \<Rightarrow> 'a bcache_scheme \<Rightarrow> bool" where
  "binv pid H s \<longleftrightarrow> length (bufs s) = NBUF \<and> distinct (lru s) \<and> set (lru s) = {..<NBUF} \<and> H \<subseteq> {..<NBUF} \<and>
     (\<forall>i < NBUF. buf_ok pid (i \<in> H) (img s) (bufs s ! i)) \<and>
     (\<forall>i < NBUF. \<forall>j < NBUF. \<forall>bn. holds_block s bn i \<longrightarrow> holds_block s bn j \<longrightarrow> i = j)"

definition cidx :: "'a bcache_scheme \<Rightarrow> uint32 \<Rightarrow> nat option" where
  "cidx s bn = find (holds_block s bn) [0..<NBUF]"

definition cur :: "'a bcache_scheme \<Rightarrow> uint32 \<Rightarrow> bytes" where
  "cur s bn = (case cidx s bn of
     Some i \<Rightarrow> if valid (bufs s ! i) then bdata (bufs s ! i) else dblock (img s) bn
   | None \<Rightarrow> dblock (img s) bn)"

definition rc :: "'a bcache_scheme \<Rightarrow> uint32 \<Rightarrow> int" where
  "rc s bn = (case cidx s bn of Some i \<Rightarrow> refcnt (bufs s ! i) | None \<Rightarrow> 0)"

lemma binvD:
  assumes "binv pid H s"
  shows "length (bufs s) = NBUF" "distinct (lru s)" "set (lru s) = {..<NBUF}" "H \<subseteq> {..<NBUF}"
    "\<And>i. i < NBUF \<Longrightarrow> buf_ok pid (i \<in> H) (img s) (bufs s ! i)"
    "\<And>i j bn. i < NBUF \<Longrightarrow> j < NBUF \<Longrightarrow> holds_block s bn i \<Longrightarrow> holds_block s bn j \<Longrightarrow> i = j"
  using assms unfolding binv_def by blast+

lemma binvI:
  assumes "length (bufs s) = NBUF" "distinct (lru s)" "set (lru s) = {..<NBUF}" "H \<subseteq> {..<NBUF}"
    "\<And>i. i < NBUF \<Longrightarrow> buf_ok pid (i \<in> H) (img s) (bufs s ! i)"
    "\<And>i j bn. i < NBUF \<Longrightarrow> j < NBUF \<Longrightarrow> holds_block s bn i \<Longrightarrow> holds_block s bn j \<Longrightarrow> i = j"
  shows "binv pid H s"
  using assms unfolding binv_def by blast

lemma view_cong:
  assumes "bufs s' = bufs s"
  shows "holds_block s' = holds_block s" "cidx s' = cidx s" "rc s' = rc s"
    "img s' = img s \<Longrightarrow> cur s' = cur s"
proof -
  show h: "holds_block s' = holds_block s" by (intro ext) (simp add: holds_block_def assms)
  show c: "cidx s' = cidx s" by (intro ext) (simp only: cidx_def h)
  show "rc s' = rc s" by (intro ext) (simp only: rc_def c assms)
  show "cur s' = cur s" if "img s' = img s" by (intro ext) (simp only: cur_def c assms that)
qed

lemma cidx_Some:
  assumes "binv pid H s"
  shows "cidx s bn = Some i \<longleftrightarrow> i < NBUF \<and> holds_block s bn i"
proof
  assume "cidx s bn = Some i"
  then show "i < NBUF \<and> holds_block s bn i" by (auto simp: cidx_def find_Some_iff)
next
  assume i: "i < NBUF \<and> holds_block s bn i"
  then have "cidx s bn \<noteq> None" unfolding cidx_def find_None_iff by auto
  then obtain j where j: "cidx s bn = Some j" by blast
  then have "j < NBUF \<and> holds_block s bn j" by (auto simp: cidx_def find_Some_iff)
  then have "j = i" using binvD(6) [OF assms] i by blast
  then show "cidx s bn = Some i" using j by simp
qed

lemma cidx_None: "cidx s bn = None \<longleftrightarrow> (\<forall>i < NBUF. \<not> holds_block s bn i)"
  by (auto simp: cidx_def find_None_iff)

text \<open>The search of \<^verbatim>\<open>bget\<close> along the list finds the same buffer.\<close>

lemma bget_scan:
  assumes inv: "binv pid H s"
  shows "find (\<lambda>i. bdev (bufs s ! i) = ROOTDEV \<and> blockno (bufs s ! i) = bn) (lru s) = cidx s bn"
proof -
  let ?f = "find (\<lambda>i. bdev (bufs s ! i) = ROOTDEV \<and> blockno (bufs s ! i) = bn) (lru s)"
  show ?thesis
  proof (cases "?f")
    case None
    then have "\<forall>i < NBUF. \<not> holds_block s bn i"
      using binvD(3) [OF inv] unfolding find_None_iff holds_block_def by (metis lessThan_iff)
    then show ?thesis using None cidx_None by metis
  next
    case (Some i)
    then obtain k where "k < length (lru s)" "i = lru s ! k" "holds_block s bn i"
      unfolding find_Some_iff holds_block_def by blast
    then have "i < NBUF \<and> holds_block s bn i" using binvD(3) [OF inv] nth_mem lessThan_iff by metis
    then show ?thesis using Some cidx_Some [OF inv] by metis
  qed
qed

lemma upd_buf_simps [simp]:
  "bufs (upd_buf i f s) = (bufs s)[i := f (bufs s ! i)]" "lru (upd_buf i f s) = lru s"
  "img (upd_buf i f s) = img s" "dwrites (upd_buf i f s) = dwrites s" "woken (upd_buf i f s) = woken s"
  by (simp_all add: upd_buf_def)

lemma upd_buf_twice: "i < length (bufs s) \<Longrightarrow> upd_buf i g (upd_buf i f s) = upd_buf i (\<lambda>b. g (f b)) s"
  by (simp add: upd_buf_def)

text \<open>Replacing one buffer by another that is fit for its new role.\<close>

definition put_buf :: "nat \<Rightarrow> buf \<Rightarrow> 'a bcache_scheme \<Rightarrow> 'a bcache_scheme" where
  "put_buf i B s = s\<lparr>bufs := (bufs s)[i := B]\<rparr>"

lemma put_buf_simps [simp]:
  "bufs (put_buf i B s) = (bufs s)[i := B]" "lru (put_buf i B s) = lru s"
  "img (put_buf i B s) = img s" "dwrites (put_buf i B s) = dwrites s" "woken (put_buf i B s) = woken s"
  "bcache.more (put_buf i B s) = bcache.more s"
  by (simp_all add: put_buf_def)

lemma upd_buf_put: "upd_buf i f s = put_buf i (f (bufs s ! i)) s"
  by (simp add: upd_buf_def put_buf_def)

lemma put_buf_twice [simp]: "put_buf i C (put_buf i B s) = put_buf i C s"
  by (simp add: put_buf_def)

lemma holds_put_buf:
  "length (bufs s) = NBUF \<Longrightarrow> i < NBUF \<Longrightarrow> j < NBUF \<Longrightarrow>
   holds_block (put_buf i B s) bn j = (if j = i then bdev B = ROOTDEV \<and> blockno B = bn else holds_block s bn j)"
  by (simp add: holds_block_def)

lemma put_buf_binv:
  assumes inv: "binv pid H s" and i: "i < NBUF" and H': "H' = H - {i} \<or> H' = insert i H"
    and B: "buf_ok pid (i \<in> H') (img s) B"
    and uniq: "bdev B = ROOTDEV \<Longrightarrow> cidx s (blockno B) = None \<or> cidx s (blockno B) = Some i"
  shows "binv pid H' (put_buf i B s)"
proof (rule binvI)
  show "length (bufs (put_buf i B s)) = NBUF" "distinct (lru (put_buf i B s))"
      "set (lru (put_buf i B s)) = {..<NBUF}" "H' \<subseteq> {..<NBUF}"
    using binvD(1-4) [OF inv] H' i by auto
  show "buf_ok pid (j \<in> H') (img (put_buf i B s)) (bufs (put_buf i B s) ! j)" if "j < NBUF" for j
    using binvD(5) [OF inv that] binvD(1) [OF inv] B H' i that by (cases "j = i") auto
  fix j k bn
  assume jk: "j < NBUF" "k < NBUF" "holds_block (put_buf i B s) bn j" "holds_block (put_buf i B s) bn k"
  have no: "\<not> holds_block s (blockno B) l" if "bdev B = ROOTDEV" "l < NBUF" "l \<noteq> i" for l
    using uniq [OF that(1)] that cidx_None [of s] cidx_Some [OF inv] by (metis option.inject)
  show "j = k"
    using jk no binvD(6) [OF inv jk(1,2)] unfolding holds_put_buf [OF binvD(1) [OF inv] i jk(1)]
      holds_put_buf [OF binvD(1) [OF inv] i jk(2)] by (metis (full_types))
qed

lemma cidx_put_buf:
  assumes inv: "binv pid H s" and inv': "binv pid' H' (put_buf i B s)" and i: "i < NBUF"
  shows "cidx (put_buf i B s) bn =
    (if bdev B = ROOTDEV \<and> blockno B = bn then Some i
     else if holds_block s bn i then None else cidx s bn)"
proof -
  note h = holds_put_buf [OF binvD(1) [OF inv] i]
  show ?thesis
  proof (cases "bdev B = ROOTDEV \<and> blockno B = bn")
    case True
    then have "holds_block (put_buf i B s) bn i" using h [OF i] by simp
    then show ?thesis using True cidx_Some [OF inv'] i by simp
  next
    case False
    show ?thesis
    proof (cases "holds_block s bn i")
      case True
      then have "\<not> holds_block (put_buf i B s) bn j" if "j < NBUF" for j
        using h [OF that] False binvD(6) [OF inv i that] by auto
      then show ?thesis using False True cidx_None by auto
    next
      case nh: False
      have eq: "holds_block (put_buf i B s) bn j = holds_block s bn j" if "j < NBUF" for j
        using h [OF that] False nh by auto
      have "find (holds_block (put_buf i B s) bn) [0..<NBUF] = find (holds_block s bn) [0..<NBUF]"
        by (rule find_cong) (use eq in auto)
      then show ?thesis using False nh by (simp only: cidx_def if_False)
    qed
  qed
qed

lemma cur_put_buf:
  assumes inv: "binv pid H s" and inv': "binv pid' H' (put_buf i B s)" and i: "i < NBUF"
  shows "cur (put_buf i B s) bn =
    (if bdev B = ROOTDEV \<and> blockno B = bn then (if valid B then bdata B else dblock (img s) bn)
     else if holds_block s bn i then dblock (img s) bn else cur s bn)"
proof -
  have len: "length (bufs s) = NBUF" by (rule binvD(1) [OF inv])
  have "cidx s bn \<noteq> Some i" if "\<not> holds_block s bn i" using cidx_Some [OF inv] that by blast
  then show ?thesis
    unfolding cur_def cidx_put_buf [OF assms] using len i
    by (auto simp: nth_list_update split: option.split)
qed

lemma rc_put_buf:
  assumes inv: "binv pid H s" and inv': "binv pid' H' (put_buf i B s)" and i: "i < NBUF"
  shows "rc (put_buf i B s) bn =
    (if bdev B = ROOTDEV \<and> blockno B = bn then refcnt B else if holds_block s bn i then 0 else rc s bn)"
proof -
  have len: "length (bufs s) = NBUF" by (rule binvD(1) [OF inv])
  have "cidx s bn \<noteq> Some i" if "\<not> holds_block s bn i" using cidx_Some [OF inv] that by blast
  then show ?thesis
    unfolding rc_def cidx_put_buf [OF assms] using len i
    by (auto simp: nth_list_update split: option.split)
qed

lemma rc_nonneg: "binv pid H s \<Longrightarrow> 0 \<le> rc s bn"
  using binvD(5) [of pid H s] cidx_Some [of pid H s bn]
  by (auto simp: rc_def buf_ok_def split: option.split)

lemma length_cur: "binv pid H s \<Longrightarrow> in_disk (img s) bn \<Longrightarrow> length (cur s bn) = 1024"
  using binvD(5) [of pid H s] cidx_Some [of pid H s bn]
  by (auto simp: cur_def buf_ok_def length_dblock split: option.split)

lemma cur_holds: "binv pid H s \<Longrightarrow> i < NBUF \<Longrightarrow> holds_block s bn i \<Longrightarrow> valid (bufs s ! i) \<Longrightarrow> cur s bn = bdata (bufs s ! i)"
  using cidx_Some [of pid H s bn i] by (simp add: cur_def)

lemma rc_holds: "binv pid H s \<Longrightarrow> i < NBUF \<Longrightarrow> holds_block s bn i \<Longrightarrow> rc s bn = refcnt (bufs s ! i)"
  using cidx_Some [of pid H s bn i] by (simp add: rc_def)

subsection \<open>Reading a block\<close>

definition fresh_buf :: "int \<Rightarrow> 'a bcache_scheme \<Rightarrow> uint32 \<Rightarrow> buf" where
  "fresh_buf pid s bn = \<lparr>valid = True, bdev = ROOTDEV, blockno = bn,
     blk_lock = \<lparr>locked = True, lkpid = pid\<rparr>, refcnt = rc s bn + 1, bdata = cur s bn\<rparr>"

lemma fresh_buf_ok:
  assumes "binv pid H s" "in_disk (img s) bn"
  shows "buf_ok pid True (img s) (fresh_buf pid s bn)"
  using rc_nonneg [OF assms(1), of bn] length_cur [OF assms] assms(2)
  by (simp add: buf_ok_def fresh_buf_def)

text \<open>The part of \<^verbatim>\<open>bread\<close> after the buffer has been chosen.\<close>

lemma bread_finish:
  assumes inv: "binv pid H s" and i: "i < NBUF" and B: "bdev B = ROOTDEV" "blockno B = bn" "\<not> locked (blk_lock B)"
    and d: "in_disk (img s) bn" and B': "bdata B = cur s bn \<and> valid B \<or> \<not> valid B \<and> cur s bn = dblock (img s) bn"
    and r: "refcnt B = rc s bn + 1"
  shows "kbind (lock_buf pid i (put_buf i B s)) (\<lambda>i s.
       if \<not> valid (bufs s ! i)
       then kbind (ramdisk_rw pid i False s) (\<lambda>_ s. Ok i (put_buf i ((bufs s ! i)\<lparr>valid := True\<rparr>) s))
       else Ok i s) = Ok i (put_buf i (fresh_buf pid s bn) s)"
proof -
  have len: "length (bufs s) = NBUF" by (rule binvD(1) [OF inv])
  define C where "C = B\<lparr>blk_lock := (blk_lock B)\<lparr>locked := True, lkpid := pid\<rparr>\<rparr>"
  have l: "(blk_lock B)\<lparr>locked := True, lkpid := pid\<rparr> = \<lparr>locked = True, lkpid = pid\<rparr>" by (cases "blk_lock B") simp
  have 1: "lock_buf pid i (put_buf i B s) = Ok i (put_buf i C s)"
    using B(3) len i by (simp add: lock_buf_def acquiresleep_def upd_buf_put C_def)
  have a: "diskaddr bn = 1024 * unat bn" "\<not> 1024 * unat bn + BSIZE > length (img s)"
    using d by (auto simp: diskaddr_eq in_disk_def BSIZE_def)
  show ?thesis
  proof (cases "valid B")
    case True
    then have "C = fresh_buf pid s bn" unfolding C_def l using B B' r by (simp add: fresh_buf_def)
    then show ?thesis unfolding 1 using len i by (simp add: fresh_buf_def)
  next
    case False
    then have "C\<lparr>bdata := dblock (img s) bn, valid := True\<rparr> = fresh_buf pid s bn"
      unfolding C_def l using B B' r by (simp add: fresh_buf_def)
    moreover have "holdingsleep pid (blk_lock C)" "blockno C = bn" "\<not> valid C" using B False by (simp_all add: C_def holdingsleep_def)
    ultimately show ?thesis unfolding 1 using len i a
      by (simp add: ramdisk_rw_def upd_buf_put dblock_def Let_def) (simp add: fresh_buf_def)
  qed
qed

lemma bread_ok:
  assumes inv: "binv pid H s" and d: "in_disk (img s) bn" and nh: "\<And>j. j \<in> H \<Longrightarrow> \<not> holds_block s bn j"
    and room: "cidx s bn \<noteq> None \<or> (\<exists>j < NBUF. refcnt (bufs s ! j) = 0)"
  obtains i where "i < NBUF" "i \<notin> H" "bread pid ROOTDEV bn s = Ok i (put_buf i (fresh_buf pid s bn) s)"
    "cidx s bn = Some i \<or> cidx s bn = None \<and> refcnt (bufs s ! i) = 0"
proof (cases "cidx s bn")
  case (Some i)
  then have i: "i < NBUF" "holds_block s bn i" using cidx_Some [OF inv] by auto
  then have iH: "i \<notin> H" using nh by blast
  have ok: "buf_ok pid False (img s) (bufs s ! i)" using binvD(5) [OF inv i(1)] iH by simp
  let ?B = "(bufs s ! i)\<lparr>refcnt := refcnt (bufs s ! i) + 1\<rparr>"
  have "bread pid ROOTDEV bn s = Ok i (put_buf i (fresh_buf pid s bn) s)"
    unfolding bread_def bget_def bget_scan [OF inv] Some option.case upd_buf_put
    by (rule bread_finish [OF inv i(1)])
      (use i ok d Some in \<open>auto simp: holds_block_def buf_ok_def cur_def rc_def\<close>)
  then show ?thesis using that i iH Some by blast
next
  case None
  then obtain j where j: "j < NBUF" "refcnt (bufs s ! j) = 0" using room by blast
  then have "find (\<lambda>i. refcnt (bufs s ! i) = 0) (rev (lru s)) \<noteq> None"
    using binvD(3) [OF inv] unfolding find_None_iff by auto
  then obtain i where f: "find (\<lambda>i. refcnt (bufs s ! i) = 0) (rev (lru s)) = Some i" by blast
  then obtain k where "k < length (rev (lru s))" "i = rev (lru s) ! k" and r: "refcnt (bufs s ! i) = 0"
    unfolding find_Some_iff by blast
  then have i: "i < NBUF" using binvD(3) [OF inv] by (metis lessThan_iff nth_mem set_rev)
  have ok: "buf_ok pid (i \<in> H) (img s) (bufs s ! i)" by (rule binvD(5) [OF inv i])
  then have iH: "i \<notin> H" using r by (auto simp: buf_ok_def)
  have "bread pid ROOTDEV bn s = Ok i (put_buf i (fresh_buf pid s bn) s)"
    unfolding bread_def bget_def bget_scan [OF inv] None option.case f upd_buf_put
    by (rule bread_finish [OF inv i]) (use ok iH d None in \<open>auto simp: buf_ok_def cur_def rc_def\<close>)
  then show ?thesis using that i iH None r by blast
qed

lemma bread_effect:
  assumes inv: "binv pid H s" and d: "in_disk (img s) bn" and i: "i < NBUF" "i \<notin> H"
    and c: "cidx s bn = Some i \<or> cidx s bn = None \<and> refcnt (bufs s ! i) = 0"
  shows "binv pid (insert i H) (put_buf i (fresh_buf pid s bn) s)" (is "binv _ _ ?s")
    and "cur (put_buf i (fresh_buf pid s bn) s) b = cur s b"
    and "rc (put_buf i (fresh_buf pid s bn) s) b = (if b = bn then rc s bn + 1 else rc s b)"
proof -
  show inv': "binv pid (insert i H) ?s"
    using c i fresh_buf_ok [OF inv d] by (intro put_buf_binv [OF inv]) (auto simp: fresh_buf_def)
  have ok: "buf_ok pid False (img s) (bufs s ! i)" using binvD(5) [OF inv i(1)] i by simp
  have f: "bdev (fresh_buf pid s bn) = ROOTDEV" "blockno (fresh_buf pid s bn) = bn" "valid (fresh_buf pid s bn)"
      "bdata (fresh_buf pid s bn) = cur s bn" "refcnt (fresh_buf pid s bn) = rc s bn + 1"
    by (simp_all add: fresh_buf_def)
  have old: "cur s b = dblock (img s) b \<and> rc s b = 0" if h: "holds_block s b i" "b \<noteq> bn"
  proof -
    have "cidx s bn \<noteq> Some i" using cidx_Some [OF inv] h by (auto simp: holds_block_def)
    then have "refcnt (bufs s ! i) = 0" using c by simp
    then show ?thesis using ok h cidx_Some [OF inv, of b i] i
      by (auto simp: cur_def rc_def buf_ok_def holds_block_def)
  qed
  show "cur ?s b = cur s b" unfolding cur_put_buf [OF inv inv' i(1)] using f old by auto
  show "rc ?s b = (if b = bn then rc s bn + 1 else rc s b)"
    unfolding rc_put_buf [OF inv inv' i(1)] using f old by auto
qed

subsection \<open>Writing and releasing a block\<close>

lemma held_buf:
  assumes inv: "binv pid H s" and i: "i \<in> H"
  shows "i < NBUF" "holdingsleep pid (blk_lock (bufs s ! i))" "valid (bufs s ! i)" "0 < refcnt (bufs s ! i)"
    "length (bdata (bufs s ! i)) = 1024" "holds_block s (blockno (bufs s ! i)) i" "in_disk (img s) (blockno (bufs s ! i))"
    "cur s (blockno (bufs s ! i)) = bdata (bufs s ! i)" "rc s (blockno (bufs s ! i)) = refcnt (bufs s ! i)"
proof -
  show n: "i < NBUF" using binvD(4) [OF inv] i by blast
  have ok: "buf_ok pid True (img s) (bufs s ! i)" using binvD(5) [OF inv n] i by simp
  then show "holdingsleep pid (blk_lock (bufs s ! i))" and v: "valid (bufs s ! i)" and "0 < refcnt (bufs s ! i)"
    and "length (bdata (bufs s ! i)) = 1024" and "in_disk (img s) (blockno (bufs s ! i))"
    and h: "holds_block s (blockno (bufs s ! i)) i"
    by (auto simp: buf_ok_def holdingsleep_def holds_block_def)
  show "cur s (blockno (bufs s ! i)) = bdata (bufs s ! i)" by (rule cur_holds [OF inv n h v])
  show "rc s (blockno (bufs s ! i)) = refcnt (bufs s ! i)" by (rule rc_holds [OF inv n h])
qed

text \<open>Changing the data or the count of a held buffer.\<close>

lemma held_update:
  assumes inv: "binv pid H s" and i: "i \<in> H" and B: "B = (bufs s ! i)\<lparr>bdata := d, refcnt := r\<rparr>"
    and d: "length d = 1024" and r: "0 < r"
  shows "binv pid H (put_buf i B s)"
    and "cur (put_buf i B s) b = (if b = blockno (bufs s ! i) then d else cur s b)"
    and "rc (put_buf i B s) b = (if b = blockno (bufs s ! i) then r else rc s b)"
proof -
  note h = held_buf [OF inv i]
  have ok: "buf_ok pid True (img s) (bufs s ! i)" using binvD(5) [OF inv h(1)] i by simp
  have dev: "bdev B = ROOTDEV" "blockno B = blockno (bufs s ! i)" using h(6) B by (simp_all add: holds_block_def)
  show inv': "binv pid H (put_buf i B s)"
    by (rule put_buf_binv [OF inv h(1)])
      (use i ok d r B dev cidx_Some [OF inv, of "blockno B" i] h(1,6) in \<open>auto simp: buf_ok_def\<close>)
  have "b = blockno (bufs s ! i)" if "holds_block s b i" using that by (simp add: holds_block_def)
  then show "cur (put_buf i B s) b = (if b = blockno (bufs s ! i) then d else cur s b)"
      "rc (put_buf i B s) b = (if b = blockno (bufs s ! i) then r else rc s b)"
    unfolding cur_put_buf [OF inv inv' h(1)] rc_put_buf [OF inv inv' h(1)] using dev B h(3) by auto
qed

lemma set_data_ok:
  assumes inv: "binv pid H s" and i: "i \<in> H" and d: "length d = 1024"
  shows "binv pid H (set_data i d s)"
    and "cur (set_data i d s) b = (if b = blockno (bufs s ! i) then d else cur s b)"
    and "rc (set_data i d s) b = rc s b"
proof -
  note h = held_buf [OF inv i]
  have s: "set_data i d s = put_buf i ((bufs s ! i)\<lparr>bdata := d, refcnt := refcnt (bufs s ! i)\<rparr>) s"
    by (simp add: set_data_def upd_buf_put)
  note u = held_update [OF inv i refl d h(4)]
  show "binv pid H (set_data i d s)" "cur (set_data i d s) b = (if b = blockno (bufs s ! i) then d else cur s b)"
    "rc (set_data i d s) b = rc s b"
    unfolding s using u h(9) by auto
qed

lemma pin_ok:
  assumes inv: "binv pid H s" and i: "i \<in> H"
  shows "binv pid H (bpin i s)" "cur (bpin i s) b = cur s b"
    and "rc (bpin i s) b = (if b = blockno (bufs s ! i) then rc s b + 1 else rc s b)"
    and "1 < rc s (blockno (bufs s ! i)) \<Longrightarrow> binv pid H (bunpin i s)"
    and "1 < rc s (blockno (bufs s ! i)) \<Longrightarrow> cur (bunpin i s) b = cur s b"
    and "1 < rc s (blockno (bufs s ! i)) \<Longrightarrow> rc (bunpin i s) b = (if b = blockno (bufs s ! i) then rc s b - 1 else rc s b)"
proof -
  note h = held_buf [OF inv i]
  let ?B = "\<lambda>r. (bufs s ! i)\<lparr>bdata := bdata (bufs s ! i), refcnt := r\<rparr>"
  have s: "bpin i s = put_buf i (?B (refcnt (bufs s ! i) + 1)) s" "bunpin i s = put_buf i (?B (refcnt (bufs s ! i) - 1)) s"
    by (simp_all add: bpin_def bunpin_def upd_buf_put)
  note u = held_update [OF inv i refl h(5)]
  show "binv pid H (bpin i s)" "cur (bpin i s) b = cur s b"
    "rc (bpin i s) b = (if b = blockno (bufs s ! i) then rc s b + 1 else rc s b)"
    unfolding s using u [of "refcnt (bufs s ! i) + 1"] h(4,8,9) by auto
  assume "1 < rc s (blockno (bufs s ! i))"
  then have "0 < refcnt (bufs s ! i) - 1" using h(9) by simp
  then show "binv pid H (bunpin i s)" "cur (bunpin i s) b = cur s b"
    "rc (bunpin i s) b = (if b = blockno (bufs s ! i) then rc s b - 1 else rc s b)"
    unfolding s using u [of "refcnt (bufs s ! i) - 1"] h(8,9) by auto
qed

lemma bwrite_ok:
  assumes inv: "binv pid H s" and i: "i \<in> H"
  shows "bwrite pid i s = Ok () (s\<lparr>img := dput (img s) (blockno (bufs s ! i)) (bdata (bufs s ! i)),
           dwrites := dwrites s @ [(blockno (bufs s ! i), bdata (bufs s ! i))]\<rparr>)"
proof -
  note h = held_buf [OF inv i]
  have "diskaddr (blockno (bufs s ! i)) = 1024 * unat (blockno (bufs s ! i))"
    "\<not> 1024 * unat (blockno (bufs s ! i)) + BSIZE > length (img s)"
    using h(7) by (auto simp: diskaddr_eq in_disk_def BSIZE_def)
  then show ?thesis using h by (simp add: bwrite_def ramdisk_rw_def Let_def dput_def BSIZE_def)
qed

lemma bwrite_effect:
  assumes inv: "binv pid H s" and i: "i \<in> H"
    and s': "s' = s\<lparr>img := dput (img s) (blockno (bufs s ! i)) (bdata (bufs s ! i)), dwrites := w\<rparr>"
  shows "binv pid H s'" "in_disk (img s) b \<Longrightarrow> cur s' b = cur s b" "rc s' b = rc s b" "in_disk (img s') b = in_disk (img s) b"
    "in_disk (img s) b \<Longrightarrow> dblock (img s') b = (if b = blockno (bufs s ! i) then bdata (bufs s ! i) else dblock (img s) b)"
proof -
  note h = held_buf [OF inv i]
  let ?b = "blockno (bufs s ! i)"
  have idk: "in_disk (img s') x = in_disk (img s) x" for x using in_disk_dput [OF h(5,7)] s' by simp
  then show "in_disk (img s') b = in_disk (img s) b" .
  have db: "dblock (img s') x = (if x = ?b then bdata (bufs s ! i) else dblock (img s) x)" if "in_disk (img s) x" for x
    using dblock_dput [OF h(5,7) that] s' by simp
  then show "in_disk (img s) b \<Longrightarrow> dblock (img s') b = (if b = ?b then bdata (bufs s ! i) else dblock (img s) b)" .
  have bs: "bufs s' = bufs s" using s' by simp
  note hb = view_cong(1) [OF bs] and ci = view_cong(2) [OF bs]
  show "rc s' b = rc s b" by (simp only: view_cong(3) [OF bs])
  show "binv pid H s'"
  proof (rule binvI)
    show "length (bufs s') = NBUF" "distinct (lru s')" "set (lru s') = {..<NBUF}" "H \<subseteq> {..<NBUF}"
      using binvD(1-4) [OF inv] s' by simp_all
    show "buf_ok pid (j \<in> H) (img s') (bufs s' ! j)" if j: "j < NBUF" for j
    proof (cases "j = i")
      case True
      then show ?thesis using binvD(5) [OF inv j] i idk h(4) s' by (auto simp: buf_ok_def)
    next
      case False
      then have "blockno (bufs s ! j) \<noteq> ?b" if "bdev (bufs s ! j) = ROOTDEV"
        using that binvD(6) [OF inv j h(1), of ?b] h(6) by (auto simp: holds_block_def)
      then show ?thesis using binvD(5) [OF inv j] idk db s' by (auto simp: buf_ok_def)
    qed
    show "\<And>j k bn. j < NBUF \<Longrightarrow> k < NBUF \<Longrightarrow> holds_block s' bn j \<Longrightarrow> holds_block s' bn k \<Longrightarrow> j = k"
      unfolding hb by (rule binvD(6) [OF inv])
  qed
  show "cur s' b = cur s b" if "in_disk (img s) b"
    using db [OF that] cidx_Some [OF inv, of b i] h(1,3,6) unfolding cur_def ci
    by (auto simp: s' split: option.split)
qed

lemma brelse_ok:
  assumes inv: "binv pid H s" and i: "i \<in> H"
    and clean: "rc s (blockno (bufs s ! i)) = 1 \<Longrightarrow> cur s (blockno (bufs s ! i)) = dblock (img s) (blockno (bufs s ! i))"
  obtains s' where "brelse pid i s = Ok () s'" "binv pid (H - {i}) s'" "\<And>b. cur s' b = cur s b"
    "\<And>b. rc s' b = (if b = blockno (bufs s ! i) then rc s b - 1 else rc s b)"
    "img s' = img s" "dwrites s' = dwrites s" "bcache.more s' = bcache.more s"
    "\<And>j. j \<noteq> i \<Longrightarrow> bufs s' ! j = bufs s ! j" "refcnt (bufs s' ! i) = rc s (blockno (bufs s ! i)) - 1"
    "lru s' = lru s \<or> lru s' = i # remove1 i (lru s)"
proof -
  note h = held_buf [OF inv i]
  let ?b = "blockno (bufs s ! i)"
  define B where "B = (bufs s ! i)\<lparr>blk_lock := releasesleep (blk_lock (bufs s ! i)), refcnt := refcnt (bufs s ! i) - 1\<rparr>"
  define t where "t = put_buf i B s"
  have len: "length (bufs s) = NBUF" by (rule binvD(1) [OF inv])
  have dev: "bdev B = ROOTDEV" "blockno B = ?b" using h(6) by (simp_all add: B_def holds_block_def)
  have inv1: "binv pid (H - {i}) t" unfolding t_def
    by (rule put_buf_binv [OF inv h(1)])
      (use h clean dev cidx_Some [OF inv, of ?b i] in \<open>auto simp: B_def buf_ok_def\<close>)
  have "b = ?b" if "holds_block s b i" for b using that by (simp add: holds_block_def)
  then have cr: "cur t b = cur s b" "rc t b = (if b = ?b then rc s b - 1 else rc s b)" for b
    unfolding t_def cur_put_buf [OF inv inv1 [unfolded t_def] h(1)] rc_put_buf [OF inv inv1 [unfolded t_def] h(1)]
    using dev h(3,8,9) by (auto simp: B_def)
  define l where "l = (if refcnt B = 0 then i # remove1 i (lru s) else lru s)"
  let ?s = "t\<lparr>woken := woken s @ [ChBufLock i], lru := l\<rparr>"
  have "brelse pid i s = Ok () ?s"
    using h(1,2) len by (simp add: brelse_def Let_def upd_buf_put t_def B_def l_def put_buf_def)
  moreover have "distinct l" "set l = {..<NBUF}"
    using binvD(2,3) [OF inv] h(1) by (auto simp: l_def)
  then have "binv pid (H - {i}) ?s"
    using binvD [OF inv1] by (intro binvI) (auto simp: holds_block_def)
  moreover have "cur ?s = cur t" "rc ?s = rc t" by (rule view_cong; simp)+
  ultimately show ?thesis using cr
    by (intro that [of ?s]) (use h(1,9) len in \<open>simp_all add: t_def put_buf_def B_def l_def\<close>)
qed

end
