(* ===== verification/Kstring.thy ===== *)
theory Kstring
  imports Riscv
begin

section \<open>Memory and the routines of string.c\<close>

text \<open>
  Physical memory is a function from addresses to bytes. The kernel maps physical memory
  at its own addresses, so a kernel pointer is an address of this memory. \<^verbatim>\<open>memset\<close> and
  \<^verbatim>\<open>memmove\<close> of \<^verbatim>\<open>kernel/string.c\<close> and the \<^verbatim>\<open>memmove\<close> of \<^verbatim>\<open>user/ulib.c\<close> are
  translated as loops over memory and shown equal to the closed forms \<open>fill\<close> and \<open>copied\<close>, also
  when source and destination overlap. The string routines work on separate character arrays:
  an array is the list of its bytes, and reading or writing past its end is \<open>None\<close>.
\<close>

subsection \<open>Closed forms\<close>

definition fill :: "memory \<Rightarrow> addr \<Rightarrow> uint8 \<Rightarrow> nat \<Rightarrow> memory" where
  "fill m a c n = (\<lambda>x. if unat (x - a) < n then c else m x)"

definition copied :: "memory \<Rightarrow> addr \<Rightarrow> addr \<Rightarrow> nat \<Rightarrow> memory" where
  "copied m d s n = (\<lambda>x. if unat (x - d) < n then m (s + (x - d)) else m x)"

text \<open>Eight bytes as a little-endian 64-bit word, as the processor loads and stores them.\<close>

definition ld64 :: "memory \<Rightarrow> addr \<Rightarrow> uint64" where
  "ld64 m a = of_nat (\<Sum>i<8. unat (m (a + of_nat i)) * 256 ^ i)"

definition st64 :: "memory \<Rightarrow> addr \<Rightarrow> uint64 \<Rightarrow> memory" where
  "st64 m a v = (\<lambda>x. if unat (x - a) < 8 then of_nat (unat v div 256 ^ unat (x - a)) else m x)"

text \<open>A run of bytes stored from, and loaded into, a byte list.\<close>

definition put_bytes :: "memory \<Rightarrow> addr \<Rightarrow> uint8 list \<Rightarrow> memory" where
  "put_bytes m a bs = (\<lambda>x. if unat (x - a) < length bs then bs ! unat (x - a) else m x)"

definition get_bytes :: "memory \<Rightarrow> addr \<Rightarrow> nat \<Rightarrow> uint8 list" where
  "get_bytes m a n = map (\<lambda>i. m (a + of_nat i)) [0..<n]"

subsection \<open>The loops of the C code\<close>

function memset_loop :: "memory \<Rightarrow> addr \<Rightarrow> uint8 \<Rightarrow> nat \<Rightarrow> nat \<Rightarrow> memory" where
  "memset_loop m cdst c i n =
     (if i < n then memset_loop (m(cdst + of_nat i := c)) cdst c (Suc i) n else m)"
  by pat_completeness auto
termination
  by (relation "measure (\<lambda>(m, d, c, i, n). n - i)") auto

declare memset_loop.simps [simp del]

definition memset :: "memory \<Rightarrow> addr \<Rightarrow> uint32 \<Rightarrow> uint32 \<Rightarrow> memory" where
  "memset m dst c n = memset_loop m dst (ucast c) 0 (unat n)"

fun move_down :: "memory \<Rightarrow> addr \<Rightarrow> addr \<Rightarrow> nat \<Rightarrow> memory" where
  "move_down m d s 0 = m"
| "move_down m d s (Suc n) = move_down (m(d - 1 := m (s - 1))) (d - 1) (s - 1) n"

fun move_up :: "memory \<Rightarrow> addr \<Rightarrow> addr \<Rightarrow> nat \<Rightarrow> memory" where
  "move_up m d s 0 = m"
| "move_up m d s (Suc n) = move_up (m(d := m s)) (d + 1) (s + 1) n"

definition memmove :: "memory \<Rightarrow> addr \<Rightarrow> addr \<Rightarrow> uint32 \<Rightarrow> memory" where
  "memmove m dst src n =
     (if n = 0 then m
      else if src < dst \<and> src + ucast n > dst
      then move_down m (dst + ucast n) (src + ucast n) (unat n)
      else move_up m dst src (unat n))"

definition memcpy :: "memory \<Rightarrow> addr \<Rightarrow> addr \<Rightarrow> uint32 \<Rightarrow> memory" where
  "memcpy m dst src n = memmove m dst src n"

text \<open>The \<^verbatim>\<open>memmove\<close> of \<^verbatim>\<open>user/ulib.c\<close>; \<open>n\<close> is a signed count.\<close>

definition umemmove :: "memory \<Rightarrow> addr \<Rightarrow> addr \<Rightarrow> int \<Rightarrow> memory" where
  "umemmove m dst src n =
     (if src > dst then move_up m dst src (nat n)
      else move_down m (dst + of_int n) (src + of_int n) (nat n))"

subsection \<open>String routines on character arrays\<close>

fun memcmp :: "uint8 list \<Rightarrow> uint8 list \<Rightarrow> nat \<Rightarrow> int option" where
  "memcmp s1 s2 0 = Some 0"
| "memcmp (a # s1) (b # s2) (Suc n) =
     (if a \<noteq> b then Some (uint a - uint b) else memcmp s1 s2 n)"
| "memcmp _ _ (Suc n) = None"

fun strncmp :: "uint8 list \<Rightarrow> uint8 list \<Rightarrow> nat \<Rightarrow> int option" where
  "strncmp p q 0 = Some 0"
| "strncmp (a # p) (b # q) (Suc n) =
     (if a \<noteq> 0 \<and> a = b then strncmp p q n else Some (uint a - uint b))"
| "strncmp _ _ (Suc n) = None"

fun zero_rest :: "uint8 list \<Rightarrow> nat \<Rightarrow> uint8 list option" where
  "zero_rest s 0 = Some s"
| "zero_rest (_ # s) (Suc n) = map_option (Cons 0) (zero_rest s n)"
| "zero_rest [] (Suc n) = None"

fun strncpy :: "uint8 list \<Rightarrow> uint8 list \<Rightarrow> nat \<Rightarrow> uint8 list option" where
  "strncpy s t 0 = Some s"
| "strncpy (_ # s) (c # t) (Suc n) =
     (if c \<noteq> 0 then map_option (Cons c) (strncpy s t n) else map_option (Cons 0) (zero_rest s n))"
| "strncpy _ _ (Suc n) = None"

text \<open>
  \<open>safestr s t k\<close> is the loop of \<^verbatim>\<open>safestrcpy\<close> with \<open>k\<close> the value of \<open>n\<close> after the
  decrement of its test. A copied terminator ends the loop with \<open>s\<close> already moved on, and
  the final store writes one more zero.
\<close>

fun safestr :: "uint8 list \<Rightarrow> uint8 list \<Rightarrow> nat \<Rightarrow> uint8 list option" where
  "safestr (_ # s) t 0 = Some (0 # s)"
| "safestr [] t 0 = None"
| "safestr (_ # s) (c # t) (Suc k) =
     (if c \<noteq> 0 then map_option (Cons c) (safestr s t k)
      else (case s of [] \<Rightarrow> None | _ # s' \<Rightarrow> Some (0 # 0 # s')))"
| "safestr _ _ (Suc k) = None"

definition safestrcpy :: "uint8 list \<Rightarrow> uint8 list \<Rightarrow> int \<Rightarrow> uint8 list option" where
  "safestrcpy s t n = (if n \<le> 0 then Some s else safestr s t (nat n - 1))"

fun strlen :: "uint8 list \<Rightarrow> nat option" where
  "strlen [] = None"
| "strlen (c # s) = (if c \<noteq> 0 then map_option Suc (strlen s) else Some 0)"

subsection \<open>Aligned regions\<close>

lemma unat_diff_add: "unat (x - a) + unat a < 2 ^ 64 \<Longrightarrow> unat x = unat a + unat (x - a)"
  for x a :: uint64
proof -
  assume "unat (x - a) + unat a < 2 ^ 64"
  then have "unat ((x - a) + a) = unat (x - a) + unat a"
    unfolding unat_word_ariths by simp
  then show ?thesis by simp
qed

text \<open>An address lies in the \<open>k\<close>-byte block that starts at an aligned \<open>a\<close> iff it has
  the same block number.\<close>

lemma in_block_iff:
  fixes x a :: uint64
  assumes k: "k dvd 2 ^ 64" and al: "unat a mod k = 0"
  shows "unat (x - a) < k \<longleftrightarrow> unat x div k = unat a div k"
proof -
  have k0: "0 < k" using k by (auto intro: Nat.gr0I)
  obtain q where q: "2 ^ 64 = k * q" using k by (rule dvdE)
  obtain b where b: "unat a = k * b" using al by (auto simp: mod_eq_0_iff_dvd elim: dvdE)
  have "k * b < k * q" using unat_lt64 [of a] b q by simp
  then have "b < q" by simp
  then have "k * Suc b \<le> k * q" by (intro mult_le_mono2) simp
  then have room: "unat a + k \<le> 2 ^ 64" using b q by simp
  show ?thesis
  proof
    assume lt: "unat (x - a) < k"
    then have "unat x = unat a + unat (x - a)" using room by (intro unat_diff_add) simp
    then show "unat x div k = unat a div k" using lt b k0 by simp
  next
    assume "unat x div k = unat a div k"
    then have "unat x div k = b" using b k0 by simp
    then have "k * b \<le> unat x" "unat x < k * b + k"
      using k0 div_times_less_eq_dividend [of "unat x" k] dividend_less_div_times [of k "unat x"]
      by (auto simp: mult.commute)
    then have "a \<le> x" "unat x - unat a < k" using b by (auto simp: word_le_nat_alt)
    then show "unat (x - a) < k" by (simp add: unat_sub)
  qed
qed

lemma in_page_iff: "pgaligned p \<Longrightarrow> unat (x - p) < 4096 \<longleftrightarrow> unat x div 4096 = unat p div 4096"
  using in_block_iff [of 4096 p x] by (simp add: pgaligned_unat)

lemma in_slot_iff: "unat (a::uint64) mod 8 = 0 \<Longrightarrow> unat (x - a) < 8 \<longleftrightarrow> unat x div 8 = unat a div 8"
  using in_block_iff [of 8 a x] by simp

lemma pgaligned_eqI: "pgaligned p \<Longrightarrow> pgaligned q \<Longrightarrow> unat p div 4096 = unat q div 4096 \<Longrightarrow> p = q"
  by (metis PGROUNDDOWN_id unat_PGROUNDDOWN word_unat_eq_iff)

lemma pgaligned_room: "pgaligned p \<Longrightarrow> unat p + 4096 \<le> 2 ^ 64"
proof -
  assume "pgaligned p"
  then obtain b where "unat p = 4096 * b" by (auto simp: pgaligned_unat elim: dvdE)
  moreover have "unat p < 4096 * 2 ^ 52" using unat_lt64 [of p] by simp
  ultimately have "Suc b \<le> 2 ^ 52" by simp
  then have "4096 * Suc b \<le> 4096 * 2 ^ 52" by (rule mult_le_mono2)
  then show ?thesis using \<open>unat p = 4096 * b\<close> by simp
qed

lemma unat_page_offset:
  assumes "pgaligned p" and "n < 4096"
  shows "unat (p + of_nat n) = unat p + n"
proof -
  have n: "unat (of_nat n :: uint64) = n" using assms(2) by (intro unat_of_nat64) simp
  have "unat p + n < 2 ^ 64" using pgaligned_room [OF assms(1)] assms(2) by linarith
  then show ?thesis using n by (simp add: unat_word_ariths)
qed

lemma page_offset_div:
  assumes "pgaligned p" and "n < 4096"
  shows "unat (p + of_nat n) div 4096 = unat p div 4096"
proof -
  obtain b where "unat p = 4096 * b" using assms(1) by (auto simp: pgaligned_unat elim: dvdE)
  then show ?thesis using unat_page_offset [OF assms] assms(2) by simp
qed

subsection \<open>The loops compute the closed forms\<close>

lemma offset_eq_iff:
  fixes x d :: uint64
  shows "i < 2 ^ 64 \<Longrightarrow> x = d + of_nat i \<longleftrightarrow> unat (x - d) = i"
proof -
  assume i: "i < 2 ^ 64"
  have "x = d + of_nat i \<longleftrightarrow> x - d = of_nat i" by (auto simp: algebra_simps)
  also have "\<dots> \<longleftrightarrow> unat (x - d) = i" using i by (simp only: word_unat_eq_iff unat_of_nat64)
  finally show ?thesis .
qed

lemma memset_loop_fill:
  "n \<le> 2 ^ 64 \<Longrightarrow>
   memset_loop m d c i n = (\<lambda>x. if i \<le> unat (x - d) \<and> unat (x - d) < n then c else m x)"
proof (induction m d c i n rule: memset_loop.induct)
  case (1 m d c i n)
  show ?case
  proof (cases "i < n")
    case True
    note ih = "1.IH" [OF True "1.prems"]
    have "i < 2 ^ 64" using True "1.prems" by simp
    have "memset_loop m d c i n = memset_loop (m(d + of_nat i := c)) d c (Suc i) n"
      using True by (simp add: memset_loop.simps [of m d c i n])
    also note ih
    also have "(\<lambda>x. if Suc i \<le> unat (x - d) \<and> unat (x - d) < n then c else (m(d + of_nat i := c)) x)
        = (\<lambda>x. if i \<le> unat (x - d) \<and> unat (x - d) < n then c else m x)"
      using True \<open>i < 2 ^ 64\<close> by (auto simp: fun_eq_iff offset_eq_iff)
    finally show ?thesis .
  next
    case False
    then show ?thesis by (auto simp: memset_loop.simps [of m d c i n] fun_eq_iff)
  qed
qed

theorem memset_fill: "memset m d c n = fill m d (ucast c) (unat n)"
proof -
  have "unat n < 2 ^ 32" using unsigned_less [of n, where ?'a = nat] by simp
  then show ?thesis by (simp add: memset_def memset_loop_fill fill_def)
qed

lemma unat_minus_one_step: "n < 2 ^ 64 - 1 \<Longrightarrow> unat (x - (d + 1)) < n \<longleftrightarrow> unat (x - d) < Suc n \<and> x \<noteq> d"
  for x d :: uint64
proof -
  assume n: "n < 2 ^ 64 - 1"
  show ?thesis
  proof (cases "x = d")
    case True
    have "unat (d - (d + 1)) = 2 ^ 64 - 1" by (simp add: unsigned_minus_1_eq_mask mask_eq_exp_minus_1)
    with True n show ?thesis by simp
  next
    case False
    then have "x - d \<noteq> 0" by simp
    then have "unat (x - d - 1) = unat (x - d) - 1" by (rule unat_minus_one)
    moreover have "0 < unat (x - d)" using False by (simp add: unat_gt_0)
    ultimately show ?thesis using False by (auto simp: diff_diff_eq)
  qed
qed

lemma move_up_copied:
  "\<lbrakk> d = s \<or> n \<le> unat (d - s); n < 2 ^ 64 - 1 \<rbrakk> \<Longrightarrow> move_up m d s n = copied m d s n"
proof (induction n arbitrary: m d s)
  case 0
  then show ?case by (simp add: copied_def)
next
  case (Suc n)
  have ih: "move_up (m(d := m s)) (d + 1) (s + 1) n = copied (m(d := m s)) (d + 1) (s + 1) n"
    by (rule Suc.IH) (use Suc.prems in auto)
  have "copied (m(d := m s)) (d + 1) (s + 1) n x = copied m d s (Suc n) x" for x
  proof (cases "unat (x - (d + 1)) < n")
    case True
    then have x: "unat (x - d) < Suc n" "x \<noteq> d"
      using unat_minus_one_step [of n x d] Suc.prems(2) by auto
    have "s + (x - d) \<noteq> d" if "d \<noteq> s"
    proof
      assume "s + (x - d) = d"
      then have "d - s = x - d" by (simp add: algebra_simps)
      with x Suc.prems(1) that show False by simp
    qed
    then have "(m(d := m s)) (s + (x - d)) = m (s + (x - d))"
      by (cases "d = s") auto
    moreover have "s + 1 + (x - (d + 1)) = s + (x - d)" by simp
    ultimately show ?thesis using True x by (simp add: copied_def)
  next
    case False
    then have "x = d \<or> \<not> unat (x - d) < Suc n"
      using unat_minus_one_step [of n x d] Suc.prems(2) by auto
    then show ?thesis using False by (auto simp: copied_def)
  qed
  then show ?case using ih by (simp add: fun_eq_iff)
qed

lemma move_down_copied:
  "\<lbrakk> d = s \<or> n \<le> unat (s - d); n < 2 ^ 64 \<rbrakk> \<Longrightarrow>
   move_down m d s n = copied m (d - of_nat n) (s - of_nat n) n"
proof (induction n arbitrary: m d s)
  case 0
  then show ?case by (simp add: copied_def)
next
  case (Suc n)
  define D where "D = d - of_nat (Suc n)"
  define S where "S = s - of_nat (Suc n)"
  let ?m = "m(d - 1 := m (s - 1))"
  have ih: "move_down ?m (d - 1) (s - 1) n = copied ?m (d - 1 - of_nat n) (s - 1 - of_nat n) n"
    by (rule Suc.IH) (use Suc.prems in auto)
  have DS: "d - 1 - of_nat n = D" "s - 1 - of_nat n = S" by (simp_all add: D_def S_def algebra_simps)
  have n: "unat (of_nat n :: uint64) = n" using Suc.prems(2) by (intro unat_of_nat64) simp
  have dn: "d - 1 = D + of_nat n" and sn: "s - 1 = S + of_nat n" and sd: "s - d = S - D"
    by (simp_all add: D_def S_def)
  have off: "x = D + of_nat n \<longleftrightarrow> unat (x - D) = n" for x
    using Suc.prems(2) by (intro offset_eq_iff) simp
  have "copied ?m D S n x = copied m D S (Suc n) x" for x
  proof -
    consider "unat (x - D) < n" | "unat (x - D) = n" | "Suc n \<le> unat (x - D)" by linarith
    then show ?thesis
    proof cases
      case 1
      have "S + (x - D) \<noteq> d - 1" if "d \<noteq> s"
      proof
        assume "S + (x - D) = d - 1"
        then have "(S - D) + (x - D) = of_nat n" unfolding dn by (simp add: algebra_simps)
        then have "s - d = of_nat n - (x - D)" unfolding sd by (simp only: eq_diff_eq)
        moreover have "x - D \<le> of_nat n" using 1 n by (simp add: word_le_nat_alt)
        ultimately have "unat (s - d) = n - unat (x - D)" using n by (simp only: unat_sub)
        with 1 Suc.prems(1) that show False by simp
      qed
      then have "?m (S + (x - D)) = m (S + (x - D))" by (cases "d = s") auto
      then show ?thesis using 1 unfolding copied_def by simp
    next
      case 2
      then have x: "x = D + of_nat n" by (simp add: off)
      moreover have "x = d - 1" using x dn by simp
      moreover have "S + (x - D) = s - 1" unfolding x sn by simp
      ultimately show ?thesis using 2 unfolding copied_def by simp
    next
      case 3
      then have "x \<noteq> d - 1" unfolding dn off by simp
      then show ?thesis using 3 unfolding copied_def by simp
    qed
  qed
  then show ?case using ih unfolding DS D_def [symmetric] S_def [symmetric]
    by (simp add: fun_eq_iff del: of_nat_Suc)
qed

text \<open>
  \<^verbatim>\<open>memmove\<close> copies exactly the source bytes, whether or not the two ranges overlap, as
  long as neither range runs past the end of the address space.
\<close>

lemma unat_ucast_32_64: "unat (ucast (n :: uint32) :: uint64) = unat n"
proof -
  have "unat n < 2 ^ 32" using unsigned_less [of n, where ?'a = nat] by simp
  then show ?thesis by (simp add: unsigned_ucast_eq take_bit_nat_eq_self)
qed

lemma memmove_copied:
  assumes s: "unat src + unat n \<le> 2 ^ 64" and d: "unat dst + unat n \<le> 2 ^ 64"
  shows "memmove m dst src n = copied m dst src (unat n)"
proof (cases "n = 0")
  case True
  then show ?thesis by (simp add: memmove_def copied_def)
next
  case False
  then have n0: "0 < unat n" by (simp add: unat_gt_0)
  have n32: "unat n < 2 ^ 32" using unsigned_less [of n, where ?'a = nat] by simp
  have un: "unat (ucast n :: uint64) = unat n" by (rule unat_ucast_32_64)
  have on: "(of_nat (unat n) :: uint64) = ucast n" by (metis un of_nat_unat)
  have sum: "unat (src + ucast n) = unat src + unat n \<or> unat src + unat n = 2 ^ 64"
    using s by (auto simp: unat_word_ariths un le_less)
  show ?thesis
  proof (cases "src < dst \<and> src + ucast n > dst")
    case True
    then have lt: "unat src < unat dst" by (simp add: word_less_nat_alt)
    have "unat (src - dst) = 2 ^ 64 - (unat dst - unat src)"
      using True lt by (simp add: unat_sub_if' word_le_nat_alt)
    then have "unat n \<le> unat (src - dst)" using d lt by linarith
    then have "move_down m (dst + ucast n) (src + ucast n) (unat n) = copied m dst src (unat n)"
      using move_down_copied [of "dst + ucast n" "src + ucast n" "unat n" m] n32 on by simp
    then show ?thesis using True False by (simp add: memmove_def)
  next
    case no: False
    have "dst = src \<or> unat n \<le> unat (dst - src)"
    proof (cases "dst \<le> src")
      case True
      then show ?thesis using s
        by (cases "dst = src") (auto simp: unat_sub_if' word_le_nat_alt word_unat_eq_iff)
    next
      case False
      then have sd: "src < dst" by simp
      with no have "src + ucast n \<le> dst" by simp
      then show ?thesis using sum sd s d n0
        by (auto simp: unat_sub_if' word_le_nat_alt word_less_nat_alt)
    qed
    then have "move_up m dst src (unat n) = copied m dst src (unat n)"
      using n32 by (intro move_up_copied) simp_all
    then show ?thesis using no False by (auto simp: memmove_def)
  qed
qed

lemma umemmove_copied:
  assumes "0 \<le> n" and s: "unat src + nat n \<le> 2 ^ 64" and d: "unat dst + nat n \<le> 2 ^ 64"
    and n: "n < 2 ^ 31"
  shows "umemmove m dst src n = copied m dst src (nat n)"
proof -
  have on: "(of_nat (nat n) :: uint64) = of_int n" using assms(1) by simp
  have n31: "nat n < 2 ^ 31" using n assms(1) by (simp add: nat_less_iff)
  show ?thesis
  proof (cases "dst < src")
    case True
    then have "nat n \<le> unat (dst - src)"
      using s by (auto simp: unat_sub_if' word_less_nat_alt)
    then have "move_up m dst src (nat n) = copied m dst src (nat n)"
      using n31 by (intro move_up_copied) simp_all
    then show ?thesis using True by (simp add: umemmove_def)
  next
    case False
    then have "dst = src \<or> nat n \<le> unat (src - dst)"
      using d by (auto simp: unat_sub_if' word_less_nat_alt word_unat_eq_iff)
    then have "move_down m (dst + of_int n) (src + of_int n) (nat n) = copied m dst src (nat n)"
      using move_down_copied [of "dst + of_int n" "src + of_int n" "nat n" m] n31 on by simp
    then show ?thesis using False by (simp add: umemmove_def)
  qed
qed

subsection \<open>Loads and stores\<close>

named_theorems mem_frame \<open>what a store leaves unchanged\<close>

lemma digits_sum: "(\<Sum>i<n. x div b ^ i mod b * b ^ i) = x mod b ^ n" for x b :: nat
proof (induction n)
  case 0
  then show ?case by simp
next
  case (Suc n)
  have "x mod (b ^ n * b) = b ^ n * (x div b ^ n mod b) + x mod b ^ n" by (rule mod_mult2_eq)
  then show ?case using Suc by (simp add: mult.commute)
qed

lemma ld64_cong: "(\<And>i. i < 8 \<Longrightarrow> m (a + of_nat i) = m' (a + of_nat i)) \<Longrightarrow> ld64 m a = ld64 m' a"
  by (simp add: ld64_def)

lemma ld64_st64_same [simp]: "ld64 (st64 m a v) a = v"
proof -
  have "unat (st64 m a v (a + of_nat i)) = unat v div 256 ^ i mod 256" if "i < 8" for i
    using that by (simp add: st64_def unat_of_nat64 unat_of_nat)
  then have "ld64 (st64 m a v) a = of_nat (\<Sum>i<8. unat v div 256 ^ i mod 256 * 256 ^ i)"
    by (simp add: ld64_def)
  also have "\<dots> = of_nat (unat v mod 256 ^ 8)" by (simp only: digits_sum)
  also have "unat v mod 256 ^ 8 = unat v" by simp
  finally show ?thesis by simp
qed

lemma st64_outside: "8 \<le> unat (x - a) \<Longrightarrow> st64 m a v x = m x"
  by (simp add: st64_def)

lemma slot_offset_div:
  fixes a :: uint64
  assumes "unat a mod 8 = 0" and "i < 8"
  shows "unat (a + of_nat i) div 8 = unat a div 8"
proof -
  have "unat (a + of_nat i - a) < 8" using assms(2) by (simp add: unat_of_nat64)
  then show ?thesis using in_slot_iff [OF assms(1)] by blast
qed

lemma ld64_st64_other [mem_frame]:
  assumes "unat a mod 8 = 0" and "unat b mod 8 = 0" and "a \<noteq> b"
  shows "ld64 (st64 m a v) b = ld64 m b"
proof (rule ld64_cong)
  fix i :: nat
  assume "i < 8"
  then have "unat (b + of_nat i) div 8 = unat b div 8" by (rule slot_offset_div [OF assms(2)])
  moreover have "unat b div 8 \<noteq> unat a div 8"
    using assms by (metis div_mult_mod_eq word_unat_eq_iff)
  ultimately have "\<not> unat (b + of_nat i - a) < 8" using in_slot_iff [OF assms(1)] by simp
  then show "st64 m a v (b + of_nat i) = m (b + of_nat i)" by (simp add: st64_def)
qed

lemma ld64_fill_in:
  assumes "pgaligned p" and "j < 512"
  shows "ld64 (fill m p 0 4096) (p + of_nat (8 * j)) = 0"
proof -
  have "fill m p 0 4096 (p + of_nat (8 * j) + of_nat i) = 0" if "i < 8" for i
  proof -
    have "unat (p + of_nat (8 * j) + of_nat i - p) = 8 * j + i"
      using assms(2) that unat_of_nat64 [of "8 * j + i"] by simp
    then show ?thesis using assms(2) that by (simp add: fill_def)
  qed
  then show ?thesis by (simp add: ld64_def)
qed

lemma fill_other_page:
  assumes "pgaligned p" and "unat x div 4096 \<noteq> unat p div 4096"
  shows "fill m p c 4096 x = m x"
  using in_page_iff [OF assms(1), of x] assms(2) by (simp add: fill_def)

lemma slot_page_div: "unat a mod 8 = 0 \<Longrightarrow> i < 8 \<Longrightarrow> unat (a + of_nat i) div 4096 = unat a div 4096"
  for a :: uint64
proof -
  assume a: "unat a mod 8 = 0" "i < 8"
  have "unat (a + of_nat i) div 8 div 512 = unat a div 8 div 512"
    using slot_offset_div [OF a] by simp
  then show ?thesis by (simp add: div_mult2_eq [symmetric])
qed

lemma ld64_fill_other [mem_frame]:
  assumes "pgaligned p" and "unat a mod 8 = 0" and "unat a div 4096 \<noteq> unat p div 4096"
  shows "ld64 (fill m p c 4096) a = ld64 m a"
  by (rule ld64_cong) (use assms slot_page_div [OF assms(2)] fill_other_page in auto)

lemma st64_other_page [mem_frame]:
  assumes "unat a mod 8 = 0" and "unat x div 4096 \<noteq> unat a div 4096"
  shows "st64 m a v x = m x"
proof -
  have "unat x div 8 \<noteq> unat a div 8"
    using assms(2) div_mult2_eq [of "unat x" 8 512] div_mult2_eq [of "unat a" 8 512] by auto
  then show ?thesis using in_slot_iff [OF assms(1), of x] by (simp add: st64_def)
qed

lemma length_get_bytes [simp]: "length (get_bytes m a n) = n"
  by (simp add: get_bytes_def)

lemma get_put_bytes:
  assumes "length bs \<le> 2 ^ 64"
  shows "get_bytes (put_bytes m a bs) a (length bs) = bs"
proof (rule nth_equalityI)
  fix i
  assume "i < length (get_bytes (put_bytes m a bs) a (length bs))"
  then have i: "i < length bs" by simp
  then have "unat (of_nat i :: uint64) = i" using assms by (intro unat_of_nat64) simp
  then show "get_bytes (put_bytes m a bs) a (length bs) ! i = bs ! i"
    using i by (simp add: get_bytes_def put_bytes_def)
qed simp

lemma put_bytes_other_page [mem_frame]:
  assumes "pgaligned p" and "off + length bs \<le> 4096" and "unat x div 4096 \<noteq> unat p div 4096"
  shows "put_bytes m (p + of_nat off) bs x = m x"
proof -
  have "\<not> unat (x - (p + of_nat off)) < length bs"
  proof
    assume lt: "unat (x - (p + of_nat off)) < length bs"
    define k where "k = unat (x - (p + of_nat off))"
    have "x - (p + of_nat off) = of_nat k" by (simp add: k_def)
    then have "x = p + of_nat (off + k)" by (simp add: algebra_simps)
    moreover have "off + k < 4096" using lt assms(2) by (simp add: k_def)
    ultimately show False using page_offset_div [OF assms(1)] assms(3) by metis
  qed
  then show ?thesis by (simp add: put_bytes_def)
qed

text \<open>\<open>agree S m m'\<close>: the two memories differ at most in the pages of \<open>S\<close>.\<close>

definition agree :: "addr set \<Rightarrow> memory \<Rightarrow> memory \<Rightarrow> bool" where
  "agree S m m' \<longleftrightarrow> (\<forall>x. PGROUNDDOWN x \<notin> S \<longrightarrow> m' x = m x)"

lemma pgalignedE: "pgaligned p \<Longrightarrow> (\<And>b. unat p = 4096 * b \<Longrightarrow> thesis) \<Longrightarrow> thesis"
  by (auto simp: pgaligned_unat mod_eq_0_iff_dvd elim: dvdE)

lemma PGROUNDDOWN_eq_iff: "pgaligned p \<Longrightarrow> PGROUNDDOWN x = p \<longleftrightarrow> unat x div 4096 = unat p div 4096"
  by (erule pgalignedE) (auto simp: word_unat_eq_iff unat_PGROUNDDOWN)

lemma PGROUNDDOWN_slot: "unat a mod 8 = 0 \<Longrightarrow> i < 8 \<Longrightarrow> PGROUNDDOWN (a + of_nat i) = PGROUNDDOWN a"
  using slot_page_div [of a i] by (simp add: word_unat_eq_iff unat_PGROUNDDOWN)

lemma agree_refl [simp]: "agree S m m"
  by (simp add: agree_def)

lemma agree_trans: "agree S m m' \<Longrightarrow> agree T m' m'' \<Longrightarrow> agree (S \<union> T) m m''"
  by (simp add: agree_def)

lemma agree_mono: "agree S m m' \<Longrightarrow> S \<subseteq> T \<Longrightarrow> agree T m m'"
  by (auto simp: agree_def)

lemma agree_ld64: "agree S m m' \<Longrightarrow> unat a mod 8 = 0 \<Longrightarrow> PGROUNDDOWN a \<notin> S \<Longrightarrow> ld64 m' a = ld64 m a"
  by (rule ld64_cong) (auto simp: agree_def PGROUNDDOWN_slot)

lemma agree_fill: "pgaligned p \<Longrightarrow> agree {p} m (fill m p c 4096)"
  by (simp add: agree_def fill_other_page PGROUNDDOWN_eq_iff)

lemma agree_st64: "unat a mod 8 = 0 \<Longrightarrow> agree {PGROUNDDOWN a} m (st64 m a v)"
  by (simp add: agree_def st64_other_page PGROUNDDOWN_eq_iff unat_PGROUNDDOWN)

lemma agree_put_bytes: "pgaligned p \<Longrightarrow> off + length bs \<le> 4096 \<Longrightarrow> agree {p} m (put_bytes m (p + of_nat off) bs)"
  by (simp add: agree_def put_bytes_other_page PGROUNDDOWN_eq_iff)

lemma agree_copied: "pgaligned p \<Longrightarrow> agree {p} m (copied m p s 4096)"
  by (auto simp: agree_def copied_def PGROUNDDOWN_eq_iff in_page_iff)

subsection \<open>Strings\<close>

text \<open>The characters before the terminator.\<close>

definition cstr :: "uint8 list \<Rightarrow> uint8 list" where
  "cstr t = takeWhile (\<lambda>c. c \<noteq> 0) t"

lemma cstr_simps [simp]: "cstr [] = []" "cstr (c # t) = (if c = 0 then [] else c # cstr t)"
  by (simp_all add: cstr_def)

text \<open>An array whose first \<open>n\<close> characters can be read: it is long enough or terminated.\<close>

definition readable_upto :: "uint8 list \<Rightarrow> nat \<Rightarrow> bool" where
  "readable_upto t n \<longleftrightarrow> n \<le> length t \<or> 0 \<in> set t"

lemma readable_upto_Suc: "readable_upto (c # t) (Suc n) \<Longrightarrow> c \<noteq> 0 \<Longrightarrow> readable_upto t n"
  by (auto simp: readable_upto_def)

lemma readable_upto_Nil: "\<not> readable_upto [] (Suc n)"
  by (simp add: readable_upto_def)

lemma zero_rest_eq: "n \<le> length s \<Longrightarrow> zero_rest s n = Some (replicate n 0 @ drop n s)"
  by (induction s n rule: zero_rest.induct) auto

lemma strncpy_eq:
  "\<lbrakk> n \<le> length s; readable_upto t n \<rbrakk> \<Longrightarrow>
   strncpy s t n = Some (take n (cstr t) @ replicate (n - length (cstr t)) 0 @ drop n s)"
proof (induction s t n rule: strncpy.induct)
  case (2 x s c t n)
  then show ?case by (cases "c = 0") (auto simp: zero_rest_eq dest: readable_upto_Suc)
qed (auto simp: readable_upto_Nil)

lemma safestr_eq:
  "\<lbrakk> Suc k \<le> length s; readable_upto t k \<rbrakk> \<Longrightarrow>
   \<exists>u. safestr s t k = Some u \<and> length u = length s \<and> drop (Suc k) u = drop (Suc k) s \<and>
       cstr u = take k (cstr t) \<and> u ! length (cstr u) = 0"
proof (induction s t k rule: safestr.induct)
  case (3 x s c t k)
  show ?case
  proof (cases "c = 0")
    case True
    from 3 obtain y s' where "s = y # s'" by (cases s) auto
    with True show ?thesis by simp
  next
    case False
    with 3 obtain u where "safestr s t k = Some u" "length u = length s"
      "drop (Suc k) u = drop (Suc k) s" "cstr u = take k (cstr t)" "u ! length (cstr u) = 0"
      by (metis Suc_le_mono length_Cons readable_upto_Suc)
    with False show ?thesis by simp
  qed
qed (auto simp: readable_upto_Nil)

lemma strlen_cstr: "0 \<in> set s \<Longrightarrow> strlen s = Some (length (cstr s))"
  by (induction s) auto

lemma strlen_None: "strlen s = None \<longleftrightarrow> 0 \<notin> set s"
  by (induction s) auto

lemma uint8_diff_zero [simp]: "uint a - uint b = 0 \<longleftrightarrow> a = b" for a b :: uint8
  by (metis diff_eq_diff_eq diff_self word_uint_eq_iff)

lemma strncmp_zero_iff:
  "\<lbrakk> readable_upto p n; readable_upto q n \<rbrakk> \<Longrightarrow>
   strncmp p q n = Some 0 \<longleftrightarrow> take n (cstr p) = take n (cstr q)"
proof (induction p q n rule: strncmp.induct)
  case (2 a p b q n)
  show ?case
  proof (cases "a \<noteq> 0 \<and> a = b")
    case True
    with 2 show ?thesis by (auto dest: readable_upto_Suc)
  next
    case False
    then show ?thesis by (auto simp: word_uint_eq_iff)
  qed
qed (auto simp: readable_upto_Nil)

lemma memcmp_zero_iff:
  "\<lbrakk> n \<le> length s1; n \<le> length s2 \<rbrakk> \<Longrightarrow> memcmp s1 s2 n = Some 0 \<longleftrightarrow> take n s1 = take n s2"
  by (induction s1 s2 n rule: memcmp.induct) (auto simp: word_uint_eq_iff)

subsection \<open>Properties\<close>

text \<open>Property C8: \<^verbatim>\<open>memmove\<close> of the kernel copies exactly the source bytes, whether or not the
  ranges overlap and in whichever order they lie, as long as neither range runs past the end of
  the address space.\<close>

theorem memmove_overlap:
  assumes "unat src + unat n \<le> 2 ^ 64" and "unat dst + unat n \<le> 2 ^ 64"
  shows "memmove m dst src n = copied m dst src (unat n)"
  using assms by (rule memmove_copied)

theorem memmove_overlap_witness:
  "memmove (\<lambda>x. ucast x) 0x80001004 0x80001000 16 = copied (\<lambda>x. ucast x) 0x80001004 0x80001000 (unat (16 :: uint32))"
  by (rule memmove_overlap) simp_all

text \<open>Property C9: \<^verbatim>\<open>safestrcpy\<close> into an array of at least \<open>n > 0\<close> characters always leaves a
  terminated string, the longest prefix of the source that fits, and writes nothing beyond the
  first \<open>n\<close> characters.\<close>

theorem safestrcpy_terminates:
  assumes "0 < n" and "nat n \<le> length s" and "readable_upto t (nat n - 1)"
  shows "\<exists>u. safestrcpy s t n = Some u \<and> length u = length s \<and> drop (nat n) u = drop (nat n) s \<and>
             cstr u = take (nat n - 1) (cstr t) \<and> strlen u = Some (length (cstr u))"
proof -
  have n: "Suc (nat n - 1) = nat n" using assms(1) by simp
  obtain u where u: "safestr s t (nat n - 1) = Some u" "length u = length s" "drop (nat n) u = drop (nat n) s"
      "cstr u = take (nat n - 1) (cstr t)" "u ! length (cstr u) = 0"
    using safestr_eq [of "nat n - 1" s t] assms n by auto
  have "length (cstr u) < length u"
    using u(2,4) assms n by (simp add: min.strict_coboundedI2)
  then have "0 \<in> set u" using u(5) by (metis nth_mem)
  then show ?thesis using u assms(1) by (simp add: safestrcpy_def strlen_cstr)
qed

theorem safestrcpy_terminates_witness:
  "\<exists>u. safestrcpy (replicate 4 7) [65, 66, 67, 68, 69, 0] 4 = Some u \<and> length u = length (replicate 4 (7 :: uint8)) \<and>
       drop (nat 4) u = drop (nat 4) (replicate 4 7) \<and>
       cstr u = take (nat 4 - 1) (cstr [65, 66, 67, 68, 69, 0]) \<and> strlen u = Some (length (cstr u))"
  by (rule safestrcpy_terminates) (simp_all add: readable_upto_def)

end
