(* ===== verification/Enc.thy ===== *)
theory Enc
  imports Kstring
begin

section \<open>Integers in byte arrays\<close>

text \<open>
  The on-disk structures of \<^verbatim>\<open>fs.h\<close> and \<^verbatim>\<open>log.c\<close> are C structs laid over the bytes of a
  block. \<open>rd n d off\<close> reads the little-endian \<open>n\<close>-byte integer at offset \<open>off\<close> of the array
  \<open>d\<close> and \<open>wr n d off v\<close> stores one; the 16- and 32-bit accesses are instances.
\<close>

definition rd :: "nat \<Rightarrow> uint8 list \<Rightarrow> nat \<Rightarrow> nat" where
  "rd n d off = (\<Sum>i<n. unat (d ! (off + i)) * 256 ^ i)"

definition wr :: "nat \<Rightarrow> uint8 list \<Rightarrow> nat \<Rightarrow> nat \<Rightarrow> uint8 list" where
  "wr n d off v = take off d @ map (\<lambda>i. of_nat (v div 256 ^ i)) [0..<n] @ drop (off + n) d"

definition rd32 :: "uint8 list \<Rightarrow> nat \<Rightarrow> uint32" where "rd32 d off = of_nat (rd 4 d off)"
definition wr32 :: "uint8 list \<Rightarrow> nat \<Rightarrow> uint32 \<Rightarrow> uint8 list" where "wr32 d off v = wr 4 d off (unat v)"
definition rd16 :: "uint8 list \<Rightarrow> nat \<Rightarrow> uint16" where "rd16 d off = of_nat (rd 2 d off)"
definition wr16 :: "uint8 list \<Rightarrow> nat \<Rightarrow> uint16 \<Rightarrow> uint8 list" where "wr16 d off v = wr 2 d off (unat v)"

lemma length_wr [simp]: "off + n \<le> length d \<Longrightarrow> length (wr n d off v) = length d"
  by (simp add: wr_def)

lemma nth_wr:
  "off + n \<le> length d \<Longrightarrow> k < length d \<Longrightarrow>
   wr n d off v ! k = (if off \<le> k \<and> k < off + n then of_nat (v div 256 ^ (k - off)) else d ! k)"
  by (auto simp: wr_def nth_append min_absorb2)

lemma rd_cong: "(\<And>i. i < n \<Longrightarrow> d ! (off + i) = d' ! (off + i)) \<Longrightarrow> rd n d off = rd n d' off"
  by (simp add: rd_def)

lemma rd_wr_same: "off + n \<le> length d \<Longrightarrow> rd n (wr n d off v) off = v mod 256 ^ n"
proof -
  assume l: "off + n \<le> length d"
  have "unat (wr n d off v ! (off + i)) = v div 256 ^ i mod 256" if "i < n" for i
    using l that by (simp add: nth_wr unat_of_nat)
  then have "rd n (wr n d off v) off = (\<Sum>i<n. v div 256 ^ i mod 256 * 256 ^ i)" by (simp add: rd_def)
  then show ?thesis by (simp only: digits_sum)
qed

lemma rd_wr_other:
  "off + n \<le> length d \<Longrightarrow> off' + n' \<le> length d \<Longrightarrow> off' + n' \<le> off \<or> off + n \<le> off' \<Longrightarrow>
   rd n' (wr n d off v) off' = rd n' d off'"
  by (rule rd_cong) (auto simp: nth_wr)

lemma length_wr32 [simp]: "off + 4 \<le> length d \<Longrightarrow> length (wr32 d off v) = length d"
  and length_wr16 [simp]: "off + 2 \<le> length d \<Longrightarrow> length (wr16 d off w) = length d"
  by (simp_all add: wr32_def wr16_def)

lemma rd32_wr32_same [simp]: "off + 4 \<le> length d \<Longrightarrow> rd32 (wr32 d off v) off = v"
proof -
  assume "off + 4 \<le> length d"
  moreover have "unat v < 256 ^ 4" using unsigned_less [of v, where ?'a = nat] by simp
  ultimately show ?thesis by (simp add: rd32_def wr32_def rd_wr_same)
qed

lemma rd16_wr16_same [simp]: "off + 2 \<le> length d \<Longrightarrow> rd16 (wr16 d off v) off = v"
proof -
  assume "off + 2 \<le> length d"
  moreover have "unat v < 256 ^ 2" using unsigned_less [of v, where ?'a = nat] by simp
  ultimately show ?thesis by (simp add: rd16_def wr16_def rd_wr_same)
qed

lemma rd_wr_disjoint [simp]:
  "off + 4 \<le> length d \<Longrightarrow> o' + 4 \<le> length d \<Longrightarrow> o' + 4 \<le> off \<or> off + 4 \<le> o' \<Longrightarrow> rd32 (wr32 d off v) o' = rd32 d o'"
  "off + 2 \<le> length d \<Longrightarrow> o' + 4 \<le> length d \<Longrightarrow> o' + 4 \<le> off \<or> off + 2 \<le> o' \<Longrightarrow> rd32 (wr16 d off w) o' = rd32 d o'"
  "off + 4 \<le> length d \<Longrightarrow> o' + 2 \<le> length d \<Longrightarrow> o' + 2 \<le> off \<or> off + 4 \<le> o' \<Longrightarrow> rd16 (wr32 d off v) o' = rd16 d o'"
  "off + 2 \<le> length d \<Longrightarrow> o' + 2 \<le> length d \<Longrightarrow> o' + 2 \<le> off \<or> off + 2 \<le> o' \<Longrightarrow> rd16 (wr16 d off w) o' = rd16 d o'"
  by (simp_all add: rd32_def wr32_def rd16_def wr16_def rd_wr_other)

lemma sint_of_nat32: "n < 2 ^ 31 \<Longrightarrow> sint (of_nat n :: uint32) = int n"
  using signed_take_bit_int_eq_self [of 31 "int n"] by (simp add: signed_of_nat)

end
