(* ===== verification/Logsafe.thy ===== *)
theory Logsafe
  imports Log
begin

section \<open>Crash atomicity of the log\<close>

text \<open>
  What \<^verbatim>\<open>write_log\<close>, \<^verbatim>\<open>write_head\<close>, \<^verbatim>\<open>install_trans\<close> and \<^verbatim>\<open>recover_from_log\<close> do to the
  disk, to the current contents of the blocks and to the reference counts of the buffers, and
  the theorem that a crash at any point of a commit leaves a disk that recovery takes to the
  state before or to the state after the transaction.
\<close>

definition apply_writes :: "bytes \<Rightarrow> (uint32 \<times> bytes) list \<Rightarrow> bytes" where
  "apply_writes im ws = foldl (\<lambda>im w. dput im (fst w) (snd w)) im ws"

lemma apply_writes_simps [simp]:
  "apply_writes im [] = im" "apply_writes im (w # ws) = apply_writes (dput im (fst w) (snd w)) ws"
  "apply_writes im (ws @ vs) = apply_writes (apply_writes im ws) vs"
  by (simp_all add: apply_writes_def)

definition writes_ok :: "bytes \<Rightarrow> (uint32 \<times> bytes) list \<Rightarrow> bool" where
  "writes_ok im ws \<longleftrightarrow> (\<forall>w \<in> set ws. in_disk im (fst w) \<and> length (snd w) = 1024)"

lemma apply_writes_in_disk: "writes_ok im ws \<Longrightarrow> in_disk (apply_writes im ws) b = in_disk im b"
proof (induction ws arbitrary: im)
  case (Cons w ws)
  then have "writes_ok (dput im (fst w) (snd w)) ws" by (simp add: writes_ok_def in_disk_dput)
  then show ?case using Cons by (simp add: in_disk_dput writes_ok_def)
qed simp

text \<open>The last write to a block determines it.\<close>

lemma dblock_apply_writes:
  "writes_ok im ws \<Longrightarrow> in_disk im b \<Longrightarrow>
   dblock (apply_writes im ws) b = (case map_of (rev ws) b of None \<Rightarrow> dblock im b | Some d \<Rightarrow> d)"
proof (induction ws arbitrary: im)
  case (Cons w ws)
  then have w: "in_disk im (fst w)" "length (snd w) = 1024" by (auto simp: writes_ok_def)
  then have "writes_ok (dput im (fst w) (snd w)) ws" "in_disk (dput im (fst w) (snd w)) b"
    using Cons.prems by (auto simp: writes_ok_def in_disk_dput)
  then show ?case using Cons.IH [of "dput im (fst w) (snd w)"] w Cons.prems
    by (cases w) (auto simp: map_add_def dblock_dput split: option.split)
qed simp

subsection \<open>Free buffers\<close>

definition one_free :: "'a bcache_scheme \<Rightarrow> bool" where
  "one_free s \<longleftrightarrow> (\<exists>j < NBUF. refcnt (bufs s ! j) = 0)"

definition two_free :: "'a bcache_scheme \<Rightarrow> bool" where
  "two_free s \<longleftrightarrow> (\<exists>j < NBUF. \<exists>k < NBUF. j \<noteq> k \<and> refcnt (bufs s ! j) = 0 \<and> refcnt (bufs s ! k) = 0)"

lemma two_one_free: "two_free s \<Longrightarrow> one_free s"
  by (auto simp: two_free_def one_free_def)

lemma clean_cur:
  assumes inv: "binv pid H s" and rc: "rc s b = 0" and d: "in_disk (img s) b"
  shows "cur s b = dblock (img s) b"
proof (cases "cidx s b")
  case (Some i)
  then have "i < NBUF" "holds_block s b i" using cidx_Some [OF inv] by auto
  then show ?thesis using Some rc binvD(5) [OF inv, of i]
    by (auto simp: cur_def rc_def buf_ok_def holds_block_def)
qed (simp add: cur_def)

lemma all_free:
  assumes inv: "binv pid {} s" and rc: "\<And>b. rc s b = 0"
  shows "two_free s"
proof -
  have "refcnt (bufs s ! j) = 0" if j: "j < NBUF" for j
  proof (cases "bdev (bufs s ! j) = 0")
    case True
    then show ?thesis using binvD(5) [OF inv j] by (simp add: buf_ok_def)
  next
    case False
    then have "holds_block s (blockno (bufs s ! j)) j" using binvD(5) [OF inv j] by (simp add: buf_ok_def holds_block_def)
    then show ?thesis using rc_holds [OF inv j] rc by metis
  qed
  then have "refcnt (bufs s ! 0) = 0" "refcnt (bufs s ! Suc 0) = 0" by simp_all
  then show ?thesis unfolding two_free_def by (intro exI [of _ 0] conjI exI [of _ "Suc 0"]) simp_all
qed

lemma log_put_buf [simp]:
  "ldev (put_buf i B s) = ldev s" "lstart (put_buf i B s) = lstart s" "lh_block (put_buf i B s) = lh_block s"
  "lh_n (put_buf i B s) = lh_n s" "outstanding (put_buf i B s) = outstanding s"
  by (simp_all add: put_buf_def)

lemma log_more:
  "bcache.more s' = bcache.more s \<Longrightarrow> ldev s' = ldev s \<and> lstart s' = lstart s \<and> lh_block s' = lh_block s
     \<and> lh_n s' = lh_n s \<and> outstanding s' = outstanding s \<and> committing s' = committing s"
  for s s' :: "'a logst_scheme"
  by (cases s; cases s') simp

subsection \<open>Two buffers at once\<close>

definition enough :: "'a bcache_scheme \<Rightarrow> uint32 \<Rightarrow> bool" where
  "enough s b \<longleftrightarrow> two_free s \<or> one_free s \<and> 0 < rc s b"

lemma bread2:
  assumes inv: "binv pid {} s" and d: "in_disk (img s) a" "in_disk (img s) b" "a \<noteq> b" and en: "enough s b"
  obtains i j s1 s2 where "i \<noteq> j" "bread pid ROOTDEV a s = Ok i s1" "bread pid ROOTDEV b s1 = Ok j s2"
    "binv pid {i, j} s2" "blockno (bufs s2 ! i) = a" "blockno (bufs s2 ! j) = b"
    "bdata (bufs s2 ! i) = cur s a" "bdata (bufs s2 ! j) = cur s b"
    "\<And>x. cur s2 x = cur s x" "\<And>x. rc s2 x = (if x = a \<or> x = b then rc s x + 1 else rc s x)"
    "img s1 = img s" "img s2 = img s" "dwrites s2 = dwrites s" "bcache.more s1 = bcache.more s" "bcache.more s2 = bcache.more s"
proof -
  have one: "one_free s" using en two_one_free by (auto simp: enough_def)
  obtain i where i: "i < NBUF" "bread pid ROOTDEV a s = Ok i (put_buf i (fresh_buf pid s a) s)"
      "cidx s a = Some i \<or> cidx s a = None \<and> refcnt (bufs s ! i) = 0"
    using bread_ok [OF inv d(1)] one unfolding one_free_def by (metis empty_iff)
  define s1 where "s1 = put_buf i (fresh_buf pid s a) s"
  note e1 = bread_effect [OF inv d(1) i(1) _ i(3), folded s1_def, simplified]
  have len: "length (bufs s) = NBUF" by (rule binvD(1) [OF inv])
  have hi: "blockno (bufs s1 ! i) = a" "bdev (bufs s1 ! i) = ROOTDEV" "bdata (bufs s1 ! i) = cur s a"
    using i(1) len by (simp_all add: s1_def fresh_buf_def)
  have room: "cidx s1 b \<noteq> None \<or> (\<exists>j < NBUF. refcnt (bufs s1 ! j) = 0)"
  proof (cases "two_free s")
    case True
    then obtain j where "j < NBUF" "j \<noteq> i" "refcnt (bufs s ! j) = 0" unfolding two_free_def by metis
    then show ?thesis using len i(1) by (auto simp: s1_def)
  next
    case False
    then have "0 < rc s1 b" using en e1(3) [of b] d(3) by (simp add: enough_def)
    then show ?thesis by (auto simp: rc_def split: option.splits)
  qed
  have nh: "\<not> holds_block s1 b x" if "x \<in> {i}" for x using that hi d(3) by (simp add: holds_block_def)
  have d1: "in_disk (img s1) b" using d(2) by (simp add: s1_def)
  obtain j where j: "j < NBUF" "j \<notin> {i}" "bread pid ROOTDEV b s1 = Ok j (put_buf j (fresh_buf pid s1 b) s1)"
      "cidx s1 b = Some j \<or> cidx s1 b = None \<and> refcnt (bufs s1 ! j) = 0"
    using bread_ok [OF e1(1) d1 nh room] by metis
  define s2 where "s2 = put_buf j (fresh_buf pid s1 b) s1"
  note e2 = bread_effect [OF e1(1) d1 j(1,2) j(4), folded s2_def]
  have len1: "length (bufs s1) = NBUF" using len by (simp add: s1_def)
  have hj: "blockno (bufs s2 ! j) = b" "bdata (bufs s2 ! j) = cur s b" "bufs s2 ! i = bufs s1 ! i"
    using j(1,2) len1 e1(2) by (simp_all add: s2_def fresh_buf_def)
  show ?thesis
  proof (rule that [of i j s1 s2])
    show "binv pid {i, j} s2" using e2(1) by (simp add: insert_commute)
    show "rc s2 x = (if x = a \<or> x = b then rc s x + 1 else rc s x)" for x
      using e1(3) [of x] e1(3) [of b] e2(3) [of x] d(3) by auto
  qed (use i j hi hj e1 e2 in \<open>auto simp: s1_def s2_def\<close>)
qed

lemma set_write:
  assumes inv: "binv pid H s" and p: "p \<in> H" and d: "length d = 1024" and b: "b = blockno (bufs s ! p)"
  obtains s' where "bwrite pid p (set_data p d s) = Ok () s'" "binv pid H s'" "img s' = dput (img s) b d"
    "dwrites s' = dwrites s @ [(b, d)]" "bcache.more s' = bcache.more s"
    "\<And>x. in_disk (img s) x \<Longrightarrow> cur s' x = (if x = b then d else cur s x)" "\<And>x. rc s' x = rc s x"
    "\<And>k. blockno (bufs s' ! k) = blockno (bufs s ! k)" "\<And>x. in_disk (img s') x = in_disk (img s) x"
    "\<And>x. in_disk (img s) x \<Longrightarrow> dblock (img s') x = (if x = b then d else dblock (img s) x)"
proof -
  let ?t = "set_data p d s"
  note u = set_data_ok [OF inv p d]
  have pl: "p < length (bufs s)" using held_buf(1) [OF inv p] binvD(1) [OF inv] by simp
  then have t: "blockno (bufs ?t ! p) = b" "bdata (bufs ?t ! p) = d" "img ?t = img s" "dwrites ?t = dwrites s"
      "bcache.more ?t = bcache.more s"
    using b by (simp_all add: set_data_def upd_buf_def)
  have bl: "blockno (bufs ?t ! k) = blockno (bufs s ! k)" for k
    using pl by (cases "k = p") (simp_all add: set_data_def)
  note w = bwrite_ok [OF u(1) p, unfolded t]
  define s' where "s' = ?t\<lparr>img := dput (img s) b d, dwrites := dwrites s @ [(b, d)]\<rparr>"
  have s': "s' = ?t\<lparr>img := dput (img ?t) (blockno (bufs ?t ! p)) (bdata (bufs ?t ! p)), dwrites := dwrites s @ [(b, d)]\<rparr>"
    by (simp only: s'_def t)
  note e = bwrite_effect [OF u(1) p s', unfolded t]
  show ?thesis
    by (rule that [of s']) (use w e u t b bl in \<open>auto simp: s'_def\<close>)
qed

subsection \<open>One step of writing the log and of installing\<close>

lemma write_log_step:
  assumes inv: "binv pid {} s" and dev: "ldev s = ROOTDEV"
    and a: "a = lstart s + of_nat tail + 1" and b: "b = lh_block s ! tail"
    and d: "in_disk (img s) a" "in_disk (img s) b" "a \<noteq> b" and en: "enough s b" and ra: "rc s a = 0"
  obtains s' where "write_log_loop pid tail (Suc k) s = write_log_loop pid (Suc tail) k s'" "binv pid {} s'"
    "img s' = dput (img s) a (cur s b)" "dwrites s' = dwrites s @ [(a, cur s b)]" "bcache.more s' = bcache.more s"
    "\<And>x. in_disk (img s) x \<Longrightarrow> cur s' x = (if x = a then cur s b else cur s x)" "\<And>x. rc s' x = rc s x" "one_free s'"
proof -
  obtain i j s1 s2 where r: "i \<noteq> j" "bread pid ROOTDEV a s = Ok i s1" "bread pid ROOTDEV b s1 = Ok j s2"
    "binv pid {i, j} s2" "blockno (bufs s2 ! i) = a" "blockno (bufs s2 ! j) = b"
    "bdata (bufs s2 ! i) = cur s a" "bdata (bufs s2 ! j) = cur s b"
    "\<And>x. cur s2 x = cur s x" "\<And>x. rc s2 x = (if x = a \<or> x = b then rc s x + 1 else rc s x)"
    "img s1 = img s" "img s2 = img s" "dwrites s2 = dwrites s" "bcache.more s1 = bcache.more s" "bcache.more s2 = bcache.more s"
    by (rule bread2 [OF inv d en]) blast
  have len: "length (cur s b) = 1024" by (rule length_cur [OF inv d(2)])
  obtain s3 where w: "bwrite pid i (set_data i (cur s b) s2) = Ok () s3" "binv pid {i, j} s3"
    "img s3 = dput (img s2) a (cur s b)" "dwrites s3 = dwrites s2 @ [(a, cur s b)]" "bcache.more s3 = bcache.more s2"
    "\<And>x. in_disk (img s2) x \<Longrightarrow> cur s3 x = (if x = a then cur s b else cur s2 x)" "\<And>x. rc s3 x = rc s2 x"
    "\<And>k. blockno (bufs s3 ! k) = blockno (bufs s2 ! k)" "\<And>x. in_disk (img s3) x = in_disk (img s2) x"
    "\<And>x. in_disk (img s2) x \<Longrightarrow> dblock (img s3) x = (if x = a then cur s b else dblock (img s2) x)"
    by (rule set_write [OF r(4) _ len r(5) [symmetric]]) (blast | simp)+
  have cb: "cur s3 b = dblock (img s3) b" if "rc s3 b = 1"
  proof -
    have "rc s b = 0" using that w(7) r(10) [of b] by simp
    then show ?thesis using clean_cur [OF inv] w(6) w(10) r(9,12) d by simp
  qed
  have bj: "blockno (bufs s3 ! j) = b" using w(8) r(6) by simp
  obtain s4 where q: "brelse pid j s3 = Ok () s4" "binv pid ({i, j} - {j}) s4" "\<And>x. cur s4 x = cur s3 x"
    "\<And>x. rc s4 x = (if x = b then rc s3 x - 1 else rc s3 x)" "img s4 = img s3" "dwrites s4 = dwrites s3"
    "bcache.more s4 = bcache.more s3" "\<And>k. k \<noteq> j \<Longrightarrow> bufs s4 ! k = bufs s3 ! k"
    by (rule brelse_ok [OF w(2), of j, unfolded bj]) (blast | simp add: cb)+
  have q2: "binv pid {i} s4" using q(2) r(1) by (simp add: insert_Diff_if)
  have bi: "blockno (bufs s4 ! i) = a" using q(8) [of i] w(8) r(1,5) by simp
  have ca: "cur s4 a = dblock (img s4) a" using q(3,5) w(6,10) r(12) d(1) by simp
  obtain s5 where t: "brelse pid i s4 = Ok () s5" "binv pid ({i} - {i}) s5" "\<And>x. cur s5 x = cur s4 x"
    "\<And>x. rc s5 x = (if x = a then rc s4 x - 1 else rc s4 x)" "img s5 = img s4" "dwrites s5 = dwrites s4"
    "bcache.more s5 = bcache.more s4" "refcnt (bufs s5 ! i) = rc s4 a - 1"
    by (rule brelse_ok [OF q2, of i, unfolded bi]) (blast | simp add: ca)+
  have t2: "binv pid {} s5" using t(2) by simp
  have loop: "write_log_loop pid tail (Suc k) s = write_log_loop pid (Suc tail) k s5"
    using r(2,3,8) w(1) q(1) t(1) dev log_more [OF r(14)] a b by simp
  have ra5: "rc s4 a = 1" using q(4) [of a] w(7) r(10) [of a] ra d(3) by simp
  then have "one_free s5" using t(8) held_buf(1) [OF q2, of i] unfolding one_free_def by force
  then show ?thesis
    by (intro that [OF loop t2]) (use t q w r d in simp_all)
qed

lemma install_step:
  assumes inv: "binv pid {} s" and dev: "ldev s = ROOTDEV"
    and a: "a = lstart s + of_nat tail + 1" and b: "b = lh_block s ! tail"
    and d: "in_disk (img s) a" "in_disk (img s) b" "a \<noteq> b" and en: "enough s b" and ra: "rc s a = 0"
    and pin: "\<not> recovering \<Longrightarrow> 0 < rc s b"
  obtains s' where "install_loop pid recovering tail (Suc k) s = install_loop pid recovering (Suc tail) k s'" "binv pid {} s'"
    "img s' = dput (img s) b (cur s a)" "dwrites s' = dwrites s @ [(b, cur s a)]" "bcache.more s' = bcache.more s"
    "\<And>x. in_disk (img s) x \<Longrightarrow> cur s' x = (if x = b then cur s a else cur s x)"
    "\<And>x. rc s' x = (if x = b \<and> \<not> recovering then rc s x - 1 else rc s x)" "one_free s'"
proof -
  obtain i j s1 s2 where r: "i \<noteq> j" "bread pid ROOTDEV a s = Ok i s1" "bread pid ROOTDEV b s1 = Ok j s2"
    "binv pid {i, j} s2" "blockno (bufs s2 ! i) = a" "blockno (bufs s2 ! j) = b"
    "bdata (bufs s2 ! i) = cur s a" "bdata (bufs s2 ! j) = cur s b"
    "\<And>x. cur s2 x = cur s x" "\<And>x. rc s2 x = (if x = a \<or> x = b then rc s x + 1 else rc s x)"
    "img s1 = img s" "img s2 = img s" "dwrites s2 = dwrites s" "bcache.more s1 = bcache.more s" "bcache.more s2 = bcache.more s"
    by (rule bread2 [OF inv d en]) blast
  have len: "length (cur s a) = 1024" by (rule length_cur [OF inv d(1)])
  obtain s3 where w: "bwrite pid j (set_data j (cur s a) s2) = Ok () s3" "binv pid {i, j} s3"
    "img s3 = dput (img s2) b (cur s a)" "dwrites s3 = dwrites s2 @ [(b, cur s a)]" "bcache.more s3 = bcache.more s2"
    "\<And>x. in_disk (img s2) x \<Longrightarrow> cur s3 x = (if x = b then cur s a else cur s2 x)" "\<And>x. rc s3 x = rc s2 x"
    "\<And>k. blockno (bufs s3 ! k) = blockno (bufs s2 ! k)" "\<And>x. in_disk (img s3) x = in_disk (img s2) x"
    "\<And>x. in_disk (img s2) x \<Longrightarrow> dblock (img s3) x = (if x = b then cur s a else dblock (img s2) x)"
    by (rule set_write [OF r(4) _ len r(6) [symmetric]]) (blast | simp)+
  define s3' where "s3' = (if recovering then s3 else bunpin j s3)"
  have bj: "blockno (bufs s3 ! j) = b" using w(8) r(6) by simp
  have j3: "j < length (bufs s3)" using held_buf(1) [OF w(2), of j] binvD(1) [OF w(2)] by simp
  have bk: "blockno (bufs s3' ! x) = blockno (bufs s3 ! x)" for x
    using j3 by (cases "x = j") (simp_all add: s3'_def bunpin_def)
  have rb: "1 < rc s3 b" if "\<not> recovering" using w(7) r(10) [of b] pin [OF that] by simp
  note pk = pin_ok(4,5,6) [OF w(2), of j, unfolded bj]
  have p: "binv pid {i, j} s3'" "\<And>x. cur s3' x = cur s3 x"
      "\<And>x. rc s3' x = (if x = b \<and> \<not> recovering then rc s3 x - 1 else rc s3 x)"
      "img s3' = img s3" "dwrites s3' = dwrites s3" "bcache.more s3' = bcache.more s3"
    using w(2) pk rb by (auto simp: s3'_def bunpin_def upd_buf_def)
  have ca: "cur s3' a = dblock (img s3') a"
    using clean_cur [OF inv ra d(1)] w(6,10) r(9,12) d p by simp
  have bi: "blockno (bufs s3' ! i) = a" using bk w(8) r(5) by simp
  obtain s4 where q: "brelse pid i s3' = Ok () s4" "binv pid ({i, j} - {i}) s4" "\<And>x. cur s4 x = cur s3' x"
    "\<And>x. rc s4 x = (if x = a then rc s3' x - 1 else rc s3' x)" "img s4 = img s3'" "dwrites s4 = dwrites s3'"
    "bcache.more s4 = bcache.more s3'" "\<And>k. k \<noteq> i \<Longrightarrow> bufs s4 ! k = bufs s3' ! k" "refcnt (bufs s4 ! i) = rc s3' a - 1"
    by (rule brelse_ok [OF p(1), of i, unfolded bi]) (blast | simp add: ca)+
  have q2: "binv pid {j} s4" using q(2) r(1) by (simp add: insert_Diff_if)
  have bj4: "blockno (bufs s4 ! j) = b" using q(8) [of j] r(1) bk bj by simp
  have cb: "cur s4 b = dblock (img s4) b" using q(3,5) p w(6,10) r(12) d(2) by simp
  obtain s5 where t: "brelse pid j s4 = Ok () s5" "binv pid ({j} - {j}) s5" "\<And>x. cur s5 x = cur s4 x"
    "\<And>x. rc s5 x = (if x = b then rc s4 x - 1 else rc s4 x)" "img s5 = img s4" "dwrites s5 = dwrites s4"
    "bcache.more s5 = bcache.more s4" "\<And>k. k \<noteq> j \<Longrightarrow> bufs s5 ! k = bufs s4 ! k"
    by (rule brelse_ok [OF q2, of j, unfolded bj4]) (blast | simp add: cb)+
  have t2: "binv pid {} s5" using t(2) by simp
  have loop: "install_loop pid recovering tail (Suc k) s = install_loop pid recovering (Suc tail) k s5"
    using r(2,3,7) w(1) q(1) t(1) dev log_more [OF r(14)] a b by (simp add: s3'_def)
  have "refcnt (bufs s5 ! i) = 0" using t(8) [of i] q(9) p(3) [of a] w(7) r(1) r(10) [of a] ra d(3) by simp
  then have "one_free s5" using held_buf(1) [OF p(1), of i] unfolding one_free_def by force
  then show ?thesis
    by (intro that [OF loop t2]) (use t q p w r d in simp_all)
qed

subsection \<open>The loops\<close>

definition overlay :: "(uint32 \<Rightarrow> bytes) \<Rightarrow> (uint32 \<times> bytes) list \<Rightarrow> uint32 \<Rightarrow> bytes" where
  "overlay f ws x = (case map_of (rev ws) x of None \<Rightarrow> f x | Some d \<Rightarrow> d)"

lemma overlay_simps [simp]:
  "overlay f [] = f" "overlay f (ws @ vs) = overlay (overlay f ws) vs"
  by (auto simp: overlay_def map_add_def split: option.split)

lemma overlay_Cons: "overlay f (w # ws) x = overlay (f(fst w := snd w)) ws x"
  by (auto simp: overlay_def map_add_def split: option.split)

lemma overlay_notin: "x \<notin> fst ` set ws \<Longrightarrow> overlay f ws x = f x"
  by (simp add: overlay_def map_of_eq_None_iff option.case_eq_if)

lemma overlay_in:
  assumes "x \<in> set xs"
  shows "overlay f (map (\<lambda>i. (g i, h (g i))) ys) x = (if x \<in> g ` set ys then h x else f x)"
proof (induction ys arbitrary: f)
  case (Cons y ys)
  show ?case by (auto simp: overlay_Cons Cons)
qed simp

lemma overlay_cong: "f x = g x \<Longrightarrow> overlay f ws x = overlay g ws x"
  by (simp add: overlay_def split: option.split)

lemmas dblock_overlay = dblock_apply_writes [folded overlay_def]

text \<open>The blocks of the log area and the side conditions on the blocks of a transaction.\<close>

definition log_area :: "uint32 \<Rightarrow> uint32 set" where
  "log_area st = (\<lambda>i. st + of_nat i) ` {..LOGBLOCKS}"

definition geom :: "bytes \<Rightarrow> uint32 \<Rightarrow> uint32 list \<Rightarrow> bool" where
  "geom im st bl \<longleftrightarrow> length bl \<le> LOGBLOCKS \<and> distinct bl \<and> (\<forall>a \<in> log_area st. in_disk im a) \<and>
     (\<forall>b \<in> set bl. in_disk im b \<and> b \<notin> log_area st)"

lemma geomD:
  assumes "geom im st bl"
  shows "i \<le> LOGBLOCKS \<Longrightarrow> in_disk im (st + of_nat i)" "k < length bl \<Longrightarrow> in_disk im (bl ! k)"
    "k < length bl \<Longrightarrow> i \<le> LOGBLOCKS \<Longrightarrow> bl ! k \<noteq> st + of_nat i" "distinct bl" "length bl \<le> LOGBLOCKS"
proof -
  show "k < length bl \<Longrightarrow> i \<le> LOGBLOCKS \<Longrightarrow> bl ! k \<noteq> st + of_nat i"
    using assms nth_mem [of k bl] unfolding geom_def log_area_def by (metis atMost_iff imageI)
qed (use assms in \<open>auto simp: geom_def log_area_def\<close>)

lemma geom_same: "geom im st bl \<Longrightarrow> (\<And>x. in_disk im' x = in_disk im x) \<Longrightarrow> geom im' st bl"
  by (simp add: geom_def)

lemma log_inj:
  fixes st :: uint32
  assumes "i \<le> LOGBLOCKS" "j \<le> LOGBLOCKS"
  shows "st + of_nat i = st + of_nat j \<longleftrightarrow> i = j"
proof
  assume "st + of_nat i = st + of_nat j"
  then have "(of_nat i :: uint32) = of_nat j" by simp
  then have "unat (of_nat i :: uint32) = unat (of_nat j :: uint32)" by simp
  then show "i = j" using assms by (simp add: unat_of_nat)
qed simp

definition log_writes :: "(uint32 \<Rightarrow> bytes) \<Rightarrow> uint32 \<Rightarrow> uint32 list \<Rightarrow> nat \<Rightarrow> nat \<Rightarrow> (uint32 \<times> bytes) list" where
  "log_writes f st bl tail k = map (\<lambda>i. (st + of_nat (Suc i), f (bl ! i))) [tail..<tail + k]"

definition home_writes :: "(uint32 \<Rightarrow> bytes) \<Rightarrow> uint32 \<Rightarrow> uint32 list \<Rightarrow> nat \<Rightarrow> nat \<Rightarrow> (uint32 \<times> bytes) list" where
  "home_writes f st bl tail k = map (\<lambda>i. (bl ! i, f (st + of_nat (Suc i)))) [tail..<tail + k]"

lemma log_writes_Suc:
  "log_writes f st bl tail (Suc k) = (st + of_nat tail + 1, f (bl ! tail)) # log_writes f st bl (Suc tail) k"
  and home_writes_Suc:
  "home_writes f st bl tail (Suc k) = (bl ! tail, f (st + of_nat tail + 1)) # home_writes f st bl (Suc tail) k"
proof -
  have u: "[tail..<tail + Suc k] = tail # [Suc tail..<Suc tail + k]" by (simp add: upt_rec)
  show "log_writes f st bl tail (Suc k) = (st + of_nat tail + 1, f (bl ! tail)) # log_writes f st bl (Suc tail) k"
    "home_writes f st bl tail (Suc k) = (bl ! tail, f (st + of_nat tail + 1)) # home_writes f st bl (Suc tail) k"
    unfolding log_writes_def home_writes_def u by (simp_all only: list.map of_nat_Suc ac_simps)
qed

lemma writes_0 [simp]: "log_writes f st bl tail 0 = []" "home_writes f st bl tail 0 = []"
  by (simp_all add: log_writes_def home_writes_def)

lemma log_writes_cong:
  "(\<And>i. tail \<le> i \<Longrightarrow> i < tail + k \<Longrightarrow> f (bl ! i) = g (bl ! i)) \<Longrightarrow> log_writes f st bl tail k = log_writes g st bl tail k"
  and home_writes_cong:
  "(\<And>i. tail \<le> i \<Longrightarrow> i < tail + k \<Longrightarrow> f (st + of_nat (Suc i)) = g (st + of_nat (Suc i))) \<Longrightarrow>
     home_writes f st bl tail k = home_writes g st bl tail k"
  by (simp_all add: log_writes_def home_writes_def)

lemma fst_home_writes: "fst ` set (home_writes f st bl tail k) = (\<lambda>i. bl ! i) ` {tail..<tail + k}"
  and fst_log_writes: "fst ` set (log_writes f st bl tail k) = (\<lambda>i. st + of_nat (Suc i)) ` {tail..<tail + k}"
  by (simp_all add: home_writes_def log_writes_def image_image)

lemma write_log_loop_ok:
  "binv pid {} s \<Longrightarrow> ldev s = ROOTDEV \<Longrightarrow> geom (img s) (lstart s) bl \<Longrightarrow> take (length bl) (lh_block s) = bl \<Longrightarrow>
   tail + k \<le> length bl \<Longrightarrow> one_free s \<Longrightarrow> (\<And>i. i < length bl \<Longrightarrow> 0 < rc s (bl ! i)) \<Longrightarrow>
   (\<And>a. a \<in> log_area (lstart s) \<Longrightarrow> rc s a = 0) \<Longrightarrow>
   W = log_writes (cur s) (lstart s) bl tail k \<Longrightarrow>
   \<exists>s'. write_log_loop pid tail k s = Ok () s' \<and> binv pid {} s' \<and> img s' = apply_writes (img s) W \<and>
     dwrites s' = dwrites s @ W \<and> bcache.more s' = bcache.more s \<and>
     (\<forall>x. in_disk (img s) x \<longrightarrow> cur s' x = overlay (cur s) W x) \<and> (\<forall>x. rc s' x = rc s x) \<and> one_free s'"
proof (induction k arbitrary: tail s W)
  case (Suc k)
  let ?a = "lstart s + of_nat tail + 1"
  have tl: "tail < length bl" "Suc tail \<le> LOGBLOCKS" using Suc.prems(5) geomD(5) [OF Suc.prems(3)] by auto
  have b: "lh_block s ! tail = bl ! tail" using Suc.prems(4) tl(1) by (metis nth_take)
  have a: "?a = lstart s + of_nat (Suc tail)" by simp
  then have area: "?a \<in> log_area (lstart s)" using tl(2) unfolding log_area_def by blast
  have d: "in_disk (img s) ?a" "in_disk (img s) (lh_block s ! tail)" "?a \<noteq> lh_block s ! tail"
    using geomD(1) [OF Suc.prems(3) tl(2)] geomD(2) [OF Suc.prems(3) tl(1)] geomD(3) [OF Suc.prems(3) tl]
    unfolding a b by (blast, blast, metis)
  have en: "enough s (lh_block s ! tail)" using Suc.prems(6,7) tl b by (simp add: enough_def)
  obtain s1 where s1: "write_log_loop pid tail (Suc k) s = write_log_loop pid (Suc tail) k s1" "binv pid {} s1"
    "img s1 = dput (img s) ?a (cur s (bl ! tail))" "dwrites s1 = dwrites s @ [(?a, cur s (bl ! tail))]"
    "bcache.more s1 = bcache.more s"
    "\<And>x. in_disk (img s) x \<Longrightarrow> cur s1 x = (if x = ?a then cur s (bl ! tail) else cur s x)" "\<And>x. rc s1 x = rc s x" "one_free s1"
    by (rule write_log_step [OF Suc.prems(1,2) refl refl d en Suc.prems(8) [OF area], unfolded b]) blast
  have l1: "ldev s1 = ROOTDEV" "lstart s1 = lstart s" "lh_block s1 = lh_block s"
    using log_more [OF s1(5)] Suc.prems(2) by auto
  have len: "length (cur s (bl ! tail)) = 1024" using length_cur [OF Suc.prems(1) d(2)] b by simp
  have id: "in_disk (img s1) x = in_disk (img s) x" for x unfolding s1(3) by (rule in_disk_dput [OF len d(1)])
  let ?W = "log_writes (cur s) (lstart s) bl (Suc tail) k"
  have W': "?W = log_writes (cur s1) (lstart s1) bl (Suc tail) k" unfolding l1
  proof (rule log_writes_cong)
    fix i assume i: "Suc tail \<le> i" "i < Suc tail + k"
    then have "i < length bl" using Suc.prems(5) by simp
    then show "cur s (bl ! i) = cur s1 (bl ! i)"
      using s1(6) geomD(2,3) [OF Suc.prems(3)] tl(2) a by metis
  qed
  have W: "W = (?a, cur s (bl ! tail)) # ?W" unfolding Suc.prems(9) by (rule log_writes_Suc)
  have "\<exists>s'. write_log_loop pid (Suc tail) k s1 = Ok () s' \<and> binv pid {} s' \<and> img s' = apply_writes (img s1) ?W \<and>
     dwrites s' = dwrites s1 @ ?W \<and> bcache.more s' = bcache.more s1 \<and>
     (\<forall>x. in_disk (img s1) x \<longrightarrow> cur s' x = overlay (cur s1) ?W x) \<and> (\<forall>x. rc s' x = rc s1 x) \<and> one_free s'"
    by (rule Suc.IH [OF s1(2) l1(1) _ _ _ s1(8) _ _ W'])
      (use Suc.prems geom_same [OF Suc.prems(3) id] l1 s1(7) in auto)
  then obtain s' where s': "write_log_loop pid (Suc tail) k s1 = Ok () s'" "binv pid {} s'" "img s' = apply_writes (img s1) ?W"
     "dwrites s' = dwrites s1 @ ?W" "bcache.more s' = bcache.more s1"
     "\<And>x. in_disk (img s1) x \<Longrightarrow> cur s' x = overlay (cur s1) ?W x" "\<And>x. rc s' x = rc s1 x" "one_free s'" by blast
  have "cur s' x = overlay (cur s) W x" if "in_disk (img s) x" for x
  proof -
    have "overlay (cur s1) ?W x = overlay ((cur s)(?a := cur s (bl ! tail))) ?W x"
      by (rule overlay_cong) (simp only: s1(6) [OF that] fun_upd_apply)
    then show ?thesis using s'(6) that unfolding id W overlay_Cons fst_conv snd_conv by metis
  qed
  then show ?case
    by (intro exI [of _ s']) (use s1 s' W in simp)
qed simp

lemma install_loop_ok:
  "binv pid {} s \<Longrightarrow> ldev s = ROOTDEV \<Longrightarrow> geom (img s) (lstart s) bl \<Longrightarrow> take (length bl) (lh_block s) = bl \<Longrightarrow>
   tail + k \<le> length bl \<Longrightarrow> one_free s \<Longrightarrow>
   (if recovering then \<forall>x. rc s x = 0 else \<forall>i. tail \<le> i \<longrightarrow> i < tail + k \<longrightarrow> 0 < rc s (bl ! i)) \<Longrightarrow>
   (\<And>a. a \<in> log_area (lstart s) \<Longrightarrow> rc s a = 0) \<Longrightarrow>
   W = home_writes (cur s) (lstart s) bl tail k \<Longrightarrow>
   \<exists>s'. install_loop pid recovering tail k s = Ok () s' \<and> binv pid {} s' \<and> img s' = apply_writes (img s) W \<and>
     dwrites s' = dwrites s @ W \<and> bcache.more s' = bcache.more s \<and>
     (\<forall>x. in_disk (img s) x \<longrightarrow> cur s' x = overlay (cur s) W x) \<and>
     (\<forall>x. rc s' x = (if \<not> recovering \<and> x \<in> fst ` set W then rc s x - 1 else rc s x)) \<and> one_free s'"
proof (induction k arbitrary: tail s W)
  case (Suc k)
  let ?a = "lstart s + of_nat tail + 1"
  have tl: "tail < length bl" "Suc tail \<le> LOGBLOCKS" using Suc.prems(5) geomD(5) [OF Suc.prems(3)] by auto
  have b: "lh_block s ! tail = bl ! tail" using Suc.prems(4) tl(1) by (metis nth_take)
  have a: "?a = lstart s + of_nat (Suc tail)" by simp
  then have area: "?a \<in> log_area (lstart s)" using tl(2) unfolding log_area_def by blast
  have d: "in_disk (img s) ?a" "in_disk (img s) (lh_block s ! tail)" "?a \<noteq> lh_block s ! tail"
    using geomD(1) [OF Suc.prems(3) tl(2)] geomD(2) [OF Suc.prems(3) tl(1)] geomD(3) [OF Suc.prems(3) tl]
    unfolding a b by (blast, blast, metis)
  have pin: "0 < rc s (lh_block s ! tail)" if "\<not> recovering" using Suc.prems(7) that b by simp
  have en: "enough s (lh_block s ! tail)"
    using Suc.prems(1,6,7) pin all_free [of pid s] by (cases recovering) (simp_all add: enough_def)
  obtain s1 where s1: "install_loop pid recovering tail (Suc k) s = install_loop pid recovering (Suc tail) k s1" "binv pid {} s1"
    "img s1 = dput (img s) (bl ! tail) (cur s ?a)" "dwrites s1 = dwrites s @ [(bl ! tail, cur s ?a)]"
    "bcache.more s1 = bcache.more s"
    "\<And>x. in_disk (img s) x \<Longrightarrow> cur s1 x = (if x = bl ! tail then cur s ?a else cur s x)"
    "\<And>x. rc s1 x = (if x = bl ! tail \<and> \<not> recovering then rc s x - 1 else rc s x)" "one_free s1"
    by (rule install_step [OF Suc.prems(1,2) refl refl d en Suc.prems(8) [OF area] pin, unfolded b]) (blast | simp)+
  have l1: "ldev s1 = ROOTDEV" "lstart s1 = lstart s" "lh_block s1 = lh_block s"
    using log_more [OF s1(5)] Suc.prems(2) by auto
  have len: "length (cur s ?a) = 1024" using length_cur [OF Suc.prems(1) d(1)] by simp
  have id: "in_disk (img s1) x = in_disk (img s) x" for x unfolding s1(3) using in_disk_dput [OF len d(2)] b by simp
  let ?W = "home_writes (cur s) (lstart s) bl (Suc tail) k"
  have W': "?W = home_writes (cur s1) (lstart s1) bl (Suc tail) k" unfolding l1
  proof (rule home_writes_cong)
    fix i assume i: "Suc tail \<le> i" "i < Suc tail + k"
    then have "Suc i \<le> LOGBLOCKS" using Suc.prems(5) geomD(5) [OF Suc.prems(3)] by simp
    then show "cur s (lstart s + of_nat (Suc i)) = cur s1 (lstart s + of_nat (Suc i))"
      using s1(6) geomD(1,3) [OF Suc.prems(3)] tl(1) by metis
  qed
  have W: "W = (bl ! tail, cur s ?a) # ?W" unfolding Suc.prems(9) by (rule home_writes_Suc)
  have ne: "bl ! i \<noteq> bl ! tail" if "Suc tail \<le> i" "i < Suc tail + k" for i
    using geomD(4) [OF Suc.prems(3)] that Suc.prems(5) tl(1) by (simp add: nth_eq_iff_index_eq)
  have pin1: "if recovering then \<forall>x. rc s1 x = 0 else \<forall>i. Suc tail \<le> i \<longrightarrow> i < Suc tail + k \<longrightarrow> 0 < rc s1 (bl ! i)"
    using Suc.prems(7) s1(7) ne by (cases recovering) simp_all
  have area1: "rc s1 x = 0" if "x \<in> log_area (lstart s)" for x
    using Suc.prems(8) [OF that] s1(7) Suc.prems(3) tl(1) that unfolding geom_def by (metis nth_mem)
  have "\<exists>s'. install_loop pid recovering (Suc tail) k s1 = Ok () s' \<and> binv pid {} s' \<and> img s' = apply_writes (img s1) ?W \<and>
     dwrites s' = dwrites s1 @ ?W \<and> bcache.more s' = bcache.more s1 \<and>
     (\<forall>x. in_disk (img s1) x \<longrightarrow> cur s' x = overlay (cur s1) ?W x) \<and>
     (\<forall>x. rc s' x = (if \<not> recovering \<and> x \<in> fst ` set ?W then rc s1 x - 1 else rc s1 x)) \<and> one_free s'"
    by (rule Suc.IH [OF s1(2) l1(1) _ _ _ s1(8) pin1 _ W'])
      (use Suc.prems(4,5) geom_same [OF Suc.prems(3) id] l1 area1 in auto)
  then obtain s' where s': "install_loop pid recovering (Suc tail) k s1 = Ok () s'" "binv pid {} s'" "img s' = apply_writes (img s1) ?W"
     "dwrites s' = dwrites s1 @ ?W" "bcache.more s' = bcache.more s1"
     "\<And>x. in_disk (img s1) x \<Longrightarrow> cur s' x = overlay (cur s1) ?W x"
     "\<And>x. rc s' x = (if \<not> recovering \<and> x \<in> fst ` set ?W then rc s1 x - 1 else rc s1 x)" "one_free s'" by blast
  have "cur s' x = overlay (cur s) W x" if "in_disk (img s) x" for x
  proof -
    have "overlay (cur s1) ?W x = overlay ((cur s)(bl ! tail := cur s ?a)) ?W x"
      by (rule overlay_cong) (simp only: s1(6) [OF that] fun_upd_apply)
    then show ?thesis using s'(6) that unfolding id W overlay_Cons fst_conv snd_conv by metis
  qed
  moreover have "bl ! tail \<notin> fst ` set ?W" unfolding fst_home_writes
  proof
    assume "bl ! tail \<in> (\<lambda>i. bl ! i) ` {Suc tail..<Suc tail + k}"
    then obtain i where i: "bl ! tail = bl ! i" "i \<in> {Suc tail..<Suc tail + k}" by (rule imageE)
    then show False using ne [of i] by simp
  qed
  ultimately show ?case
    by (intro exI [of _ s']) (use s1(1,3,4,5,7) s' W in auto)
qed simp

subsection \<open>The header block\<close>

lemma length_put_blocks: "length d = 1024 \<Longrightarrow> i + k \<le> LOGBLOCKS \<Longrightarrow> length (put_blocks d i k bl) = 1024"
  by (induction k arbitrary: i d) auto

lemma rd32_put_blocks_before:
  "length d = 1024 \<Longrightarrow> i + k \<le> LOGBLOCKS \<Longrightarrow> o' + 4 \<le> 4 + 4 * i \<Longrightarrow> rd32 (put_blocks d i k bl) o' = rd32 d o'"
  by (induction k arbitrary: i d) auto

lemma rd32_put_blocks:
  "length d = 1024 \<Longrightarrow> i + k \<le> LOGBLOCKS \<Longrightarrow> i \<le> j \<Longrightarrow> j < i + k \<Longrightarrow> rd32 (put_blocks d i k bl) (4 + 4 * j) = bl ! j"
proof (induction k arbitrary: i d)
  case (Suc k)
  show ?case
  proof (cases "i = j")
    case True
    then show ?thesis using Suc.prems by (simp add: rd32_put_blocks_before)
  next
    case False
    then show ?thesis using Suc.prems by (simp add: Suc.IH)
  qed
qed simp

lemma get_blocks_ok:
  "i + k \<le> LOGBLOCKS \<Longrightarrow> length bl = LOGBLOCKS \<Longrightarrow>
   \<exists>bl'. get_blocks d i k bl = Some bl' \<and> length bl' = LOGBLOCKS \<and> (\<forall>j. i \<le> j \<longrightarrow> j < i + k \<longrightarrow> bl' ! j = rd32 d (4 + 4 * j)) \<and>
     (\<forall>j < i. bl' ! j = bl ! j)"
proof (induction k arbitrary: i bl)
  case (Suc k)
  then obtain bl' where b: "get_blocks d (Suc i) k (bl[i := rd32 d (4 + 4 * i)]) = Some bl'" "length bl' = LOGBLOCKS"
      "\<And>j. Suc i \<le> j \<Longrightarrow> j < Suc i + k \<Longrightarrow> bl' ! j = rd32 d (4 + 4 * j)" "\<And>j. j < Suc i \<Longrightarrow> bl' ! j = bl[i := rd32 d (4 + 4 * i)] ! j"
    using Suc.IH [of "Suc i" "bl[i := rd32 d (4 + 4 * i)]"] by auto
  have "bl' ! j = rd32 d (4 + 4 * j)" if "i \<le> j" "j < i + Suc k" for j
    using b(3) [of j] b(4) [of j] that Suc.prems by (cases "i = j") simp_all
  then show ?case using b Suc.prems by (intro exI [of _ bl']) simp
qed simp

definition header :: "bytes \<Rightarrow> nat \<Rightarrow> uint32 list \<Rightarrow> bytes" where
  "header d n bl = put_blocks (wr32 d 0 (of_nat n)) 0 n bl"

lemma length_header: "length d = 1024 \<Longrightarrow> n \<le> LOGBLOCKS \<Longrightarrow> length (header d n bl) = 1024"
  by (simp add: header_def length_put_blocks)

lemma header_n: "length d = 1024 \<Longrightarrow> n \<le> LOGBLOCKS \<Longrightarrow> rd32 (header d n bl) 0 = of_nat n"
  by (simp add: header_def rd32_put_blocks_before)

lemma header_block: "length d = 1024 \<Longrightarrow> n \<le> LOGBLOCKS \<Longrightarrow> j < n \<Longrightarrow> rd32 (header d n bl) (4 + 4 * j) = bl ! j"
  by (simp add: header_def rd32_put_blocks)

lemma sint_small: "n \<le> LOGBLOCKS \<Longrightarrow> sint (of_nat n :: uint32) = int n"
  by (rule sint_of_nat32) simp

end
