(* ===== verification/Logcrash.thy ===== *)
theory Logcrash
  imports Logsafe
begin

section \<open>Commit, crash and recovery\<close>

text \<open>
  The specifications of \<^verbatim>\<open>read_head\<close>, \<^verbatim>\<open>write_head\<close>, \<^verbatim>\<open>commit\<close> and \<^verbatim>\<open>initlog\<close>, and the
  theorem that a crash after any number of the disk writes of a commit is recovered to the
  state before or to the state after the transaction.
\<close>

lemma log_upd_view:
  fixes s :: "'a logst_scheme"
  shows "binv pid H (s\<lparr>lh_n := n\<rparr>) = binv pid H s" "cur (s\<lparr>lh_n := n\<rparr>) = cur s" "rc (s\<lparr>lh_n := n\<rparr>) = rc s"
    "one_free (s\<lparr>lh_n := n\<rparr>) = one_free s"
    "binv pid H (s\<lparr>lh_n := n, lh_block := bl\<rparr>) = binv pid H s" "cur (s\<lparr>lh_n := n, lh_block := bl\<rparr>) = cur s"
    "rc (s\<lparr>lh_n := n, lh_block := bl\<rparr>) = rc s"
  by (simp_all add: binv_def one_free_def view_cong [of "s\<lparr>lh_n := n\<rparr>" s] view_cong [of "s\<lparr>lh_n := n, lh_block := bl\<rparr>" s])

lemma bread1:
  assumes inv: "binv pid {} s" and d: "in_disk (img s) a" and one: "one_free s"
  obtains i s1 where "bread pid ROOTDEV a s = Ok i s1" "binv pid {i} s1" "blockno (bufs s1 ! i) = a" "bdata (bufs s1 ! i) = cur s a"
    "\<And>x. cur s1 x = cur s x" "\<And>x. rc s1 x = (if x = a then rc s x + 1 else rc s x)"
    "img s1 = img s" "dwrites s1 = dwrites s" "bcache.more s1 = bcache.more s"
proof -
  obtain i where i: "i < NBUF" "bread pid ROOTDEV a s = Ok i (put_buf i (fresh_buf pid s a) s)"
      "cidx s a = Some i \<or> cidx s a = None \<and> refcnt (bufs s ! i) = 0"
    using bread_ok [OF inv d] one unfolding one_free_def by (metis empty_iff)
  note e = bread_effect [OF inv d i(1) _ i(3), simplified]
  have "length (bufs s) = NBUF" by (rule binvD(1) [OF inv])
  then have "blockno (bufs (put_buf i (fresh_buf pid s a) s) ! i) = a" "bdata (bufs (put_buf i (fresh_buf pid s a) s) ! i) = cur s a"
    using i(1) by (simp_all add: fresh_buf_def)
  then show ?thesis by (intro that [OF i(2) e(1)]) (use e in simp_all)
qed

lemma write_head_ok:
  assumes inv: "binv pid {} s" and dev: "ldev s = ROOTDEV" and d: "in_disk (img s) (lstart s)" and one: "one_free s"
    and ra: "rc s (lstart s) = 0" and n: "lh_n s = int n" "n \<le> LOGBLOCKS"
    and H: "H = header (cur s (lstart s)) n (lh_block s)"
  obtains s' where "write_head pid s = Ok () s'" "binv pid {} s'" "img s' = dput (img s) (lstart s) H"
    "dwrites s' = dwrites s @ [(lstart s, H)]" "bcache.more s' = bcache.more s"
    "\<And>x. in_disk (img s) x \<Longrightarrow> cur s' x = (if x = lstart s then H else cur s x)" "\<And>x. rc s' x = rc s x" "one_free s'"
proof -
  let ?a = "lstart s"
  obtain i s1 where r: "bread pid ROOTDEV ?a s = Ok i s1" "binv pid {i} s1" "blockno (bufs s1 ! i) = ?a" "bdata (bufs s1 ! i) = cur s ?a"
    "\<And>x. cur s1 x = cur s x" "\<And>x. rc s1 x = (if x = ?a then rc s x + 1 else rc s x)"
    "img s1 = img s" "dwrites s1 = dwrites s" "bcache.more s1 = bcache.more s"
    by (rule bread1 [OF inv d one]) blast
  have len: "length H = 1024" unfolding H by (rule length_header [OF length_cur [OF inv d] n(2)])
  obtain s2 where w: "bwrite pid i (set_data i H s1) = Ok () s2" "binv pid {i} s2" "img s2 = dput (img s1) ?a H"
    "dwrites s2 = dwrites s1 @ [(?a, H)]" "bcache.more s2 = bcache.more s1"
    "\<And>x. in_disk (img s1) x \<Longrightarrow> cur s2 x = (if x = ?a then H else cur s1 x)" "\<And>x. rc s2 x = rc s1 x"
    "\<And>k. blockno (bufs s2 ! k) = blockno (bufs s1 ! k)" "\<And>x. in_disk (img s2) x = in_disk (img s1) x"
    "\<And>x. in_disk (img s1) x \<Longrightarrow> dblock (img s2) x = (if x = ?a then H else dblock (img s1) x)"
    by (rule set_write [OF r(2) _ len r(3) [symmetric]]) (blast | simp)+
  have bi: "blockno (bufs s2 ! i) = ?a" using w(8) r(3) by simp
  have ca: "cur s2 ?a = dblock (img s2) ?a" using w(6,10) r(7) d by simp
  obtain s3 where t: "brelse pid i s2 = Ok () s3" "binv pid ({i} - {i}) s3" "\<And>x. cur s3 x = cur s2 x"
    "\<And>x. rc s3 x = (if x = ?a then rc s2 x - 1 else rc s2 x)" "img s3 = img s2" "dwrites s3 = dwrites s2"
    "bcache.more s3 = bcache.more s2" "refcnt (bufs s3 ! i) = rc s2 ?a - 1"
    by (rule brelse_ok [OF w(2), of i, unfolded bi]) (blast | simp add: ca)+
  have t2: "binv pid {} s3" using t(2) by simp
  have "rc s2 ?a = 1" using w(7) r(6) [of ?a] ra by simp
  then have one: "one_free s3" using t(8) held_buf(1) [OF w(2), of i] unfolding one_free_def by force
  have "write_head pid s = Ok () s3"
    unfolding write_head_def dev r(1) kbind_simps Let_def using r(4) w(1) t(1) log_more [OF r(9)] n(1)
    by (simp add: H header_def)
  from this t2 show ?thesis
    by (rule that) (use t w r d one in simp_all)
qed

lemma read_head_ok:
  assumes inv: "binv pid {} s" and dev: "ldev s = ROOTDEV" and d: "in_disk (img s) (lstart s)" and one: "one_free s"
    and ra: "rc s (lstart s) = 0" and n: "rd32 (cur s (lstart s)) 0 = of_nat n" "n \<le> LOGBLOCKS"
    and l: "length (lh_block s) = LOGBLOCKS"
  obtains s' where "read_head pid s = Ok () s'" "binv pid {} s'" "img s' = img s" "dwrites s' = dwrites s"
    "\<And>x. cur s' x = cur s x" "\<And>x. rc s' x = rc s x" "lh_n s' = int n" "length (lh_block s') = LOGBLOCKS"
    "take n (lh_block s') = map (\<lambda>j. rd32 (cur s (lstart s)) (4 + 4 * j)) [0..<n]" "lstart s' = lstart s" "ldev s' = ldev s"
proof -
  let ?a = "lstart s"
  obtain i s1 where r: "bread pid ROOTDEV ?a s = Ok i s1" "binv pid {i} s1" "blockno (bufs s1 ! i) = ?a" "bdata (bufs s1 ! i) = cur s ?a"
    "\<And>x. cur s1 x = cur s x" "\<And>x. rc s1 x = (if x = ?a then rc s x + 1 else rc s x)"
    "img s1 = img s" "dwrites s1 = dwrites s" "bcache.more s1 = bcache.more s"
    by (rule bread1 [OF inv d one]) blast
  note m = log_more [OF r(9)]
  obtain bl where bl: "get_blocks (cur s ?a) 0 n (lh_block s1) = Some bl" "length bl = LOGBLOCKS"
      "\<And>j. j < n \<Longrightarrow> bl ! j = rd32 (cur s ?a) (4 + 4 * j)"
    using get_blocks_ok [of 0 n "lh_block s1" "cur s ?a"] n(2) l m by auto
  define s2 where "s2 = s1\<lparr>lh_n := int n, lh_block := bl\<rparr>"
  have v: "binv pid {i} s2" "cur s2 = cur s1" "rc s2 = rc s1" "img s2 = img s1" "dwrites s2 = dwrites s1" "bufs s2 = bufs s1"
    using r(2) by (simp_all add: s2_def log_upd_view)
  have bi: "blockno (bufs s2 ! i) = ?a" using v r(3) by simp
  have ca: "cur s2 ?a = dblock (img s2) ?a" using clean_cur [OF inv ra d] v r by simp
  obtain s3 where t: "brelse pid i s2 = Ok () s3" "binv pid ({i} - {i}) s3" "\<And>x. cur s3 x = cur s2 x"
    "\<And>x. rc s3 x = (if x = ?a then rc s2 x - 1 else rc s2 x)" "img s3 = img s2" "dwrites s3 = dwrites s2"
    "bcache.more s3 = bcache.more s2"
    by (rule brelse_ok [OF v(1), of i, unfolded bi]) (blast | simp add: ca)+
  have ok: "read_head pid s = Ok () s3"
    unfolding read_head_def dev r(1) kbind_simps Let_def r(4) n(1) sint_small [OF n(2)] nat_int bl(1) option.case
    using t(1) by (simp add: s2_def)
  have inv3: "binv pid {} s3" using t(2) by simp
  have "take n bl = map (\<lambda>j. rd32 (cur s ?a) (4 + 4 * j)) [0..<n]"
    using bl n(2) by (intro nth_equalityI) simp_all
  then show ?thesis
    by (intro that [OF ok inv3]) (use t v r m bl log_more [OF t(7)] in \<open>simp_all add: s2_def\<close>)
qed

subsection \<open>The writes of a commit\<close>

lemma overlay_hit:
  assumes "distinct (map g xs)" "i \<in> set xs"
  shows "overlay f (map (\<lambda>i. (g i, h i)) xs) (g i) = h i"
proof -
  have "map_of (rev (map (\<lambda>i. (g i, h i)) xs)) (g i) = Some (h i)"
    by (rule map_of_is_SomeI) (use assms in \<open>simp_all add: rev_map [symmetric] comp_def\<close>)
  then show ?thesis by (simp add: overlay_def)
qed

lemma log_writes_hit:
  assumes "n \<le> LOGBLOCKS" "i < n"
  shows "overlay f (log_writes g st bl 0 n) (st + of_nat (Suc i)) = g (bl ! i)"
proof -
  have "distinct (map (\<lambda>i. st + of_nat (Suc i)) [0..<n])"
    unfolding distinct_map by (rule conjI [OF distinct_upt], rule inj_onI) (use assms(1) log_inj in auto)
  then show ?thesis unfolding log_writes_def using assms(2)
    overlay_hit [of "\<lambda>i. st + of_nat (Suc i)" "[0..<n]" i f "\<lambda>i. g (bl ! i)"] by simp
qed
text \<open>
  The state in which \<^verbatim>\<open>commit\<close> runs: no buffer is held, the logged blocks are distinct blocks of
  the disk outside the log and pinned, the log blocks are not referenced, and one buffer is
  free.
\<close>

definition commit_ready :: "int \<Rightarrow> 'a logst_scheme \<Rightarrow> bool" where
  "commit_ready pid s \<longleftrightarrow> binv pid {} s \<and> ldev s = ROOTDEV \<and> 0 \<le> lh_n s \<and> lh_n s \<le> int LOGBLOCKS \<and>
     length (lh_block s) = LOGBLOCKS \<and> geom (img s) (lstart s) (take (nat (lh_n s)) (lh_block s)) \<and> one_free s \<and>
     (\<forall>b \<in> set (take (nat (lh_n s)) (lh_block s)). 0 < rc s b) \<and> (\<forall>a \<in> log_area (lstart s). rc s a = 0)"

text \<open>The blocks a commit writes, in order.\<close>

definition commit_writes :: "'a logst_scheme \<Rightarrow> (uint32 \<times> bytes) list" where
  "commit_writes s =
     (let n = nat (lh_n s); st = lstart s; bl = lh_block s; H = header (cur s st) n bl
      in log_writes (cur s) st bl 0 n @ [(st, H)] @ map (\<lambda>b. (b, cur s b)) (take n bl) @ [(st, header H 0 bl)])"

lemma log_writes_take: "log_writes f st (take n bl) 0 n = log_writes f st bl 0 n"
  and home_writes_take: "n \<le> length bl \<Longrightarrow> home_writes f st (take n bl) 0 n = home_writes f st bl 0 n"
  by (simp_all add: log_writes_def home_writes_def)

lemma area_start: "st \<in> log_area st"
  unfolding log_area_def by (rule image_eqI [of _ _ 0]) simp_all

lemma area_Suc: "i < LOGBLOCKS \<Longrightarrow> st + of_nat (Suc i) \<in> log_area st"
  unfolding log_area_def by (rule image_eqI [of _ _ "Suc i"]) simp_all

lemma start_ne_Suc: "i < LOGBLOCKS \<Longrightarrow> st + of_nat (Suc i) \<noteq> (st :: uint32)"
  using log_inj [of "Suc i" 0 st] by simp

lemma apply_writes_append1: "apply_writes im (ws @ [w]) = dput (apply_writes im ws) (fst w) (snd w)"
  by simp

lemma log_writes_ok:
  assumes inv: "binv pid {} s" and g: "geom (img s) st bl" and n: "length bl = n"
  shows "writes_ok (img s) (log_writes (cur s) st bl 0 n)"
proof -
  have "in_disk (img s) (st + of_nat (Suc i)) \<and> length (cur s (bl ! i)) = 1024" if "i < n" for i
    using geomD(1,2,5) [OF g] that n length_cur [OF inv] by (metis Suc_leI le_trans)
  then show ?thesis unfolding writes_ok_def log_writes_def by (auto simp del: of_nat_Suc)
qed

lemma commit_trace:
  assumes r: "commit_ready pid s" and pos: "0 < lh_n s"
  shows "\<exists>s'. commit pid s = Ok () s' \<and> binv pid {} s' \<and> dwrites s' = dwrites s @ commit_writes s \<and>
     img s' = apply_writes (img s) (commit_writes s) \<and> lh_n s' = 0"
proof -
  define n bl st where "n = nat (lh_n s)" and "bl = take n (lh_block s)" and "st = lstart s"
  have rs: "binv pid {} s" "ldev s = ROOTDEV" "n \<le> LOGBLOCKS" "length (lh_block s) = LOGBLOCKS" "geom (img s) st bl"
      "one_free s" "\<And>b. b \<in> set bl \<Longrightarrow> 0 < rc s b" "\<And>a. a \<in> log_area st \<Longrightarrow> rc s a = 0" "lh_n s = int n"
    using r by (auto simp: commit_ready_def n_def bl_def st_def)
  have len: "length bl = n" using rs(3,4) by (simp add: bl_def)
  let ?W1 = "log_writes (cur s) st bl 0 n"
  obtain s1 where s1: "write_log_loop pid 0 n s = Ok () s1" "binv pid {} s1" "img s1 = apply_writes (img s) ?W1"
     "dwrites s1 = dwrites s @ ?W1" "bcache.more s1 = bcache.more s"
     "\<And>x. in_disk (img s) x \<Longrightarrow> cur s1 x = overlay (cur s) ?W1 x" "\<And>x. rc s1 x = rc s x" "one_free s1"
    using write_log_loop_ok [OF rs(1,2), of bl 0 n ?W1] rs len unfolding st_def bl_def
    by (metis add_0 nth_mem order_refl)
  note m1 = log_more [OF s1(5)]
  have id1: "in_disk (img s1) x = in_disk (img s) x" for x
    unfolding s1(3) by (rule apply_writes_in_disk [OF log_writes_ok [OF rs(1,5) len]])
  have st: "in_disk (img s) st" using geomD(1) [OF rs(5), of 0] by simp
  have "st \<notin> fst ` set ?W1" unfolding fst_log_writes using start_ne_Suc [of _ st] rs(3) by (auto simp del: of_nat_Suc)
  then have c1: "cur s1 st = cur s st" using s1(6) [OF st] by (simp add: overlay_notin)
  define H where "H = header (cur s st) n (lh_block s)"
  have lenH: "length H = 1024" unfolding H_def by (rule length_header [OF length_cur [OF rs(1) st] rs(3)])
  obtain s2 where s2: "write_head pid s1 = Ok () s2" "binv pid {} s2" "img s2 = dput (img s1) st H"
    "dwrites s2 = dwrites s1 @ [(st, H)]" "bcache.more s2 = bcache.more s1"
    "\<And>x. in_disk (img s1) x \<Longrightarrow> cur s2 x = (if x = st then H else cur s1 x)" "\<And>x. rc s2 x = rc s1 x" "one_free s2"
    by (rule write_head_ok [OF s1(2) _ _ s1(8) _ _ rs(3), of H])
      (use m1 rs(2,8,9) area_start st id1 s1(7) c1 in \<open>auto simp: st_def H_def\<close>)
  note m2 = log_more [OF s2(5)]
  have id2: "in_disk (img s2) x = in_disk (img s) x" for x
    unfolding s2(3) using in_disk_dput [OF lenH, of "img s1" st x] st id1 by simp
  have c2: "cur s2 (st + of_nat (Suc i)) = cur s (bl ! i)" if "i < n" for i
    using s2(6) s1(6) id1 geomD(1) [OF rs(5), of "Suc i"] start_ne_Suc [of i st] log_writes_hit [OF rs(3) that, of "cur s" "cur s" st bl]
      that rs(3) by (simp del: of_nat_Suc)
  let ?W3 = "map (\<lambda>b. (b, cur s b)) bl"
  have W3: "?W3 = home_writes (cur s2) (lstart s2) bl 0 n"
    unfolding home_writes_def using c2 len m1 m2
    by (intro nth_equalityI) (simp_all add: st_def del: of_nat_Suc)
  have pin: "if False then \<forall>x. rc s2 x = 0 else \<forall>i. 0 \<le> i \<longrightarrow> i < 0 + n \<longrightarrow> 0 < rc s2 (bl ! i)"
    using rs(7) s1(7) s2(7) len by simp
  have "\<exists>s'. install_loop pid False 0 n s2 = Ok () s' \<and> binv pid {} s' \<and> img s' = apply_writes (img s2) ?W3 \<and>
     dwrites s' = dwrites s2 @ ?W3 \<and> bcache.more s' = bcache.more s2 \<and>
     (\<forall>x. in_disk (img s2) x \<longrightarrow> cur s' x = overlay (cur s2) ?W3 x) \<and>
     (\<forall>x. rc s' x = (if \<not> False \<and> x \<in> fst ` set ?W3 then rc s2 x - 1 else rc s2 x)) \<and> one_free s'"
    by (rule install_loop_ok [OF s2(2) _ _ _ _ s2(8) pin _ W3])
      (use m1 m2 rs geom_same [OF rs(5) id2] len s1(7) s2(7) in \<open>auto simp: st_def bl_def\<close>)
  then obtain s3 where s3: "install_loop pid False 0 n s2 = Ok () s3" "binv pid {} s3" "img s3 = apply_writes (img s2) ?W3"
     "dwrites s3 = dwrites s2 @ ?W3" "bcache.more s3 = bcache.more s2" "\<And>x. in_disk (img s2) x \<Longrightarrow> cur s3 x = overlay (cur s2) ?W3 x"
     "\<And>x. rc s3 x = (if x \<in> fst ` set ?W3 then rc s2 x - 1 else rc s2 x)" "one_free s3" by auto
  note m3 = log_more [OF s3(5)]
  have nst: "st \<notin> fst ` set ?W3" using rs(5) area_start [of st] by (auto simp: geom_def image_image)
  have w3: "writes_ok (img s2) ?W3"
    using rs(5) id2 length_cur [OF rs(1)] by (auto simp: writes_ok_def geom_def)
  have c3: "cur s3 st = H" using s3(6) [of st] id2 st s2(6) id1 nst by (simp add: overlay_notin)
  have id3: "in_disk (img s3) st" unfolding s3(3) using apply_writes_in_disk [OF w3] id2 st by simp
  have r3: "rc s3 st = 0" using s3(7) nst s2(7) s1(7) rs(8) area_start by simp
  let ?t = "s3\<lparr>lh_n := 0\<rparr>"
  obtain s4 where s4: "write_head pid ?t = Ok () s4" "binv pid {} s4" "img s4 = dput (img ?t) (lstart ?t) (header H 0 (lh_block s))"
    "dwrites s4 = dwrites ?t @ [(lstart ?t, header H 0 (lh_block s))]" "bcache.more s4 = bcache.more ?t"
    by (rule write_head_ok [where s = ?t and n = 0 and pid = pid])
      (use s3(2,8) m1 m2 m3 rs(2) id3 r3 c3 in \<open>auto simp: log_upd_view st_def\<close>)
  have "commit pid s = Ok () s4"
    unfolding commit_def write_log_def install_trans_def using pos s1(1) s2(1) s3(1) s4(1) m1 m2 n_def by simp
  moreover have "commit_writes s = ?W1 @ [(st, H)] @ ?W3 @ [(st, header H 0 (lh_block s))]"
    unfolding commit_writes_def Let_def n_def [symmetric] st_def [symmetric] H_def bl_def log_writes_take by simp
  ultimately show ?thesis
    using s4(2,3,4) s3(3,4) s2(3,4) s1(3,4) m1 m2 m3 log_more [OF s4(5)]
    by (intro exI [of _ s4]) (simp add: st_def)
qed

subsection \<open>Recovery\<close>

text \<open>The state of a restarted kernel after \<^verbatim>\<open>binit\<close>: zeroed static data and the disk as it is.\<close>

definition restart :: "bytes \<Rightarrow> logst" where
  "restart im = binit
     \<lparr>bufs = replicate NBUF \<lparr>valid = False, bdev = 0, blockno = 0, blk_lock = initsleeplock, refcnt = 0, bdata = replicate 1024 0\<rparr>,
      lru = [], img = im, dwrites = [], woken = [],
      lstart = 0, outstanding = 0, committing = False, ldev = 0, lh_n = 0, lh_block = replicate LOGBLOCKS 0\<rparr>"

lemma foldl_Cons_rev: "foldl (\<lambda>l i. i # l) ys xs = rev xs @ ys"
  by (induction xs arbitrary: ys) simp_all

lemma restart_inv:
  "binv pid {} ((restart im)\<lparr>lstart := st, ldev := dv\<rparr>)" "cur ((restart im)\<lparr>lstart := st, ldev := dv\<rparr>) b = dblock im b"
  "rc ((restart im)\<lparr>lstart := st, ldev := dv\<rparr>) b = 0" "one_free ((restart im)\<lparr>lstart := st, ldev := dv\<rparr>)"
proof -
  let ?s = "(restart im)\<lparr>lstart := st, ldev := dv\<rparr>"
  have b: "bufs ?s ! i = \<lparr>valid = False, bdev = 0, blockno = 0, blk_lock = initsleeplock, refcnt = 0, bdata = replicate 1024 0\<rparr>"
    if "i < NBUF" for i using that by (simp add: restart_def binit_def)
  have l: "lru ?s = rev [0..<NBUF]" "length (bufs ?s) = NBUF"
    by (simp_all add: restart_def binit_def foldl_Cons_rev del: upt_Suc upt_rec_numeral)
  have nh: "\<not> holds_block ?s bn i" if "i < NBUF" for bn i using b [OF that] by (simp add: holds_block_def)
  show "binv pid {} ?s"
  proof (rule binvI)
    show "buf_ok pid (i \<in> {}) (img ?s) (bufs ?s ! i)" if "i < NBUF" for i
      unfolding b [OF that] by (simp add: buf_ok_def initsleeplock_def)
  qed (use l nh in \<open>auto simp del: upt_rec_numeral\<close>)
  have "cidx ?s b = None" using nh cidx_None by blast
  then show "cur ?s b = dblock im b" "rc ?s b = 0" by (simp_all add: cur_def rc_def restart_def binit_def)
  show "one_free ?s" unfolding one_free_def using b [of 0] by (intro exI [of _ 0]) simp
qed

text \<open>What recovery makes of a disk whose log header announces the blocks \<open>bl\<close>.\<close>

lemma initlog_ok:
  assumes n: "rd32 (dblock im st) 0 = of_nat (length bl)"
    and bl: "\<And>j. j < length bl \<Longrightarrow> rd32 (dblock im st) (4 + 4 * j) = bl ! j" and g: "geom im st bl"
  shows "\<exists>r. initlog pid ROOTDEV st (restart im) = Ok () r \<and> binv pid {} r \<and> lh_n r = 0 \<and> rd32 (dblock (img r) st) 0 = 0 \<and>
    (\<forall>x. in_disk im x \<longrightarrow> x \<notin> log_area st \<longrightarrow> dblock (img r) x = overlay (dblock im) (home_writes (dblock im) st bl 0 (length bl)) x)"
proof -
  let ?s = "(restart im)\<lparr>lstart := st, ldev := ROOTDEV\<rparr>"
  note v = restart_inv [where st = st and dv = ROOTDEV]
  have im: "img ?s = im" "length (lh_block ?s) = LOGBLOCKS" "lstart ?s = st" "ldev ?s = ROOTDEV"
    by (simp_all add: restart_def binit_def)
  have std: "in_disk im st" using geomD(1) [OF g, of 0] by simp
  let ?n = "length bl"
  have nle: "?n \<le> LOGBLOCKS" by (rule geomD(5) [OF g])
  obtain s1 where s1: "read_head pid ?s = Ok () s1" "binv pid {} s1" "img s1 = img ?s" "dwrites s1 = dwrites ?s"
    "\<And>x. cur s1 x = cur ?s x" "\<And>x. rc s1 x = rc ?s x" "lh_n s1 = int ?n" "length (lh_block s1) = LOGBLOCKS"
    "take ?n (lh_block s1) = map (\<lambda>j. rd32 (cur ?s (lstart ?s)) (4 + 4 * j)) [0..<?n]" "lstart s1 = lstart ?s" "ldev s1 = ldev ?s"
    by (rule read_head_ok [where s = ?s and n = ?n and pid = pid, OF v(1) im(4) _ v(4) _ _ nle im(2)])
      (use std im v n in \<open>(simp | blast)+\<close>)
  have tb: "take ?n (lh_block s1) = bl"
    unfolding s1(9) v(2) im(3) using bl by (intro nth_equalityI) simp_all
  let ?W = "home_writes (dblock im) st bl 0 ?n"
  have W: "?W = home_writes (cur s1) (lstart s1) bl 0 ?n" unfolding s1(10) im(3)
    by (rule home_writes_cong) (simp only: s1(5) v(2))
  have one: "one_free s1" using all_free [OF s1(2)] s1(6) v(3) two_one_free by simp
  have rcs: "if True then \<forall>x. rc s1 x = 0 else \<forall>i. 0 \<le> i \<longrightarrow> i < 0 + ?n \<longrightarrow> 0 < rc s1 (bl ! i)" using s1(6) v(3) by simp
  have "\<exists>s'. install_loop pid True 0 ?n s1 = Ok () s' \<and> binv pid {} s' \<and> img s' = apply_writes (img s1) ?W \<and>
     dwrites s' = dwrites s1 @ ?W \<and> bcache.more s' = bcache.more s1 \<and>
     (\<forall>x. in_disk (img s1) x \<longrightarrow> cur s' x = overlay (cur s1) ?W x) \<and>
     (\<forall>x. rc s' x = (if \<not> True \<and> x \<in> fst ` set ?W then rc s1 x - 1 else rc s1 x)) \<and> one_free s'"
    by (rule install_loop_ok [OF s1(2) _ _ tb _ one rcs _ W]) (use s1 im g v in simp_all)
  then obtain s2 where s2: "install_loop pid True 0 ?n s1 = Ok () s2" "binv pid {} s2" "img s2 = apply_writes im ?W"
     "bcache.more s2 = bcache.more s1" "\<And>x. in_disk im x \<Longrightarrow> cur s2 x = overlay (cur s1) ?W x" "\<And>x. rc s2 x = 0" "one_free s2"
    using s1(3,6) im(1) v(3) by auto
  note m2 = log_more [OF s2(4)]
  have d1: "length (dblock im (st + of_nat (Suc i))) = 1024" if "i < ?n" for i
    by (rule length_dblock, rule geomD(1) [OF g]) (use that nle in simp)
  have w: "writes_ok im ?W"
    using g d1 by (auto simp: writes_ok_def home_writes_def geom_def simp del: of_nat_Suc)
  let ?t = "s2\<lparr>lh_n := 0\<rparr>"
  have d2: "in_disk (img s2) x = in_disk im x" for x unfolding s2(3) by (rule apply_writes_in_disk [OF w])
  define H where "H = header (cur ?t (lstart ?t)) 0 (lh_block ?t)"
  obtain s3 where s3: "write_head pid ?t = Ok () s3" "binv pid {} s3" "img s3 = dput (img ?t) (lstart ?t) H"
    "bcache.more s3 = bcache.more ?t"
    by (rule write_head_ok [where s = ?t and n = 0 and pid = pid and H = H])
      (use s2(2,6,7) m2 s1(10,11) im std d2 in \<open>auto simp: log_upd_view H_def\<close>)
  have lt: "lstart ?t = st" "img ?t = img s2" using m2 s1(10) im by simp_all
  have c2: "length (cur ?t st) = 1024" using length_cur [OF s2(2)] d2 std by (simp add: log_upd_view)
  have lenH: "length H = 1024" unfolding H_def lt by (rule length_header [OF c2]) simp
  have db: "dblock (img s3) x = (if x = st then H else overlay (dblock im) ?W x)" if "in_disk im x" for x
    unfolding s3(3) lt using dblock_dput [OF lenH, of "img s2" st x] d2 std that dblock_overlay [OF w that] s2(3) by simp
  have "rd32 H 0 = of_nat 0" unfolding H_def lt by (rule header_n [OF c2]) simp
  then have z: "rd32 (dblock (img s3) st) 0 = 0" using db [OF std] by simp
  have "initlog pid ROOTDEV st (restart im) = Ok () s3"
    unfolding initlog_def recover_from_log_def install_trans_def s1(1) kbind_simps s1(7) nat_int s2(1) s3(1)
    by (simp add: BSIZE_def)
  moreover have "lh_n s3 = 0" using log_more [OF s3(4)] by simp
  ultimately show ?thesis using s3(2) z db area_start [of st] by (intro exI [of _ s3]) auto
qed

subsection \<open>Crash atomicity\<close>

lemma overlay_id:
  "overlay f (map (\<lambda>b. (b, g b)) bl) x = (if x \<in> set bl then g x else f x)"
  by (induction bl arbitrary: f) (auto simp: overlay_Cons)

lemma home_writes_map:
  "(\<And>i. i < length bl \<Longrightarrow> f (st + of_nat (Suc i)) = g (bl ! i)) \<Longrightarrow>
   home_writes f st bl 0 (length bl) = map (\<lambda>b. (b, g b)) bl"
  unfolding home_writes_def by (intro nth_equalityI) (simp_all del: of_nat_Suc)

lemma header_split: "fst ` set (take k (map (\<lambda>b. (b, g b)) bl)) \<subseteq> set bl"
  by (auto simp: take_map dest: in_set_takeD)

lemma home_outside: "fst ` set (map (\<lambda>b. (b, g b)) bl) = set bl"
  by (simp add: image_image)

text \<open>The disk after the first \<open>k\<close> writes of a commit of \<open>n\<close> blocks, and what it is recovered to.\<close>

lemma crash_point:
  assumes r: "commit_ready pid s" and z: "rd32 (dblock (img s) (lstart s)) 0 = 0"
    and bl: "bl = take n (lh_block s)" and n: "lh_n s = int n" and st: "st = lstart s"
    and im: "im = apply_writes (img s) (take k (commit_writes s))"
  shows "\<exists>t. initlog p ROOTDEV st (restart im) = Ok () t \<and> lh_n t = 0 \<and>
     (\<forall>x. in_disk (img s) x \<longrightarrow> x \<notin> log_area st \<longrightarrow>
        dblock (img t) x = (if k \<le> n then dblock (img s) x else if x \<in> set bl then cur s x else dblock (img s) x))"
proof -
  have rs: "binv pid {} s" "n \<le> LOGBLOCKS" "length (lh_block s) = LOGBLOCKS" "geom (img s) st bl"
    using r n by (auto simp: commit_ready_def bl st)
  have len: "length bl = n" using rs(2,3) by (simp add: bl)
  have std: "in_disk (img s) st" using geomD(1) [OF rs(4), of 0] by simp
  define H where "H = header (cur s st) n (lh_block s)"
  have lenH: "length H = 1024" unfolding H_def by (rule length_header [OF length_cur [OF rs(1) std] rs(2)])
  define L hm where "L = log_writes (cur s) st bl 0 n" and "hm = map (\<lambda>b. (b, cur s b)) bl"
  have C: "commit_writes s = L @ (st, H) # hm @ [(st, header H 0 (lh_block s))]"
    unfolding commit_writes_def Let_def n nat_int L_def hm_def H_def bl st log_writes_take by simp
  have lL: "length L = n" "length hm = n" by (simp_all add: L_def hm_def log_writes_def len)
  have L: "writes_ok (img s) L" unfolding L_def by (rule log_writes_ok [OF rs(1,4) len])
  have hm: "writes_ok (img s) hm" using rs(4) length_cur [OF rs(1)] by (auto simp: writes_ok_def geom_def hm_def)
  have lenH0: "length (header H 0 (lh_block s)) = 1024" by (rule length_header [OF lenH]) simp
  have W: "writes_ok (img s) (commit_writes s)" using L hm std lenH lenH0 unfolding C by (auto simp: writes_ok_def)
  have Wk: "writes_ok (img s) (take k (commit_writes s))" using W by (auto simp: writes_ok_def dest: in_set_takeD)
  have db: "dblock im x = overlay (dblock (img s)) (take k (commit_writes s)) x" if "in_disk (img s) x" for x
    unfolding im by (rule dblock_overlay [OF Wk that])
  have idm: "in_disk im x = in_disk (img s) x" for x unfolding im by (rule apply_writes_in_disk [OF Wk])
  have Lout: "x \<notin> fst ` set L" if "x = st \<or> x \<notin> log_area st" for x
  proof
    assume "x \<in> fst ` set L"
    then obtain i where "x = st + of_nat (Suc i)" "i < n" unfolding L_def fst_log_writes by auto
    then show False using that area_Suc [of i st] start_ne_Suc [of i st] rs(2) by auto
  qed
  have hout: "x \<notin> fst ` set hm" if "x \<in> log_area st" for x
    unfolding hm_def home_outside using rs(4) that by (auto simp: geom_def)
  have g: "geom im st bl" by (rule geom_same [OF rs(4) idm])
  have g0: "geom im st []" using g by (simp add: geom_def)
  consider (before) "k \<le> n" | (committed) "n < k" "k \<le> 2 * n + 1" | (erased) "2 * n + 1 < k" by linarith
  then show ?thesis
  proof cases
    case before
    then have t: "take k (commit_writes s) = take k L" unfolding C using lL by simp
    have d: "dblock im x = dblock (img s) x" if "in_disk (img s) x" "x = st \<or> x \<notin> log_area st" for x
      unfolding db [OF that(1)] t by (rule overlay_notin) (use Lout [OF that(2)] in \<open>auto dest: in_set_takeD\<close>)
    have "rd32 (dblock im st) 0 = of_nat (length ([] :: uint32 list))" using d [OF std] z st by simp
    then show ?thesis using initlog_ok [OF _ _ g0, of p] idm d before by auto
  next
    case committed
    define j where "j = k - n - 1"
    have k: "k = n + 1 + j" "j \<le> n" using committed by (simp_all add: j_def)
    have t: "take k (commit_writes s) = L @ (st, H) # take j hm" unfolding C using lL k by simp
    have hj: "x \<notin> fst ` set (take j hm)" if "x \<in> log_area st" for x using hout [OF that] by (auto dest: in_set_takeD)
    have dst: "dblock im st = H"
      unfolding db [OF std] t overlay_simps overlay_Cons using overlay_notin [OF hj [OF area_start]] by simp
    have dlog: "dblock im (st + of_nat (Suc i)) = cur s (bl ! i)" if "i < n" for i
    proof -
      have i: "Suc i \<le> LOGBLOCKS" "i < LOGBLOCKS" using that rs(2) by simp_all
      have "overlay (overlay (dblock (img s)) L) ((st, H) # take j hm) (st + of_nat (Suc i)) = overlay (dblock (img s)) L (st + of_nat (Suc i))"
        unfolding overlay_Cons overlay_notin [OF hj [OF area_Suc [OF i(2)]]] using start_ne_Suc [OF i(2), of st] by simp
      also have "\<dots> = cur s (bl ! i)" unfolding L_def by (rule log_writes_hit [OF rs(2) that])
      finally show ?thesis unfolding db [OF geomD(1) [OF rs(4) i(1)]] t overlay_simps .
    qed
    have dout: "dblock im x = dblock (img s) x" if "in_disk (img s) x" "x \<notin> log_area st" "x \<notin> set bl" for x
    proof -
      have "x \<notin> fst ` set (take j hm)" using header_split [of j "cur s" bl] that(3) by (auto simp: hm_def)
      then show ?thesis unfolding db [OF that(1)] t overlay_simps overlay_Cons
        using overlay_notin [OF Lout [of x]] that area_start [of st] by (auto simp: overlay_notin)
    qed
    have "rd32 (dblock im st) 0 = of_nat (length bl)" unfolding dst H_def len
      by (rule header_n [OF length_cur [OF rs(1) std] rs(2)])
    moreover have "rd32 (dblock im st) (4 + 4 * j) = bl ! j" if "j < length bl" for j
      using header_block [OF length_cur [OF rs(1) std] rs(2), of j "lh_block s"] that len unfolding dst H_def bl by simp
    moreover have "home_writes (dblock im) st bl 0 (length bl) = hm" unfolding hm_def
      by (rule home_writes_map) (simp add: dlog len del: of_nat_Suc)
    ultimately show ?thesis using initlog_ok [OF _ _ g, of p] idm dout committed(1)
      by (auto simp: hm_def overlay_id)
  next
    case erased
    then have t: "take k (commit_writes s) = L @ (st, H) # hm @ [(st, header H 0 (lh_block s))]" unfolding C using lL by simp
    have d: "dblock im x = (if x = st then header H 0 (lh_block s) else if x \<in> set bl then cur s x else dblock (img s) x)"
      if "in_disk (img s) x" "x = st \<or> x \<notin> log_area st" for x
      unfolding db [OF that(1)] t using overlay_notin [OF Lout [OF that(2)]]
      by (auto simp: overlay_Cons overlay_id hm_def)
    have "rd32 (dblock im st) 0 = of_nat (length ([] :: uint32 list))"
      using d [OF std] header_n [OF lenH, of 0] by simp
    then show ?thesis using initlog_ok [OF _ _ g0, of p] idm d erased area_start [of st] by auto
  qed
qed

subsection \<open>Properties\<close>

text \<open>Property C1: a transaction is atomic with respect to crashes. \<^verbatim>\<open>commit\<close> succeeds, and if the
  machine stops after any number \<open>k\<close> of its disk writes, \<^verbatim>\<open>initlog\<close> on the restarted kernel
  succeeds, leaves an empty log, and makes every block outside the log area what it was on the
  disk before the commit (when at most the log blocks were written) or what the transaction
  made it (as soon as the header was written).\<close>

theorem commit_crash_atomic:
  assumes "commit_ready pid s" and "0 < lh_n s" and "rd32 (dblock (img s) (lstart s)) 0 = 0"
  shows "\<exists>s' W. commit pid s = Ok () s' \<and> dwrites s' = dwrites s @ W \<and> img s' = apply_writes (img s) W \<and>
    nat (lh_n s) < length W \<and>
    (\<forall>k. \<exists>t. initlog p ROOTDEV (lstart s) (restart (apply_writes (img s) (take k W))) = Ok () t \<and> lh_n t = 0 \<and>
      (\<forall>x. in_disk (img s) x \<longrightarrow> x \<notin> log_area (lstart s) \<longrightarrow>
         dblock (img t) x = (if k \<le> nat (lh_n s) then dblock (img s) x
           else if x \<in> set (take (nat (lh_n s)) (lh_block s)) then cur s x else dblock (img s) x)))"
proof -
  obtain s' where s': "commit pid s = Ok () s'" "dwrites s' = dwrites s @ commit_writes s"
      "img s' = apply_writes (img s) (commit_writes s)"
    using commit_trace [OF assms(1,2)] by blast
  have "nat (lh_n s) < length (commit_writes s)" by (simp add: commit_writes_def Let_def log_writes_def)
  moreover have "lh_n s = int (nat (lh_n s))" using assms(2) by simp
  note crash_point [OF assms(1,3) refl this refl refl]
  ultimately show ?thesis using s' by blast
qed

definition one_block :: logst where
  "one_block = put_buf 0 \<lparr>valid = True, bdev = ROOTDEV, blockno = 40, blk_lock = initsleeplock, refcnt = 1, bdata = replicate 1024 7\<rparr>
     ((restart (replicate 65536 0))\<lparr>lstart := 2, ldev := ROOTDEV, lh_n := 1, lh_block := (replicate LOGBLOCKS 0)[0 := 40]\<rparr>)"

lemma one_block_ready: "commit_ready pid one_block" "lh_n one_block = 1" "lstart one_block = 2" "img one_block = replicate 65536 0"
proof -
  let ?r = "(restart (replicate 65536 0))\<lparr>lstart := 2, ldev := ROOTDEV\<rparr>"
  let ?s = "?r\<lparr>lh_n := 1, lh_block := (replicate LOGBLOCKS 0)[0 := 40]\<rparr>"
  let ?B = "\<lparr>valid = True, bdev = ROOTDEV, blockno = 40, blk_lock = initsleeplock, refcnt = 1, bdata = replicate 1024 7\<rparr>"
  note v = restart_inv [where st = 2 and dv = ROOTDEV and im = "replicate 65536 0"]
  have o: "one_block = put_buf 0 ?B ?s" by (simp only: one_block_def)
  have im: "img ?s = replicate 65536 0" by (simp add: restart_def binit_def)
  show n: "lh_n one_block = 1" and st: "lstart one_block = 2" and img: "img one_block = replicate 65536 0"
    unfolding o using im by simp_all
  have inv: "binv pid {} ?s" using v(1) by (simp only: log_upd_view)
  have rcs: "rc ?s b = 0" for b using v(3) by (simp only: log_upd_view)
  have nh: "\<not> holds_block ?s b i" if "i < NBUF" for b i
    using that by (simp add: holds_block_def restart_def binit_def)
  have id: "in_disk (replicate 65536 0) b \<longleftrightarrow> unat b < 64" for b by (auto simp: in_disk_def)
  have inv': "binv pid {} one_block" unfolding o
    by (rule put_buf_binv [OF inv]) (use nh im id in \<open>auto simp: buf_ok_def initsleeplock_def cidx_None restart_def binit_def\<close>)
  have rc: "rc one_block b = (if b = 40 then 1 else 0)" for b
    using rc_put_buf [OF inv inv' [unfolded o], of b] rcs nh [of 0] by (simp add: o)
  have lb: "lh_block one_block = (replicate LOGBLOCKS 0)[0 := 40]" unfolding o by simp
  have bl: "take (nat (lh_n one_block)) (lh_block one_block) = [40]" "length (lh_block one_block) = LOGBLOCKS"
    unfolding n lb using take_Suc_conv_app_nth [of 0 "(replicate LOGBLOCKS 0)[0 := 40 :: uint32]"] by simp_all
  have area: "a \<in> log_area 2 \<Longrightarrow> unat a < 40" for a
    by (auto simp: log_area_def unat_word_ariths unat_of_nat)
  have "one_free one_block" unfolding one_free_def o
    by (intro exI [of _ 1]) (simp add: restart_def binit_def)
  moreover have "ldev one_block = ROOTDEV" unfolding o by simp
  moreover have "geom (img one_block) (lstart one_block) [40]"
    unfolding geom_def img st id using area by force
  ultimately show "commit_ready pid one_block"
    unfolding commit_ready_def bl(1) using inv' bl(2) n rc area st by force
qed

theorem commit_crash_atomic_witness:
  "\<exists>s' W. commit 1 one_block = Ok () s' \<and> dwrites s' = dwrites one_block @ W \<and> 1 < length W \<and>
    (\<exists>t. initlog 2 ROOTDEV 2 (restart (apply_writes (replicate 65536 0) (take 2 W))) = Ok () t \<and> lh_n t = 0)"
proof -
  have "(0::int) < lh_n one_block" "rd32 (dblock (img one_block) (lstart one_block)) 0 = 0"
    unfolding one_block_ready by (simp_all add: rd32_def rd_def dblock_def BSIZE_def)
  from commit_crash_atomic [OF one_block_ready(1) this, of 1 2]
  obtain s' W where w: "commit 1 one_block = Ok () s'" "dwrites s' = dwrites one_block @ W" "nat (lh_n one_block) < length W"
    and k: "\<And>k. \<exists>t. initlog 2 ROOTDEV (lstart one_block) (restart (apply_writes (img one_block) (take k W))) = Ok () t \<and> lh_n t = 0"
    by (elim exE conjE) metis
  show ?thesis using w k [of 2] unfolding one_block_ready by (intro exI [of _ s'] exI [of _ W]) simp
qed

end
