(* ===== verification/Kalloc.thy ===== *)
theory Kalloc
  imports Kstring
begin

section \<open>The physical page allocator\<close>

text \<open>
  \<^verbatim>\<open>kernel/kalloc.c\<close>: a free list threaded through the first eight bytes of the free pages,
  and a reference count per page for copy-on-write sharing. The state is physical memory,
  the head of the list, the array of counts and the linker symbol \<^verbatim>\<open>end\<close>, the first
  address after the kernel (\<open>kend\<close>, which no operation changes). Each operation runs with
  \<^verbatim>\<open>kmem.lock\<close> held or on data no other processor can reach, so it is one step here.

  The lemmas abstract the chain in memory to a list of pages: \<open>kmem_inv s fl\<close> says that
  the pages on the chain are \<open>fl\<close>, each once, with count 0, and that every other page the
  allocator manages has a positive count. All operations keep it.
\<close>

record kmem =
  mem :: memory
  freelist :: addr
  krefcount :: "uint64 \<Rightarrow> int"
  kend :: addr

definition KREF_INDEX :: "uint64 \<Rightarrow> uint64" where
  "KREF_INDEX pa = (pa - KERNBASE) div PGSIZE"

definition KREF_COUNT :: uint64 where
  "KREF_COUNT = (PHYSTOP - KERNBASE) div PGSIZE"

definition set_ref :: "uint64 \<Rightarrow> int \<Rightarrow> kmem \<Rightarrow> kmem" where
  "set_ref idx v s = s\<lparr>krefcount := (krefcount s)(idx := v)\<rparr>"

definition krefpage :: "addr \<Rightarrow> kmem \<Rightarrow> kmem" where
  "krefpage pa s =
     (let idx = KREF_INDEX pa
      in if idx \<ge> KREF_COUNT then s else set_ref idx (krefcount s idx + 1) s)"

definition kgetref :: "addr \<Rightarrow> kmem \<Rightarrow> int" where
  "kgetref pa s =
     (let idx = KREF_INDEX pa in if idx \<ge> KREF_COUNT then 1 else krefcount s idx)"

definition kfree :: "addr \<Rightarrow> kmem \<Rightarrow> (kmem, unit) res" where
  "kfree pa s =
     (if pa mod PGSIZE \<noteq> 0 \<or> pa < kend s \<or> pa \<ge> PHYSTOP then Panic ''kfree''
      else let idx = KREF_INDEX pa
           in if idx < KREF_COUNT \<and> krefcount s idx > 1
              then Ok () (set_ref idx (krefcount s idx - 1) s)
              else let s1 = (if idx < KREF_COUNT then set_ref idx 0 s else s);
                       m1 = memset (mem s1) pa 1 4096;
                       m2 = st64 m1 pa (freelist s1)
                   in Ok () (s1\<lparr>mem := m2, freelist := pa\<rparr>))"

definition kalloc :: "kmem \<Rightarrow> (kmem, addr) res" where
  "kalloc s =
     (let r = freelist s
      in if r \<noteq> 0
         then let s1 = s\<lparr>freelist := ld64 (mem s) r\<rparr>;
                  s2 = s1\<lparr>mem := memset (mem s1) r 0 4096\<rparr>
              in Ok r (set_ref (KREF_INDEX r) 1 s2)
         else Ok r s)"

lemma kinit_progress:
  assumes "p + PGSIZE \<le> PHYSTOP"
  shows "unat (PHYSTOP - (p + PGSIZE)) < unat (PHYSTOP - p)"
proof -
  have "unat (PHYSTOP - (p + PGSIZE)) = unat PHYSTOP - unat (p + PGSIZE)"
    using assms by (rule unat_sub)
  then have "unat (PHYSTOP - (p + PGSIZE)) + 4096 < 2 ^ 64" by simp
  then have "unat ((PHYSTOP - (p + PGSIZE)) + 4096) = unat (PHYSTOP - (p + PGSIZE)) + 4096"
    unfolding unat_word_ariths by simp
  moreover have "PHYSTOP - p = (PHYSTOP - (p + PGSIZE)) + 4096" by simp
  ultimately show ?thesis by simp
qed

function kinit_loop :: "addr \<Rightarrow> kmem \<Rightarrow> (kmem, unit) res" where
  "kinit_loop p s =
     (if p + PGSIZE \<le> PHYSTOP
      then kbind (kfree p (set_ref (KREF_INDEX p) 1 s)) (\<lambda>_ s'. kinit_loop (p + PGSIZE) s')
      else Ok () s)"
  by pat_completeness auto
termination
  by (relation "measure (\<lambda>(p, s). unat (PHYSTOP - p))") (auto simp only: in_measure prod.case kinit_progress wf_measure)

declare kinit_loop.simps [simp del]

definition kinit :: "kmem \<Rightarrow> (kmem, unit) res" where
  "kinit s = kinit_loop (PGROUNDUP (kend s)) s"

subsection \<open>Managed pages and their counts\<close>

definition frame :: "kmem \<Rightarrow> addr \<Rightarrow> bool" where
  "frame s p \<longleftrightarrow> pgaligned p \<and> kend s \<le> p \<and> p < PHYSTOP"

definition refs :: "kmem \<Rightarrow> addr \<Rightarrow> int" where
  "refs s p = krefcount s (KREF_INDEX p)"

definition kernel_end_ok :: "kmem \<Rightarrow> bool" where
  "kernel_end_ok s \<longleftrightarrow> KERNBASE \<le> kend s \<and> kend s \<le> PHYSTOP"

lemma frame_unat:
  assumes "kernel_end_ok s" and "frame s p"
  shows "0x200000 \<le> unat p \<and> unat p < 0x200000 + 1022 * 1024 * 1024 \<and> unat p mod 4096 = 0"
  using assms unfolding kernel_end_ok_def frame_def pgaligned_unat
  by (auto simp: word_le_nat_alt word_less_nat_alt)

lemma frame_neq0: "kernel_end_ok s \<Longrightarrow> frame s p \<Longrightarrow> p \<noteq> 0"
  using frame_unat by force

lemma unat_KREF_INDEX:
  assumes "kernel_end_ok s" and "frame s p"
  shows "unat (KREF_INDEX p) = unat p div 4096 - 512"
proof -
  have "unat (p - KERNBASE) = unat p - 0x200000"
    using frame_unat [OF assms] by (subst unat_sub) (auto simp: word_le_nat_alt)
  then have "unat (KREF_INDEX p) = (unat p - 0x200000) div 4096"
    by (simp add: KREF_INDEX_def unat_div_distrib)
  also have "\<dots> = unat p div 4096 - 512"
    using div_mult_self1 [of 4096 "unat p - 0x200000" 512] frame_unat [OF assms] by simp
  finally show ?thesis .
qed

lemma KREF_COUNT_eq: "KREF_COUNT = 261632"
  by (simp add: KREF_COUNT_def)

lemma KREF_INDEX_lt: "kernel_end_ok s \<Longrightarrow> frame s p \<Longrightarrow> KREF_INDEX p < KREF_COUNT"
  using unat_KREF_INDEX [of s p] frame_unat [of s p] div_less_iff_less_mult [of 4096 "unat p" 262144]
  by (simp add: KREF_COUNT_eq word_less_nat_alt)

lemma KREF_INDEX_inj:
  assumes "kernel_end_ok s" "frame s p" "frame s q" "KREF_INDEX p = KREF_INDEX q"
  shows "p = q"
proof -
  have "unat p div 4096 - 512 = unat q div 4096 - 512"
    using assms unat_KREF_INDEX by metis
  moreover have "512 \<le> unat p div 4096" "512 \<le> unat q div 4096"
    using frame_unat [OF assms(1,2)] frame_unat [OF assms(1,3)] by linarith+
  ultimately show ?thesis
    using assms(2,3) by (intro pgaligned_eqI) (auto simp: frame_def)
qed

lemma set_ref_simps [simp]:
  "mem (set_ref i v s) = mem s" "freelist (set_ref i v s) = freelist s" "kend (set_ref i v s) = kend s"
  "frame (set_ref i v s) = frame s" "kernel_end_ok (set_ref i v s) = kernel_end_ok s"
  by (auto simp: set_ref_def frame_def kernel_end_ok_def fun_eq_iff)

lemma frame_update [simp]:
  "frame (s\<lparr>mem := m\<rparr>) = frame s" "frame (s\<lparr>freelist := l\<rparr>) = frame s"
  "kernel_end_ok (s\<lparr>mem := m\<rparr>) = kernel_end_ok s" "kernel_end_ok (s\<lparr>freelist := l\<rparr>) = kernel_end_ok s"
  "refs (s\<lparr>mem := m\<rparr>) = refs s" "refs (s\<lparr>freelist := l\<rparr>) = refs s"
  by (auto simp: frame_def kernel_end_ok_def refs_def fun_eq_iff)

lemma refs_set_ref:
  "kernel_end_ok s \<Longrightarrow> frame s p \<Longrightarrow> frame s q \<Longrightarrow>
   refs (set_ref (KREF_INDEX p) v s) q = (if q = p then v else refs s q)"
  using KREF_INDEX_inj [of s p q] by (auto simp: refs_def set_ref_def)

subsection \<open>The chain of free pages\<close>

fun chain :: "memory \<Rightarrow> addr \<Rightarrow> addr list \<Rightarrow> bool" where
  "chain m p [] \<longleftrightarrow> p = 0"
| "chain m p (x # xs) \<longleftrightarrow> p = x \<and> x \<noteq> 0 \<and> chain m (ld64 m x) xs"

lemma chain_det: "chain m p xs \<Longrightarrow> chain m p ys \<Longrightarrow> xs = ys"
proof (induction xs arbitrary: p ys)
  case Nil
  then show ?case by (cases ys) auto
next
  case (Cons x xs)
  then show ?case by (cases ys) auto
qed

lemma chain_cong: "chain m p xs \<Longrightarrow> (\<And>x. x \<in> set xs \<Longrightarrow> ld64 m' x = ld64 m x) \<Longrightarrow> chain m' p xs"
  by (induction xs arbitrary: p) auto

definition kmem_ok :: "kmem \<Rightarrow> addr list \<Rightarrow> bool" where
  "kmem_ok s fl \<longleftrightarrow> kernel_end_ok s \<and> chain (mem s) (freelist s) fl \<and> distinct fl \<and>
     (\<forall>p \<in> set fl. frame s p \<and> refs s p = 0)"

definition kmem_inv :: "kmem \<Rightarrow> addr list \<Rightarrow> bool" where
  "kmem_inv s fl \<longleftrightarrow> kmem_ok s fl \<and> (\<forall>p. frame s p \<and> p \<notin> set fl \<longrightarrow> 0 < refs s p)"

lemma kmem_inv_det: "kmem_inv s fl \<Longrightarrow> kmem_inv s fl' \<Longrightarrow> fl = fl'"
  by (auto simp: kmem_inv_def kmem_ok_def intro: chain_det)

lemma pgaligned_mod8: "pgaligned p \<Longrightarrow> unat p mod 8 = 0"
proof -
  assume "pgaligned p"
  then have "4096 dvd unat p" by (simp add: pgaligned_unat mod_eq_0_iff_dvd)
  then have "8 dvd unat p" by (rule dvd_trans [rotated]) simp
  then show ?thesis by simp
qed

lemma page_neq: "pgaligned p \<Longrightarrow> pgaligned q \<Longrightarrow> p \<noteq> q \<Longrightarrow> unat p div 4096 \<noteq> unat q div 4096"
  using pgaligned_eqI by blast

lemma chain_agree:
  "\<lbrakk> chain m q fl; agree {p} m m'; pgaligned p; \<forall>x \<in> set fl. pgaligned x; p \<notin> set fl \<rbrakk>
   \<Longrightarrow> chain m' q fl"
  by (erule chain_cong) (metis PGROUNDDOWN_id agree_ld64 pgaligned_mod8 singletonD)

lemma chain_agree_set:
  "\<lbrakk> chain m q fl; agree S m m'; \<forall>x \<in> set fl. pgaligned x; S \<inter> set fl = {} \<rbrakk> \<Longrightarrow> chain m' q fl"
  by (erule chain_cong) (metis PGROUNDDOWN_id agree_ld64 disjoint_iff pgaligned_mod8)

lemma kmem_inv_mem:
  assumes "kmem_inv s fl" and "agree S (mem s) m'" and "S \<inter> set fl = {}"
  shows "kmem_inv (s\<lparr>mem := m'\<rparr>) fl"
  using assms chain_agree_set [of "mem s" "freelist s" fl S m']
  by (auto simp: kmem_inv_def kmem_ok_def frame_def)

subsection \<open>What the operations do\<close>

lemma memset_page: "memset m p 0 4096 = fill m p 0 4096" "memset m p 1 4096 = fill m p 1 4096"
  by (simp_all add: memset_fill)

lemma kalloc_nil: "kmem_ok s [] \<Longrightarrow> kalloc s = Ok 0 s"
  by (simp add: kmem_ok_def kalloc_def)

lemma kalloc_cons:
  assumes inv: "kmem_ok s (p # fl)"
  shows "kalloc s = Ok p (set_ref (KREF_INDEX p) 1
                            (s\<lparr>freelist := ld64 (mem s) p, mem := fill (mem s) p 0 4096\<rparr>))"
  using assms by (auto simp: kmem_ok_def kalloc_def Let_def memset_page)

lemma kalloc_kmem_ok:
  assumes inv: "kmem_ok s (p # fl)" and k: "kalloc s = Ok p s'"
  shows "kmem_ok s' fl \<and> refs s' p = 1 \<and> (\<forall>q. frame s q \<and> q \<noteq> p \<longrightarrow> refs s' q = refs s q)
       \<and> mem s' = fill (mem s) p 0 4096 \<and> kend s' = kend s"
proof -
  from inv have a: "kernel_end_ok s" "frame s p" "pgaligned p" and c: "chain (mem s) (ld64 (mem s) p) fl"
    and d: "distinct fl" "p \<notin> set fl" and fr: "\<forall>q \<in> set fl. frame s q \<and> refs s q = 0"
    by (auto simp: kmem_ok_def frame_def)
  have s': "s' = set_ref (KREF_INDEX p) 1 (s\<lparr>freelist := ld64 (mem s) p, mem := fill (mem s) p 0 4096\<rparr>)"
    using k kalloc_cons [OF inv] by simp
  have r: "refs s' q = (if q = p then 1 else refs s q)" if "frame s q" for q
    unfolding s' using a that by (subst refs_set_ref) auto
  have "chain (fill (mem s) p 0 4096) (ld64 (mem s) p) fl"
    using c a fr d by (intro chain_agree [OF c agree_fill]) (auto simp: frame_def)
  with a d fr r show ?thesis by (auto simp: kmem_ok_def s')
qed

lemma kalloc_kmem_inv:
  assumes "kmem_inv s (p # fl)" and "kalloc s = Ok p s'"
  shows "kmem_inv s' fl"
proof -
  have f: "frame s' = frame s" using assms kalloc_cons [of s p fl] by (auto simp: kmem_inv_def)
  have ok: "kmem_ok s (p # fl)" using assms(1) by (simp add: kmem_inv_def)
  note k = kalloc_kmem_ok [OF ok assms(2)]
  have "0 < refs s' q" if "frame s q" "q \<notin> set fl" for q
    using k that assms(1) by (cases "q = p") (auto simp: kmem_inv_def)
  then show ?thesis using k f by (simp add: kmem_inv_def)
qed

lemma kfree_bad: "\<not> frame s pa \<Longrightarrow> kfree pa s = Panic ''kfree''"
proof -
  assume "\<not> frame s pa"
  then have "pa mod PGSIZE \<noteq> 0 \<or> pa < kend s \<or> pa \<ge> PHYSTOP"
    unfolding frame_def pgaligned_def by (meson leI)
  then show ?thesis unfolding kfree_def by (simp only: if_True)
qed

lemma kfree_shared:
  "\<lbrakk> kernel_end_ok s; frame s pa; 1 < refs s pa \<rbrakk> \<Longrightarrow>
   kfree pa s = Ok () (set_ref (KREF_INDEX pa) (refs s pa - 1) s)"
  using KREF_INDEX_lt [of s pa] by (auto simp: frame_def kfree_def pgaligned_def refs_def Let_def)

lemma kfree_last:
  "\<lbrakk> kernel_end_ok s; frame s pa; refs s pa \<le> 1 \<rbrakk> \<Longrightarrow>
   kfree pa s = Ok () ((set_ref (KREF_INDEX pa) 0 s)
                 \<lparr>mem := st64 (fill (mem s) pa 1 4096) pa (freelist s), freelist := pa\<rparr>)"
  using KREF_INDEX_lt [of s pa]
  by (auto simp: frame_def kfree_def pgaligned_def refs_def Let_def memset_page)

lemma kfree_last_kmem_ok:
  assumes inv: "kmem_ok s fl" and p: "frame s p" "p \<notin> set fl" "refs s p \<le> 1" and k: "kfree p s = Ok () s'"
  shows "kmem_ok s' (p # fl) \<and> (\<forall>q. frame s q \<and> q \<noteq> p \<longrightarrow> refs s' q = refs s q)
       \<and> agree {p} (mem s) (mem s') \<and> kend s' = kend s"
proof -
  from inv have a: "kernel_end_ok s" "pgaligned p" and c: "chain (mem s) (freelist s) fl"
    and d: "distinct fl" and fr: "\<forall>q \<in> set fl. frame s q \<and> refs s q = 0"
    using p by (auto simp: kmem_ok_def frame_def)
  define m where "m = st64 (fill (mem s) p 1 4096) p (freelist s)"
  have s': "s' = (set_ref (KREF_INDEX p) 0 s)\<lparr>mem := m, freelist := p\<rparr>"
    using k kfree_last [OF a(1) p(1,3)] by (simp add: m_def)
  have so: "agree {p} (mem s) m"
    unfolding m_def using agree_trans [OF agree_fill [OF a(2)] agree_st64 [OF pgaligned_mod8 [OF a(2)]]] a(2)
    by (simp add: PGROUNDDOWN_id)
  have r: "refs s' q = (if q = p then 0 else refs s q)" if "frame s q" for q
    unfolding s' using a p that by (simp add: refs_set_ref)
  have "chain m (freelist s) fl"
    using c a fr p so by (intro chain_agree [OF c so]) (auto simp: frame_def)
  moreover have "ld64 m p = freelist s" by (simp add: m_def)
  moreover have "p \<noteq> 0" using frame_neq0 a p by blast
  ultimately show ?thesis using a d fr r p so by (auto simp: kmem_ok_def s')
qed

lemma kfree_kmem_inv:
  assumes inv: "kmem_inv s fl" and p: "frame s p" "p \<notin> set fl" and k: "kfree p s = Ok () s'"
  shows "kmem_inv s' (if refs s p = 1 then p # fl else fl)"
proof -
  have ok: "kmem_ok s fl" and ke: "kernel_end_ok s" using inv by (auto simp: kmem_inv_def kmem_ok_def)
  have pos: "0 < refs s p" using inv p by (simp add: kmem_inv_def)
  show ?thesis
  proof (cases "refs s p = 1")
    case True
    note l = kfree_last_kmem_ok [OF ok p _ k]
    have "frame s' = frame s" using l True by (auto simp: frame_def fun_eq_iff)
    with l True inv show ?thesis by (auto simp: kmem_inv_def)
  next
    case False
    with pos have s': "s' = set_ref (KREF_INDEX p) (refs s p - 1) s"
      using k kfree_shared [OF ke p(1)] by simp
    have r: "refs s' q = (if q = p then refs s p - 1 else refs s q)" if "frame s q" for q
      unfolding s' using ke p that by (simp add: refs_set_ref)
    have "refs s' q = 0" if "q \<in> set fl" for q
      using r [of q] ok p that by (auto simp: kmem_ok_def)
    moreover have "0 < refs s' q" if "frame s q" "q \<notin> set fl" for q
      using r [OF that(1)] inv that pos False by (auto simp: kmem_inv_def)
    ultimately show ?thesis using ok False by (auto simp: kmem_inv_def kmem_ok_def s')
  qed
qed


lemma krefpage_kmem_inv:
  assumes inv: "kmem_inv s fl" and p: "frame s p" "p \<notin> set fl"
  shows "kmem_inv (krefpage p s) fl \<and> refs (krefpage p s) p = refs s p + 1
       \<and> (\<forall>q. frame s q \<and> q \<noteq> p \<longrightarrow> refs (krefpage p s) q = refs s q)"
proof -
  have ok: "kmem_ok s fl" and ke: "kernel_end_ok s" using inv by (auto simp: kmem_inv_def kmem_ok_def)
  have s': "krefpage p s = set_ref (KREF_INDEX p) (refs s p + 1) s"
    using KREF_INDEX_lt [OF ke p(1)] by (simp add: krefpage_def refs_def Let_def)
  have r: "refs (krefpage p s) q = (if q = p then refs s p + 1 else refs s q)" if "frame s q" for q
    unfolding s' using ke p that by (simp add: refs_set_ref)
  have "0 < refs s p" using inv p by (simp add: kmem_inv_def)
  then show ?thesis using r inv p
    by (auto simp: kmem_inv_def kmem_ok_def s')
qed

lemma kgetref_frame: "kernel_end_ok s \<Longrightarrow> frame s p \<Longrightarrow> kgetref p s = refs s p"
  using KREF_INDEX_lt [of s p] by (auto simp: kgetref_def refs_def Let_def dest: leD)

subsection \<open>Initialisation\<close>

lemma kinit_step:
  assumes ok: "kmem_ok s fl" and p: "frame s p" "p \<notin> set fl"
  shows "\<exists>s'. kfree p (set_ref (KREF_INDEX p) 1 s) = Ok () s' \<and> kmem_ok s' (p # fl) \<and> kend s' = kend s"
proof -
  let ?s = "set_ref (KREF_INDEX p) 1 s"
  have ke: "kernel_end_ok s" using ok by (simp add: kmem_ok_def)
  have "kmem_ok ?s fl" "refs ?s p = 1"
    using ok p ke by (auto simp: kmem_ok_def refs_set_ref)
  moreover obtain s' where "kfree p ?s = Ok () s'"
    using kfree_last [of ?s p] ke p \<open>refs ?s p = 1\<close> by simp
  ultimately show ?thesis using kfree_last_kmem_ok [of ?s fl p s'] p by simp
qed

lemma kinit_loop_ok:
  "\<lbrakk> kmem_ok s fl; pgaligned p; kend s \<le> p; p \<le> PHYSTOP; set fl = {q. frame s q \<and> q < p} \<rbrakk> \<Longrightarrow>
   \<exists>s' fl'. kinit_loop p s = Ok () s' \<and> kmem_ok s' fl' \<and> kend s' = kend s \<and> set fl' = {q. frame s q}"
proof (induction p s arbitrary: fl rule: kinit_loop.induct)
  case (1 p s)
  have le: "unat p \<le> 1073741824" using "1.prems"(4) by (simp add: word_le_nat_alt)
  then have up: "unat (p + PGSIZE) = unat p + 4096" by (simp add: unat_word_ariths)
  show ?case
  proof (cases "p + PGSIZE \<le> PHYSTOP")
    case True
    then have lt: "p < PHYSTOP" using up by (simp add: word_le_nat_alt word_less_nat_alt)
    then have fp: "frame s p" using "1.prems" by (simp add: frame_def)
    have "p \<notin> set fl" using "1.prems"(5) by simp
    then obtain s' where s': "kfree p (set_ref (KREF_INDEX p) 1 s) = Ok () s'"
        "kmem_ok s' (p # fl)" "kend s' = kend s"
      using kinit_step [OF "1.prems"(1) fp] by blast
    have fr: "frame s' = frame s" using s'(3) by (simp add: frame_def fun_eq_iff)
    have "q < p + PGSIZE \<longleftrightarrow> q = p \<or> q < p" if f: "frame s q" for q
    proof -
      obtain b where "unat q = 4096 * b" using f pgalignedE [of q] unfolding frame_def by metis
      moreover obtain c where "unat p = 4096 * c" using "1.prems"(2) by (rule pgalignedE)
      ultimately show ?thesis unfolding word_less_nat_alt up word_unat_eq_iff by auto
    qed
    then have "set (p # fl) = {q. frame s' q \<and> q < p + PGSIZE}"
      using "1.prems"(5) fp fr by auto
    moreover have "kend s' \<le> p + PGSIZE"
      using "1.prems"(3) s'(3) up by (simp add: word_le_nat_alt)
    moreover have "pgaligned (p + PGSIZE)" using "1.prems"(2) by (simp add: pgaligned_add)
    ultimately show ?thesis
      using "1.IH" [OF True s'(1), of "p # fl"] True s' fr
      by (simp add: kinit_loop.simps [of p s])
  next
    case False
    then have "unat p > 1073741824 - 4096" using up by (simp add: word_le_nat_alt)
    moreover obtain c where c: "unat p = 4096 * c" using "1.prems"(2) by (rule pgalignedE)
    ultimately have "c = 262144" using le by linarith
    then have "unat p = 1073741824" using c by simp
    then have "p = PHYSTOP" by (simp add: word_unat_eq_iff)
    then have "set fl = {q. frame s q}" using "1.prems"(5) by (auto simp: frame_def)
    then show ?thesis using False "1.prems"(1) by (auto simp: kinit_loop.simps [of p s])
  qed
qed

lemma kinit_all_free:
  assumes ke: "kernel_end_ok s" and "freelist s = 0"
  shows "\<exists>s' fl. kinit s = Ok () s' \<and> kmem_inv s' fl \<and> set fl = {p. frame s p} \<and> kend s' = kend s"
proof -
  have le: "unat (kend s) \<le> 1073741824" using ke by (simp add: kernel_end_ok_def word_le_nat_alt)
  then have up: "unat (PGROUNDUP (kend s)) = (unat (kend s) + 4095) div 4096 * 4096"
    by (intro unat_PGROUNDUP) simp
  have "kmem_ok s []" using assms by (simp add: kmem_ok_def)
  moreover have "kend s \<le> PGROUNDUP (kend s)" "PGROUNDUP (kend s) \<le> PHYSTOP"
    using up le by (auto simp: word_le_nat_alt)
  moreover have "\<not> (frame s q \<and> q < PGROUNDUP (kend s))" for q
  proof
    assume q: "frame s q \<and> q < PGROUNDUP (kend s)"
    then obtain b where "unat q = 4096 * b" using pgalignedE [of q] unfolding frame_def by metis
    with q up show False by (auto simp: frame_def word_le_nat_alt word_less_nat_alt)
  qed
  ultimately obtain s' fl where "kinit_loop (PGROUNDUP (kend s)) s = Ok () s'"
      "kmem_ok s' fl" "kend s' = kend s" "set fl = {q. frame s q}"
    using kinit_loop_ok [of s "[]" "PGROUNDUP (kend s)"] by auto
  then show ?thesis by (auto simp: kinit_def kmem_inv_def frame_def)
qed

subsection \<open>The interface of the allocator\<close>

text \<open>
  What the clients of the allocator use: the free pages form a list without repetition,
  an allocation takes the first one or reports that there is none, and freeing a page whose
  last reference this is puts it in front. \<open>alloc_n\<close> is a client that allocates several
  pages, as the loops of \<^verbatim>\<open>vm.c\<close> do.
\<close>

fun alloc_n :: "('s \<Rightarrow> ('s, addr) res) \<Rightarrow> nat \<Rightarrow> 's \<Rightarrow> ('s, addr list) res" where
  "alloc_n al 0 s = Ok [] s"
| "alloc_n al (Suc n) s =
     kbind (al s) (\<lambda>p s. if p = 0 then Ok [] s else kbind (alloc_n al n s) (\<lambda>ps s. Ok (p # ps) s))"

locale page_pool =
  fixes pool :: "'s \<Rightarrow> addr list \<Rightarrow> bool"
    and al :: "'s \<Rightarrow> ('s, addr) res"
    and fr :: "addr \<Rightarrow> 's \<Rightarrow> ('s, unit) res"
    and last_ref :: "'s \<Rightarrow> addr \<Rightarrow> bool"
  assumes pool_distinct: "pool s fl \<Longrightarrow> distinct fl \<and> 0 \<notin> set fl"
    and al_none: "pool s [] \<Longrightarrow> al s = Ok 0 s"
    and al_some: "pool s (p # fl) \<Longrightarrow> \<exists>s'. al s = Ok p s' \<and> pool s' fl \<and> last_ref s' p"
    and fr_last: "pool s fl \<Longrightarrow> last_ref s p \<Longrightarrow> p \<notin> set fl \<Longrightarrow> \<exists>s'. fr p s = Ok () s' \<and> pool s' (p # fl)"
begin

lemma alloc_n_result: "pool s fl \<Longrightarrow> \<exists>s'. alloc_n al n s = Ok (take n fl) s' \<and> pool s' (drop n fl)"
proof (induction n arbitrary: s fl)
  case 0
  then show ?case by simp
next
  case (Suc n)
  show ?case
  proof (cases fl)
    case Nil
    with Suc.prems show ?thesis by (auto simp: al_none)
  next
    case (Cons p fl')
    with Suc.prems obtain s1 where s1: "al s = Ok p s1" "pool s1 fl'" using al_some by blast
    moreover have "p \<noteq> 0" using Suc.prems Cons pool_distinct by fastforce
    moreover obtain s2 where "alloc_n al n s1 = Ok (take n fl') s2" "pool s2 (drop n fl')"
      using Suc.IH s1(2) by blast
    ultimately show ?thesis using Cons by simp
  qed
qed

lemma alloc_n_distinct:
  assumes "pool s fl"
  shows "\<exists>ps s'. alloc_n al n s = Ok ps s' \<and> distinct ps \<and> 0 \<notin> set ps
       \<and> length ps = min n (length fl) \<and> pool s' (drop n fl)"
proof -
  have "distinct (take n fl)" "0 \<notin> set (take n fl)"
    using pool_distinct [OF assms] by (auto dest: in_set_takeD)
  then show ?thesis using alloc_n_result [OF assms, of n] by (auto simp: min.commute)
qed

lemma free_then_alloc:
  assumes "pool s fl" "last_ref s p" "p \<notin> set fl"
  shows "\<exists>s' s''. fr p s = Ok () s' \<and> al s' = Ok p s'' \<and> pool s'' fl"
  using fr_last [OF assms] al_some by blast

end

lemma kmem_inv_pages: "kmem_inv s fl \<Longrightarrow> distinct fl \<and> 0 \<notin> set fl"
  using frame_neq0 by (fastforce simp: kmem_inv_def kmem_ok_def)

lemma kalloc_frame: "kalloc s = Ok p s' \<Longrightarrow> frame s' = frame s"
  by (auto simp: kalloc_def Let_def split: if_splits)

interpretation kpool: page_pool kmem_inv kalloc kfree "\<lambda>s p. frame s p \<and> refs s p = 1"
proof
  fix s fl
  assume "kmem_inv s fl"
  then show "distinct fl \<and> 0 \<notin> set fl" by (rule kmem_inv_pages)
next
  fix s
  assume "kmem_inv s []"
  then show "kalloc s = Ok 0 s" by (simp add: kmem_inv_def kalloc_nil)
next
  fix s p fl
  assume inv: "kmem_inv s (p # fl)"
  then have ok: "kmem_ok s (p # fl)" by (simp add: kmem_inv_def)
  obtain s' where k: "kalloc s = Ok p s'" using kalloc_cons [OF ok] by blast
  have "frame s' p" using kalloc_frame [OF k] ok by (simp add: kmem_ok_def)
  then show "\<exists>s'. kalloc s = Ok p s' \<and> kmem_inv s' fl \<and> frame s' p \<and> refs s' p = 1"
    using k kalloc_kmem_inv [OF inv k] kalloc_kmem_ok [OF ok k] by blast
next
  fix s fl p
  assume inv: "kmem_inv s fl" and p: "frame s p \<and> refs s p = 1" "p \<notin> set fl"
  then obtain s' where "kfree p s = Ok () s'"
    using kfree_last [of s p] by (auto simp: kmem_inv_def kmem_ok_def)
  then show "\<exists>s'. kfree p s = Ok () s' \<and> kmem_inv s' (p # fl)"
    using kfree_kmem_inv [OF inv, of p s'] p by auto
qed

subsection \<open>A concrete allocator state\<close>

text \<open>Memory that is zero except for the links of the free pages \<open>fl\<close>, every other page in use once.\<close>

fun link_mem :: "addr list \<Rightarrow> memory" where
  "link_mem [] = (\<lambda>_. 0)"
| "link_mem (p # ps) = st64 (link_mem ps) p (case ps of [] \<Rightarrow> 0 | q # _ \<Rightarrow> q)"

definition pool_state :: "addr \<Rightarrow> addr list \<Rightarrow> kmem" where
  "pool_state e fl = \<lparr>mem = link_mem fl, freelist = (case fl of [] \<Rightarrow> 0 | p # _ \<Rightarrow> p),
     krefcount = (\<lambda>i. if i \<in> KREF_INDEX ` set fl then 0 else 1), kend = e\<rparr>"

lemma link_mem_step: "pgaligned p \<Longrightarrow> agree {p} (link_mem ps) (link_mem (p # ps))"
  using agree_st64 [OF pgaligned_mod8, of p "link_mem ps" "case ps of [] \<Rightarrow> 0 | q # _ \<Rightarrow> q"]
  by (simp only: link_mem.simps PGROUNDDOWN_id)

lemma link_mem_agree: "\<forall>p \<in> set fl. pgaligned p \<Longrightarrow> agree (set fl) (\<lambda>_. 0) (link_mem fl)"
proof (induction fl)
  case (Cons p ps)
  then have "agree {p} (link_mem ps) (link_mem (p # ps))" by (intro link_mem_step) simp
  then have "agree (set ps \<union> {p}) (\<lambda>_. 0) (link_mem (p # ps))"
    using Cons by (intro agree_trans [of "set ps" "\<lambda>_. 0" "link_mem ps" "{p}"]) simp_all
  then show ?case by (rule agree_mono) auto
qed simp

lemma link_mem_chain:
  "\<lbrakk> \<forall>p \<in> set fl. pgaligned p \<and> p \<noteq> 0; distinct fl \<rbrakk> \<Longrightarrow>
   chain (link_mem fl) (case fl of [] \<Rightarrow> 0 | p # _ \<Rightarrow> p) fl"
proof (induction fl)
  case (Cons p ps)
  have ag: "agree {p} (link_mem ps) (link_mem (p # ps))" using Cons.prems by (intro link_mem_step) simp
  have "chain (link_mem ps) (case ps of [] \<Rightarrow> 0 | q # _ \<Rightarrow> q) ps" using Cons by simp
  then have "chain (link_mem (p # ps)) (case ps of [] \<Rightarrow> 0 | q # _ \<Rightarrow> q) ps"
    by (rule chain_agree_set [OF _ ag]) (use Cons.prems in auto)
  then show ?case using Cons.prems by simp
qed simp

lemma pool_state_inv:
  assumes e: "KERNBASE \<le> e" "e \<le> PHYSTOP" and d: "distinct fl"
    and fr: "\<forall>p \<in> set fl. pgaligned p \<and> e \<le> p \<and> p < PHYSTOP"
  shows "kmem_inv (pool_state e fl) fl"
proof -
  let ?s = "pool_state e fl"
  have ke: "kernel_end_ok ?s" using e by (simp add: kernel_end_ok_def pool_state_def)
  have f: "frame ?s p" if "p \<in> set fl" for p using fr that by (simp add: frame_def pool_state_def)
  have n0: "\<forall>p \<in> set fl. pgaligned p \<and> p \<noteq> 0" using frame_neq0 [OF ke f] fr by blast
  have r: "refs ?s p = (if p \<in> set fl then 0 else 1)" if p: "frame ?s p" for p
  proof -
    have "KREF_INDEX p \<in> KREF_INDEX ` set fl \<longleftrightarrow> p \<in> set fl"
      using KREF_INDEX_inj [OF ke p f] by auto
    then show ?thesis by (simp add: refs_def pool_state_def)
  qed
  have "chain (mem ?s) (freelist ?s) fl" using link_mem_chain [OF n0 d] by (simp add: pool_state_def)
  then show ?thesis using ke d f r by (simp add: kmem_inv_def kmem_ok_def)
qed

subsection \<open>Properties\<close>

text \<open>Property C3: after \<^verbatim>\<open>kinit\<close> the free list holds exactly the pages between the end of the
  kernel and \<^verbatim>\<open>PHYSTOP\<close>, each once and with reference count 0; no page is lost at either end and
  the loop does not panic.\<close>

theorem kinit_frees_all:
  assumes "kernel_end_ok s" and "freelist s = 0"
  shows "\<exists>s' fl. kinit s = Ok () s' \<and> kmem_inv s' fl \<and> distinct fl \<and> set fl = {p. frame s p}"
  using kinit_all_free [OF assms] kmem_inv_pages by blast

theorem kinit_frees_all_witness:
  "\<exists>s' fl. kinit (pool_state 0x80000000 [] \<lparr>kend := 0x250123\<rparr>) = Ok () s' \<and> kmem_inv s' fl \<and> distinct fl \<and>
     set fl = {p. frame (pool_state 0x80000000 [] \<lparr>kend := 0x250123\<rparr>) p}"
  by (rule kinit_frees_all) (simp_all add: pool_state_def kernel_end_ok_def)

text \<open>Property C4: allocating several pages returns distinct non-null pages, as many as asked for
  or as many as are left, and keeps the free list and the counts consistent.\<close>

theorem kalloc_distinct:
  assumes "kmem_inv s fl"
  shows "\<exists>ps s'. alloc_n kalloc n s = Ok ps s' \<and> distinct ps \<and> 0 \<notin> set ps \<and>
           length ps = min n (length fl) \<and> kmem_inv s' (drop n fl)"
  by (rule kpool.alloc_n_distinct [OF assms])

theorem kalloc_distinct_witness:
  "\<exists>ps s'. alloc_n kalloc 3 (pool_state 0x300000 [0x400000, 0x401000]) = Ok ps s' \<and> distinct ps \<and> 0 \<notin> set ps \<and>
     length ps = min 3 (length [0x400000 :: addr, 0x401000]) \<and> kmem_inv s' (drop 3 [0x400000, 0x401000])"
  by (rule kalloc_distinct, rule pool_state_inv) (simp_all add: pgaligned_unat)

text \<open>Property C5: \<^verbatim>\<open>kfree\<close> of a page in use drops one reference; the page goes back to the
  free list exactly when the reference was the last one, and the invariant of the allocator (free
  pages have count 0, all other pages a positive count) is kept. A pointer that is not a managed
  page panics.\<close>

theorem kfree_drops_reference:
  assumes inv: "kmem_inv s fl" and p: "frame s p" "p \<notin> set fl"
  shows "\<exists>s'. kfree p s = Ok () s' \<and> kmem_inv s' (if refs s p = 1 then p # fl else fl) \<and>
           refs s' p = refs s p - 1 \<and> (\<forall>q. frame s q \<and> q \<noteq> p \<longrightarrow> refs s' q = refs s q) \<and>
           (\<not> frame s x \<longrightarrow> kfree x s = Panic ''kfree'')"
proof -
  have ok: "kmem_ok s fl" and ke: "kernel_end_ok s" using inv by (auto simp: kmem_inv_def kmem_ok_def)
  have pos: "0 < refs s p" using inv p by (simp add: kmem_inv_def)
  obtain s' where k: "kfree p s = Ok () s'"
    using kfree_shared [OF ke p(1)] kfree_last [OF ke p(1)] by fastforce
  have "refs s' p = refs s p - 1 \<and> (\<forall>q. frame s q \<and> q \<noteq> p \<longrightarrow> refs s' q = refs s q)"
  proof (cases "refs s p = 1")
    case True
    then show ?thesis using kfree_last_kmem_ok [OF ok p _ k] by (simp add: kmem_ok_def)
  next
    case False
    then have "s' = set_ref (KREF_INDEX p) (refs s p - 1) s" using k kfree_shared [OF ke p(1)] pos by simp
    then show ?thesis using refs_set_ref [OF ke p(1)] p(1) by simp
  qed
  then show ?thesis using k kfree_kmem_inv [OF inv p k] kfree_bad by blast
qed

theorem kfree_drops_reference_witness:
  "\<exists>s'. kfree 0x500000 (pool_state 0x300000 [0x400000]) = Ok () s' \<and>
     kmem_inv s' (if refs (pool_state 0x300000 [0x400000]) 0x500000 = 1 then [0x500000, 0x400000] else [0x400000]) \<and>
     refs s' 0x500000 = refs (pool_state 0x300000 [0x400000]) 0x500000 - 1 \<and>
     (\<forall>q. frame (pool_state 0x300000 [0x400000]) q \<and> q \<noteq> 0x500000 \<longrightarrow>
        refs s' q = refs (pool_state 0x300000 [0x400000]) q) \<and>
     (\<not> frame (pool_state 0x300000 [0x400000]) 1 \<longrightarrow> kfree 1 (pool_state 0x300000 [0x400000]) = Panic ''kfree'')"
  by (rule kfree_drops_reference, rule pool_state_inv)
    (simp_all add: pgaligned_unat frame_def pool_state_def)

end
