(* ===== verification/Vm.thy ===== *)
theory Vm
  imports Kalloc
begin

section \<open>Page tables\<close>

text \<open>
  The page-table walk of \<^verbatim>\<open>kernel/vm.c\<close> and everything that maps or unmaps pages with it.
  A page table is the address of its root page; its three levels live in physical
  memory, in pages of the allocator. \<open>tpage\<close> follows a path of indices to a table page and \<open>leaf\<close>
  reads the last-level entry of an address: a page table is abstractly the function \<open>leaf\<close>.
  The lemmas show that \<^verbatim>\<open>walk\<close> finds the slot of that entry, that allocating missing
  tables changes no entry, and what mapping and unmapping do to the function.
\<close>

definition slot :: "addr \<Rightarrow> uint64 \<Rightarrow> addr" where
  "slot pagetable i = pagetable + 8 * i"

fun walk_level :: "nat \<Rightarrow> addr \<Rightarrow> uint64 \<Rightarrow> bool \<Rightarrow> kmem \<Rightarrow> (kmem, addr) res" where
  "walk_level 0 pagetable va alloc s = Ok (slot pagetable (PX 0 va)) s"
| "walk_level (Suc l) pagetable va alloc s =
     (let pte = slot pagetable (PX (Suc l) va);
          e = ld64 (mem s) pte
      in if e AND PTE_V \<noteq> 0 then walk_level l (PTE2PA e) va alloc s
         else if \<not> alloc then Ok 0 s
         else kbind (kalloc s) (\<lambda>pt' s.
                if pt' = 0 then Ok 0 s
                else let s = s\<lparr>mem := memset (mem s) pt' 0 4096\<rparr>;
                         s = s\<lparr>mem := st64 (mem s) pte (PA2PTE pt' OR PTE_V)\<rparr>
                     in walk_level l pt' va alloc s))"

definition walk :: "addr \<Rightarrow> uint64 \<Rightarrow> bool \<Rightarrow> kmem \<Rightarrow> (kmem, addr) res" where
  "walk pagetable va alloc s =
     (if va \<ge> MAXVA then Panic ''walk'' else walk_level 2 pagetable va alloc s)"

text \<open>
  Loops over user addresses stop at \<^verbatim>\<open>MAXVA\<close> at the latest, because \<^verbatim>\<open>walk\<close> panics there.
\<close>

definition va_left :: "uint64 \<Rightarrow> nat" where
  "va_left a = (if a < MAXVA then unat (MAXVA - a) else 0)"

lemma walk_Ok_lt: "walk pt va alloc s = Ok r s' \<Longrightarrow> va < MAXVA"
  by (auto simp: walk_def split: if_splits)

lemma va_left_step: "a < MAXVA \<Longrightarrow> va_left (a + PGSIZE) < va_left a"
proof -
  assume a: "a < MAXVA"
  then have "unat (a + 4096) = unat a + 4096" by (simp add: word_less_nat_alt unat_word_ariths)
  moreover have "unat (MAXVA - a) = unat MAXVA - unat a" using a by (intro unat_sub) simp
  ultimately show ?thesis using a unat_sub [of "a + 4096" MAXVA]
    by (auto simp: va_left_def word_less_nat_alt word_le_nat_alt)
qed

function mappages_loop :: "addr \<Rightarrow> uint64 \<Rightarrow> uint64 \<Rightarrow> uint64 \<Rightarrow> uint64 \<Rightarrow> kmem \<Rightarrow> (kmem, int) res" where
  "mappages_loop pagetable a lst pa perm s =
     kbind (walk pagetable a True s) (\<lambda>pte s.
       if pte = 0 then Ok (-1) s
       else if ld64 (mem s) pte AND PTE_V \<noteq> 0 then Panic ''remap''
       else let s = s\<lparr>mem := st64 (mem s) pte (PA2PTE pa OR perm OR PTE_V)\<rparr>
            in if a = lst then Ok 0 s
               else mappages_loop pagetable (a + PGSIZE) lst (pa + PGSIZE) perm s)"
  by pat_completeness auto
termination
  by (relation "measure (\<lambda>(pt, a, lst, pa, perm, s). va_left a)")
    (auto simp only: in_measure wf_measure prod.case dest!: walk_Ok_lt intro: va_left_step)

declare mappages_loop.simps [simp del]

definition mappages :: "addr \<Rightarrow> uint64 \<Rightarrow> uint64 \<Rightarrow> uint64 \<Rightarrow> uint64 \<Rightarrow> kmem \<Rightarrow> (kmem, int) res" where
  "mappages pagetable va sz pa perm s =
     mappages_loop pagetable (PGROUNDDOWN va) (PGROUNDDOWN (va + sz - 1)) pa perm s"

function uvmunmap_loop :: "addr \<Rightarrow> uint64 \<Rightarrow> uint64 \<Rightarrow> bool \<Rightarrow> kmem \<Rightarrow> (kmem, unit) res" where
  "uvmunmap_loop pagetable a stop do_free s =
     (if a < stop
      then kbind (walk pagetable a False s) (\<lambda>pte s.
             if pte = 0 then uvmunmap_loop pagetable (a + PGSIZE) stop do_free s
             else if ld64 (mem s) pte AND PTE_V = 0
                  then uvmunmap_loop pagetable (a + PGSIZE) stop do_free s
             else kbind (if do_free
                         then let pa = PTE2PA (ld64 (mem s) pte)
                              in if pa \<ge> KERNBASE \<and> pa < PHYSTOP then kfree pa s else Ok () s
                         else Ok () s)
                    (\<lambda>_ s. uvmunmap_loop pagetable (a + PGSIZE) stop do_free
                             (s\<lparr>mem := st64 (mem s) pte 0\<rparr>)))
      else Ok () s)"
  by pat_completeness auto
termination
  by (relation "measure (\<lambda>(pt, a, stop, do_free, s). va_left a)")
    (auto simp only: in_measure wf_measure prod.case dest!: walk_Ok_lt intro: va_left_step)

declare uvmunmap_loop.simps [simp del]

definition uvmunmap :: "addr \<Rightarrow> uint64 \<Rightarrow> uint64 \<Rightarrow> bool \<Rightarrow> kmem \<Rightarrow> (kmem, unit) res" where
  "uvmunmap pagetable va npages do_free s =
     (if va mod PGSIZE \<noteq> 0 then Panic ''uvmunmap: not aligned''
      else uvmunmap_loop pagetable va (va + npages * PGSIZE) do_free s)"

text \<open>
  \<^verbatim>\<open>freewalk\<close> recurses into the tables below; \<open>free_entries\<close> is its loop over the entries,
  with the recursive call as an argument, and \<open>freewalk\<close> counts the depth it may still
  descend. A table tree has three levels, so depth 3 is enough.
\<close>

fun free_entries :: "(addr \<Rightarrow> kmem \<Rightarrow> (kmem, unit) res) \<Rightarrow> addr \<Rightarrow> uint64 list \<Rightarrow> kmem \<Rightarrow> (kmem, unit) res" where
  "free_entries rec pagetable [] s = Ok () s"
| "free_entries rec pagetable (i # is) s =
     (let pte = ld64 (mem s) (slot pagetable i)
      in if pte AND PTE_V \<noteq> 0 \<and> pte AND (PTE_R OR PTE_W OR PTE_X) = 0
         then kbind (rec (PTE2PA pte) s) (\<lambda>_ s.
                free_entries rec pagetable is (s\<lparr>mem := st64 (mem s) (slot pagetable i) 0\<rparr>))
         else if pte AND PTE_V \<noteq> 0 then Panic ''freewalk: leaf''
         else free_entries rec pagetable is s)"

fun freewalk :: "nat \<Rightarrow> addr \<Rightarrow> kmem \<Rightarrow> (kmem, unit) res" where
  "freewalk 0 pagetable s = Diverge"
| "freewalk (Suc d) pagetable s =
     kbind (free_entries (freewalk d) pagetable (map of_nat [0..<512]) s) (\<lambda>_ s. kfree pagetable s)"

definition kvmmap :: "addr \<Rightarrow> uint64 \<Rightarrow> uint64 \<Rightarrow> uint64 \<Rightarrow> uint64 \<Rightarrow> kmem \<Rightarrow> (kmem, unit) res" where
  "kvmmap pagetable va pa sz perm s =
     kbind (mappages pagetable va sz pa perm s) (\<lambda>r s. if r \<noteq> 0 then Panic ''kvmmap'' else Ok () s)"

text \<open>
  \<open>proc_mapstacks kpgtbl i\<close> maps the stacks of the processes from index \<open>i\<close> on and returns
  the values stored in their \<^verbatim>\<open>kstack\<close> fields.
\<close>

fun mapstacks_loop :: "addr \<Rightarrow> nat \<Rightarrow> nat \<Rightarrow> kmem \<Rightarrow> (kmem, uint64 list) res" where
  "mapstacks_loop kpgtbl i 0 s = Ok [] s"
| "mapstacks_loop kpgtbl i (Suc n) s =
     kbind (kalloc s) (\<lambda>pa s.
       if pa = 0 then Panic ''kalloc''
       else let va = KSTACK (of_nat i)
            in kbind (kvmmap kpgtbl va pa PGSIZE (PTE_R OR PTE_W OR PTE_THEAD_MAEE OR PTE_A OR PTE_D) s)
                 (\<lambda>_ s. kbind (mapstacks_loop kpgtbl (Suc i) n s) (\<lambda>vs s. Ok (va # vs) s)))"

definition proc_mapstacks :: "addr \<Rightarrow> kmem \<Rightarrow> (kmem, uint64 list) res" where
  "proc_mapstacks kpgtbl s = mapstacks_loop kpgtbl 0 NPROC s"

text \<open>\<open>etext\<close> and \<open>trampoline\<close> are symbols of the linker script and of \<^verbatim>\<open>trampoline.S\<close>.\<close>

definition kvmmake :: "uint64 \<Rightarrow> uint64 \<Rightarrow> kmem \<Rightarrow> (kmem, addr \<times> uint64 list) res" where
  "kvmmake etext trampoline s =
     kbind (kalloc s) (\<lambda>kpgtbl s.
       if kpgtbl = 0 then Panic ''kvmmake: no memory''
       else
         kbind (kvmmap kpgtbl KERNBASE KERNBASE (etext - KERNBASE)
                 (PTE_R OR PTE_X OR PTE_A OR PTE_THEAD_MAEE) (s\<lparr>mem := memset (mem s) kpgtbl 0 4096\<rparr>)) (\<lambda>_ s.
         kbind (kvmmap kpgtbl etext etext (PHYSTOP - etext)
                 (PTE_R OR PTE_W OR PTE_A OR PTE_D OR PTE_THEAD_MAEE) s) (\<lambda>_ s.
         kbind (kvmmap kpgtbl WDT0_BASE WDT0_BASE PGSIZE (PTE_R OR PTE_W OR PTE_A OR PTE_D OR PTE_IO) s) (\<lambda>_ s.
         kbind (kvmmap kpgtbl UART0 UART0 PGSIZE (PTE_R OR PTE_W OR PTE_A OR PTE_D OR PTE_IO) s) (\<lambda>_ s.
         kbind (kvmmap kpgtbl PLIC PLIC 0x4000000 (PTE_R OR PTE_W OR PTE_A OR PTE_D OR PTE_IO) s) (\<lambda>_ s.
         kbind (kvmmap kpgtbl K230_SD1 K230_SD1 PGSIZE (PTE_R OR PTE_W OR PTE_A OR PTE_D OR PTE_IO) s) (\<lambda>_ s.
         kbind (kvmmap kpgtbl TRAMPOLINE trampoline PGSIZE (PTE_R OR PTE_X OR PTE_A) s) (\<lambda>_ s.
         kbind (proc_mapstacks kpgtbl s) (\<lambda>stacks s. Ok (kpgtbl, stacks) s)))))))))"

subsection \<open>Slots\<close>

lemma slot_bytes:
  assumes "pgaligned pt" and "unat i < 512"
  shows "slot pt i = pt + of_nat (8 * unat i)" "unat (slot pt i) = unat pt + 8 * unat i"
    "unat (slot pt i) mod 8 = 0" "PGROUNDDOWN (slot pt i) = pt"
proof -
  show 1: "slot pt i = pt + of_nat (8 * unat i)" by (simp add: slot_def)
  show 2: "unat (slot pt i) = unat pt + 8 * unat i"
    unfolding 1 using assms by (intro unat_page_offset) simp_all
  show "unat (slot pt i) mod 8 = 0"
    using pgaligned_mod8 [OF assms(1)] by (simp add: 2 mod_eq_0_iff_dvd)
  show "PGROUNDDOWN (slot pt i) = pt"
    unfolding 1 PGROUNDDOWN_eq_iff [OF assms(1)] using assms by (intro page_offset_div) simp_all
qed

lemma slot_inj:
  assumes "pgaligned p" "pgaligned q" "unat i < 512" "unat j < 512" "slot p i = slot q j"
  shows "p = q \<and> i = j"
proof -
  have "p = q" using slot_bytes(4) [OF assms(1,3)] slot_bytes(4) [OF assms(2,4)] assms(5) by simp
  then show ?thesis
    using assms slot_bytes(2) [OF assms(1,3)] slot_bytes(2) [OF assms(2,4)] by (simp add: word_unat_eq_iff)
qed

lemma slot_neq0: "kernel_end_ok s \<Longrightarrow> frame s pt \<Longrightarrow> unat i < 512 \<Longrightarrow> slot pt i \<noteq> 0"
  using slot_bytes(2) [of pt i] frame_unat [of s pt] by (force simp: frame_def)

lemma ld64_st64_slot:
  assumes "pgaligned p" "pgaligned q" "unat i < 512" "unat j < 512"
  shows "ld64 (st64 m (slot p i) v) (slot q j) = (if p = q \<and> i = j then v else ld64 m (slot q j))"
proof (cases "p = q \<and> i = j")
  case False
  then have "slot p i \<noteq> slot q j" using slot_inj [OF assms] by blast
  then show ?thesis
    using False ld64_st64_other [OF slot_bytes(3) [OF assms(1,3)] slot_bytes(3) [OF assms(2,4)]] by auto
qed auto

subsection \<open>Table pages and leaves\<close>

fun tpage :: "memory \<Rightarrow> addr \<Rightarrow> uint64 list \<Rightarrow> addr option" where
  "tpage m pt [] = Some pt"
| "tpage m pt (i # is) =
     (let e = ld64 m (slot pt i) in if e AND PTE_V \<noteq> 0 then tpage m (PTE2PA e) is else None)"

definition tab_path :: "uint64 list \<Rightarrow> bool" where
  "tab_path p \<longleftrightarrow> length p \<le> 2 \<and> (\<forall>i \<in> set p. unat i < 512)"

definition tabs :: "memory \<Rightarrow> addr \<Rightarrow> addr set" where
  "tabs m root = {a. \<exists>p. tab_path p \<and> tpage m root p = Some a}"

definition l0path :: "uint64 \<Rightarrow> uint64 list" where
  "l0path va = [PX 2 va, PX 1 va]"

definition leaf :: "memory \<Rightarrow> addr \<Rightarrow> uint64 \<Rightarrow> uint64" where
  "leaf m root va =
     (case tpage m root (l0path va) of None \<Rightarrow> 0 | Some t \<Rightarrow> ld64 m (slot t (PX 0 va)))"

definition pt_ok :: "kmem \<Rightarrow> addr list \<Rightarrow> addr \<Rightarrow> bool" where
  "pt_ok s fl root \<longleftrightarrow> kmem_inv s fl \<and>
     (\<forall>p a. tab_path p \<longrightarrow> tpage (mem s) root p = Some a \<longrightarrow> frame s a \<and> a \<notin> set fl) \<and>
     (\<forall>p q a. tab_path p \<longrightarrow> tab_path q \<longrightarrow>
        tpage (mem s) root p = Some a \<longrightarrow> tpage (mem s) root q = Some a \<longrightarrow> p = q)"

lemma tpage_append: "tpage m pt (p @ q) = Option.bind (tpage m pt p) (\<lambda>t. tpage m t q)"
  by (induction p arbitrary: pt) (auto simp: Let_def)

lemma tpage_snoc:
  "tpage m pt (p @ [i]) = (case tpage m pt p of None \<Rightarrow> None
     | Some t \<Rightarrow> (let e = ld64 m (slot t i) in if e AND PTE_V \<noteq> 0 then Some (PTE2PA e) else None))"
  by (simp add: tpage_append Let_def split: option.split)

lemma tab_path_snoc: "tab_path (p @ [i]) \<longleftrightarrow> length p < 2 \<and> tab_path p \<and> unat i < 512"
  by (auto simp: tab_path_def)

lemma tab_path_va [simp]: "tab_path (l0path va)" "tab_path []" "length (l0path va) = 2"
  by (simp_all add: tab_path_def l0path_def PX_lt)

subsection \<open>The walk without allocation\<close>

definition vpath :: "nat \<Rightarrow> uint64 \<Rightarrow> uint64 list" where
  "vpath l va = map (\<lambda>k. PX k va) (rev [1..<Suc l])"

lemma vpath_simps [simp]: "vpath 0 va = []" "vpath (Suc l) va = PX (Suc l) va # vpath l va"
  by (simp_all add: vpath_def)

lemma vpath_2: "vpath 2 va = l0path va"
  by (simp add: numeral_2_eq_2 l0path_def)

lemma walk_level_find:
  "walk_level l pt va False s =
     Ok (case tpage (mem s) pt (vpath l va) of None \<Rightarrow> 0 | Some t \<Rightarrow> slot t (PX 0 va)) s"
  by (induction l arbitrary: pt) (auto simp: Let_def)

lemma walk_find:
  "va < MAXVA \<Longrightarrow> walk pt va False s =
     Ok (case tpage (mem s) pt (l0path va) of None \<Rightarrow> 0 | Some t \<Rightarrow> slot t (PX 0 va)) s"
  unfolding walk_def walk_level_find vpath_2 by (simp add: not_le [symmetric] del: MAXVA_def)

subsection \<open>Reading a page table in a changed memory\<close>

lemma pt_ok_inv: "pt_ok s fl root \<Longrightarrow> kmem_inv s fl \<and> kmem_ok s fl"
  unfolding pt_ok_def kmem_inv_def by blast

lemma pt_ok_kernel_end: "pt_ok s fl root \<Longrightarrow> kernel_end_ok s"
  using pt_ok_inv by (auto simp: kmem_ok_def)

lemma pt_ok_tpage:
  "pt_ok s fl root \<Longrightarrow> tab_path p \<Longrightarrow> tpage (mem s) root p = Some a \<Longrightarrow>
   frame s a \<and> a \<notin> set fl \<and> pgaligned a"
  unfolding pt_ok_def frame_def by blast

lemma pt_ok_inj:
  "pt_ok s fl root \<Longrightarrow> tab_path p \<Longrightarrow> tab_path q \<Longrightarrow>
   tpage (mem s) root p = Some a \<Longrightarrow> tpage (mem s) root q = Some a \<Longrightarrow> p = q"
  unfolding pt_ok_def by blast

lemma pt_okI:
  assumes "kmem_inv s fl"
    and "\<And>p a. tab_path p \<Longrightarrow> tpage (mem s) root p = Some a \<Longrightarrow> frame s a \<and> a \<notin> set fl"
    and "\<And>p q a. tab_path p \<Longrightarrow> tab_path q \<Longrightarrow> tpage (mem s) root p = Some a \<Longrightarrow>
          tpage (mem s) root q = Some a \<Longrightarrow> p = q"
  shows "pt_ok s fl root"
  unfolding pt_ok_def using assms by blast

lemma tabs_pgaligned: "pt_ok s fl root \<Longrightarrow> a \<in> tabs (mem s) root \<Longrightarrow> pgaligned a \<and> frame s a \<and> a \<notin> set fl"
  using pt_ok_tpage by (auto simp: tabs_def)

text \<open>The root is a table, and so is every table on the way to a table.\<close>

lemma tpage_prefix:
  "tpage m root (p @ q) = Some a \<Longrightarrow> \<exists>b. tpage m root p = Some b \<and> tpage m b q = Some a"
  by (auto simp: tpage_append bind_eq_Some_conv)

lemma tpage_agree:
  assumes "agree S m m'" and "\<And>q b. tab_path q \<Longrightarrow> tpage m root q = Some b \<Longrightarrow> pgaligned b \<and> b \<notin> S"
  shows "tab_path p \<Longrightarrow> tpage m' root p = tpage m root p"
proof (induction p rule: rev_induct)
  case Nil
  then show ?case by simp
next
  case (snoc i p)
  then have p: "tab_path p" "unat i < 512" by (auto simp: tab_path_snoc)
  show ?case
  proof (cases "tpage m root p")
    case None
    then show ?thesis using snoc.IH [OF p(1)] by (simp add: tpage_snoc)
  next
    case (Some t)
    with assms(2) [OF p(1)] have "pgaligned t" "t \<notin> S" by auto
    then have "ld64 m' (slot t i) = ld64 m (slot t i)"
      using p by (intro agree_ld64 [OF assms(1)]) (simp_all add: slot_bytes(3,4))
    then show ?thesis using Some snoc.IH [OF p(1)] by (simp add: tpage_snoc)
  qed
qed

lemma leaf_agree:
  assumes "agree S m m'" and "\<And>q b. tab_path q \<Longrightarrow> tpage m root q = Some b \<Longrightarrow> pgaligned b \<and> b \<notin> S"
  shows "leaf m' root va = leaf m root va"
proof -
  have "ld64 m' (slot t (PX 0 va)) = ld64 m (slot t (PX 0 va))" if "tpage m root (l0path va) = Some t" for t
    using assms(2) [OF _ that] by (intro agree_ld64 [OF assms(1)]) (simp_all add: slot_bytes(3,4) PX_lt)
  then show ?thesis
    using tpage_agree [OF assms(1), of root "l0path va"] assms(2) by (simp add: leaf_def split: option.split)
qed

lemma pt_ok_agree:
  assumes ok: "pt_ok s fl root" and m: "agree S (mem s) m'" and S: "S \<inter> tabs (mem s) root = {}"
  shows "tab_path p \<Longrightarrow> tpage m' root p = tpage (mem s) root p" "leaf m' root va = leaf (mem s) root va"
    "tabs m' root = tabs (mem s) root"
proof -
  have *: "pgaligned b \<and> b \<notin> S" if "tab_path q" "tpage (mem s) root q = Some b" for q b
    using pt_ok_tpage [OF ok that] that S by (auto simp: tabs_def)
  show "tab_path p \<Longrightarrow> tpage m' root p = tpage (mem s) root p" for p by (rule tpage_agree [OF m *])
  then show "tabs m' root = tabs (mem s) root" by (auto simp: tabs_def)
  show "leaf m' root va = leaf (mem s) root va" by (rule leaf_agree [OF m *])
qed

text \<open>A page table whose tables are untouched stays well formed when the allocator moves on.\<close>

lemma pt_ok_frame:
  assumes ok: "pt_ok s fl root" and m: "agree S (mem s) (mem s')" and S: "S \<inter> tabs (mem s) root = {}"
    and inv: "kmem_inv s' fl'" and k: "kend s' = kend s" and fl: "set fl' \<inter> tabs (mem s) root = {}"
  shows "pt_ok s' fl' root"
proof -
  note t = pt_ok_agree(1) [OF ok m S]
  have fr: "frame s' = frame s" using k by (auto simp: frame_def fun_eq_iff)
  have "frame s' a \<and> a \<notin> set fl'" if "tab_path p" "tpage (mem s') root p = Some a" for p a
    using pt_ok_tpage [OF ok, of p a] that t [of p] fl fr by (auto simp: tabs_def)
  moreover have "p = q" if "tab_path p" "tab_path q" "tpage (mem s') root p = Some a" "tpage (mem s') root q = Some a" for p q a
    using pt_ok_inj [OF ok that(1,2)] that t [of p] t [of q] by simp
  ultimately show ?thesis using inv unfolding pt_ok_def by blast
qed

subsection \<open>Adding a table\<close>

text \<open>
  The state after the walk has put the free page \<open>n\<close> below entry \<open>i\<close> of the table \<open>pt\<close>.
\<close>

definition add_table :: "kmem \<Rightarrow> addr \<Rightarrow> addr \<Rightarrow> uint64 \<Rightarrow> kmem" where
  "add_table s n pt i = s\<lparr>mem := st64 (fill (mem s) n 0 4096) (slot pt i) (PA2PTE n OR PTE_V)\<rparr>"

lemma frame_lt56: "kernel_end_ok s \<Longrightarrow> frame s p \<Longrightarrow> p < 2 ^ 56"
  using frame_unat [of s p] by (simp add: word_less_nat_alt)

lemma PTE_V_neq0 [simp]: "PTE_V \<noteq> 0"
  by (simp add: PTE_V_def)

lemma entry_V [simp]: "(a OR PTE_V) AND PTE_V \<noteq> 0" "(a OR b OR PTE_V) AND PTE_V \<noteq> 0"
  unfolding pte_tests bit_or_iff bit_flags by simp_all

lemma slots_of_zero_page:
  assumes "pgaligned n" "unat j < 512" "pgaligned pt" "pt \<noteq> n" "unat i < 512"
  shows "ld64 (st64 (fill m n 0 4096) (slot pt i) v) (slot n j) = 0"
proof -
  have "ld64 (fill m n 0 4096) (slot n j) = 0"
    unfolding slot_bytes(1) [OF assms(1,2)] by (rule ld64_fill_in [OF assms(1,2)])
  then show ?thesis using assms by (simp add: ld64_st64_slot)
qed

lemma slots_of_other_page:
  assumes "pgaligned n" "unat j < 512" "pgaligned pt" "pgaligned t" "t \<noteq> n" "unat i < 512"
  shows "ld64 (st64 (fill m n 0 4096) (slot pt i) v) (slot t j)
       = (if t = pt \<and> j = i then v else ld64 m (slot t j))"
proof -
  have "ld64 (fill m n 0 4096) (slot t j) = ld64 m (slot t j)"
    using assms by (intro agree_ld64 [OF agree_fill [OF assms(1)]]) (simp_all add: slot_bytes(3,4))
  then show ?thesis using assms by (auto simp: ld64_st64_slot)
qed

lemma add_table_tpage:
  assumes ok: "pt_ok s fl root" and n: "frame s n" "n \<notin> tabs (mem s) root"
    and pt: "tpage (mem s) root q = Some pt" and qi: "tab_path (q @ [i])"
    and inval: "ld64 (mem s) (slot pt i) AND PTE_V = 0"
  shows "tab_path p \<Longrightarrow>
    tpage (mem (add_table s n pt i)) root p = (if p = q @ [i] then Some n else tpage (mem s) root p)"
proof (induction p rule: rev_induct)
  case Nil
  then show ?case by simp
next
  case (snoc j p)
  from qi have q: "tab_path q" "unat i < 512" "length q < 2" by (auto simp: tab_path_snoc)
  from snoc.prems have p: "tab_path p" "unat j < 512" "length p < 2" by (auto simp: tab_path_snoc)
  have al: "pgaligned n" "pgaligned pt" using n pt_ok_tpage [OF ok q(1) pt] by (auto simp: frame_def)
  have ptn: "pt \<noteq> n" using n(2) pt q(1) by (auto simp: tabs_def)
  note ih = snoc.IH [OF p(1)]
  have qn: "tpage (mem s) root (q @ [i]) = None" using pt inval by (simp add: tpage_snoc Let_def)
  show ?case
  proof (cases "p = q @ [i]")
    case True
    then have "tpage (mem (add_table s n pt i)) root (p @ [j]) = None"
      unfolding tpage_snoc ih if_P [OF True]
      using slots_of_zero_page [OF al(1) p(2) al(2) ptn q(2)] by (simp add: add_table_def)
    moreover have "tpage (mem s) root (p @ [j]) = None" using True qn by (simp only: tpage_snoc option.case)
    ultimately show ?thesis using True by auto
  next
    case False
    show ?thesis
    proof (cases "tpage (mem s) root p")
      case None
      then have "p \<noteq> q" using pt by auto
      then show ?thesis using None ih False by (simp add: tpage_snoc)
    next
      case (Some t)
      have t: "pgaligned t" "t \<noteq> n" using pt_ok_tpage [OF ok p(1) Some] Some n(2) p(1) by (auto simp: tabs_def)
      have tp: "t = pt \<longleftrightarrow> p = q" using pt_ok_inj [OF ok p(1) q(1) Some] pt Some by auto
      have "PTE2PA (PA2PTE n OR PTE_V) = n"
        using frame_lt56 [OF pt_ok_kernel_end [OF ok] n(1)] al by (intro PTE2PA_entry) simp_all
      then show ?thesis
        using ih False Some tp slots_of_other_page [OF al(1) p(2) al(2) t q(2)]
        by (auto simp: tpage_snoc add_table_def Let_def)
    qed
  qed
qed

lemma add_table_leaf:
  assumes ok: "pt_ok s fl root" and n: "frame s n" "n \<notin> tabs (mem s) root"
    and pt: "tpage (mem s) root q = Some pt" and qi: "tab_path (q @ [i])"
    and inval: "ld64 (mem s) (slot pt i) AND PTE_V = 0"
  shows "leaf (mem (add_table s n pt i)) root va = leaf (mem s) root va"
proof -
  note tp = add_table_tpage [OF assms, of "l0path va"]
  from qi have q: "tab_path q" "unat i < 512" "length q < 2" by (auto simp: tab_path_snoc)
  have al: "pgaligned n" "pgaligned pt" using n pt_ok_tpage [OF ok q(1) pt] by (auto simp: frame_def)
  have ptn: "pt \<noteq> n" using n(2) pt q(1) by (auto simp: tabs_def)
  show ?thesis
  proof (cases "l0path va = q @ [i]")
    case True
    then have "leaf (mem s) root va = 0" using pt inval by (simp add: leaf_def tpage_snoc Let_def)
    moreover have "leaf (mem (add_table s n pt i)) root va = 0"
      using tp True qi slots_of_zero_page [OF al(1) PX_lt al(2) ptn q(2)] by (simp add: leaf_def add_table_def)
    ultimately show ?thesis by simp
  next
    case False
    have "ld64 (mem (add_table s n pt i)) (slot t (PX 0 va)) = ld64 (mem s) (slot t (PX 0 va))"
      if t: "tpage (mem s) root (l0path va) = Some t" for t
    proof -
      have "t \<noteq> pt" using pt_ok_inj [OF ok _ q(1) t] pt q(3) by auto
      moreover have "pgaligned t" "t \<noteq> n" using pt_ok_tpage [OF ok _ t] t n(2) by (auto simp: tabs_def)
      ultimately show ?thesis
        using slots_of_other_page [OF al(1) PX_lt al(2), of t i] q(2) by (simp add: add_table_def)
    qed
    then show ?thesis using tp False by (simp add: leaf_def split: option.split)
  qed
qed

subsection \<open>The allocating walk\<close>

text \<open>
  What walking and mapping may do to a page table and the allocator: tables are added and
  none is removed, memory outside this page table and the free pages is left alone, and every
  page taken from the free list is a table of this page table with one reference.
\<close>

definition pt_ext :: "addr \<Rightarrow> kmem \<Rightarrow> addr list \<Rightarrow> kmem \<Rightarrow> addr list \<Rightarrow> bool" where
  "pt_ext root s fl s' fl' \<longleftrightarrow>
     pt_ok s' fl' root \<and> (\<exists>us. fl = us @ fl') \<and> kend s' = kend s \<and>
     agree (tabs (mem s) root \<union> set fl) (mem s) (mem s') \<and>
     (\<forall>p a. tab_path p \<longrightarrow> tpage (mem s) root p = Some a \<longrightarrow> tpage (mem s') root p = Some a) \<and>
     (\<forall>q. frame s q \<longrightarrow> refs s' q = (if q \<in> set fl - set fl' then 1 else refs s q)) \<and>
     tabs (mem s') root = tabs (mem s) root \<union> (set fl - set fl')"

lemma pt_ext_refl: "pt_ok s fl root \<Longrightarrow> pt_ext root s fl s fl"
  by (simp add: pt_ext_def)

lemma pt_extD:
  assumes "pt_ext root s fl s' fl'"
  shows "pt_ok s' fl' root" "\<exists>us. fl = us @ fl'" "kend s' = kend s"
    "agree (tabs (mem s) root \<union> set fl) (mem s) (mem s')"
    "\<And>p a. tab_path p \<Longrightarrow> tpage (mem s) root p = Some a \<Longrightarrow> tpage (mem s') root p = Some a"
    "\<And>q. frame s q \<Longrightarrow> refs s' q = (if q \<in> set fl - set fl' then 1 else refs s q)"
    "tabs (mem s') root = tabs (mem s) root \<union> (set fl - set fl')"
  using assms unfolding pt_ext_def by blast+

lemma pt_extI:
  assumes "pt_ok s' fl' root" "fl = us @ fl'" "kend s' = kend s"
    "agree (tabs (mem s) root \<union> set fl) (mem s) (mem s')"
    "\<And>p a. tab_path p \<Longrightarrow> tpage (mem s) root p = Some a \<Longrightarrow> tpage (mem s') root p = Some a"
    "\<And>q. frame s q \<Longrightarrow> refs s' q = (if q \<in> set fl - set fl' then 1 else refs s q)"
    "tabs (mem s') root = tabs (mem s) root \<union> (set fl - set fl')"
  shows "pt_ext root s fl s' fl'"
  unfolding pt_ext_def using assms by blast

lemma pt_ext_trans:
  assumes a: "pt_ext root s fl s1 fl1" and b: "pt_ext root s1 fl1 s2 fl2" and inv: "kmem_inv s fl"
  shows "pt_ext root s fl s2 fl2"
proof -
  note A = pt_extD [OF a] and B = pt_extD [OF b]
  obtain us vs where fl: "fl = us @ fl1" "fl1 = vs @ fl2" using A(2) B(2) by blast
  have d: "distinct fl" using inv by (simp add: kmem_inv_def kmem_ok_def)
  have fr: "frame s1 = frame s" using A(3) by (auto simp: frame_def fun_eq_iff)
  have S: "tabs (mem s1) root \<union> set fl1 \<subseteq> tabs (mem s) root \<union> set fl"
    using A(7) fl by auto
  have ag: "agree (tabs (mem s) root \<union> set fl) (mem s) (mem s2)"
    by (rule agree_mono [OF agree_trans [of "tabs (mem s) root \<union> set fl" _ "mem s1" "tabs (mem s1) root \<union> set fl1"]])
      (use A(4) B(4) S in blast)+
  have rf: "refs s2 q = (if q \<in> set fl - set fl2 then 1 else refs s q)" if "frame s q" for q
  proof -
    have "refs s2 q = (if q \<in> set fl1 - set fl2 then 1 else if q \<in> set fl - set fl1 then 1 else refs s q)"
      using A(6) [OF that] B(6) [of q] that fr by simp
    then show ?thesis using d by (auto simp: fl)
  qed
  have tb: "tabs (mem s2) root = tabs (mem s) root \<union> (set fl - set fl2)"
    using A(7) B(7) d by (auto simp: fl)
  have mono: "tpage (mem s2) root p = Some a" if "tab_path p" "tpage (mem s) root p = Some a" for p a
    using A(5) B(5) that by blast
  have "fl = (us @ vs) @ fl2" "kend s2 = kend s" using fl A(3) B(3) by simp_all
  then show ?thesis by (rule pt_extI [OF B(1) _ _ ag mono rf tb])
qed

lemma add_table_step:
  assumes ok: "pt_ok s (n # fl) root" and k: "kalloc s = Ok n s1"
    and pt: "tpage (mem s) root q = Some pt" and qi: "tab_path (q @ [i])"
    and inval: "ld64 (mem s) (slot pt i) AND PTE_V = 0"
  shows "pt_ext root s (n # fl) (add_table s1 n pt i) fl \<and>
    tpage (mem (add_table s1 n pt i)) root (q @ [i]) = Some n \<and>
    (\<forall>va. leaf (mem (add_table s1 n pt i)) root va = leaf (mem s) root va)"
proof -
  have inv: "kmem_inv s (n # fl)" "kmem_ok s (n # fl)" using pt_ok_inv [OF ok] by auto
  note k1 = kalloc_kmem_inv [OF inv(1) k] kalloc_kmem_ok [OF inv(2) k]
  from qi have q: "tab_path q" "unat i < 512" by (auto simp: tab_path_snoc)
  have n: "frame s n" "n \<notin> tabs (mem s) root" "pgaligned n"
    using inv(2) tabs_pgaligned [OF ok] by (auto simp: kmem_ok_def frame_def)
  have ptp: "pgaligned pt" "pt \<notin> set (n # fl)" "pt \<in> tabs (mem s) root"
    using pt_ok_tpage [OF ok q(1) pt] pt q(1) by (auto simp: tabs_def)
  have ag1: "agree {n} (mem s) (mem s1)" using k1 agree_fill [OF n(3)] by simp
  have dj: "{n} \<inter> tabs (mem s) root = {}" using n by simp
  have ok1: "pt_ok s1 fl root"
    using k1 tabs_pgaligned [OF ok] by (intro pt_ok_frame [OF ok ag1 dj]) auto
  note s1 = pt_ok_agree [OF ok ag1 dj]
  have f1: "frame s1 = frame s" using k by (rule kalloc_frame)
  have pt1: "tpage (mem s1) root q = Some pt" using s1(1) [OF q(1)] pt by simp
  have n1: "frame s1 n" "n \<notin> tabs (mem s1) root" using n f1 s1(3) by simp_all
  have "ld64 (mem s1) (slot pt i) = ld64 (mem s) (slot pt i)"
    using ptp q by (intro agree_ld64 [OF ag1]) (auto simp: slot_bytes(3,4))
  then have inval1: "ld64 (mem s1) (slot pt i) AND PTE_V = 0" using inval by simp
  note tp = add_table_tpage [OF ok1 n1 pt1 qi inval1] and lf = add_table_leaf [OF ok1 n1 pt1 qi inval1]
  let ?s = "add_table s1 n pt i"
  have ag2: "agree ({n} \<union> {pt}) (mem s1) (mem ?s)"
    unfolding add_table_def using agree_trans [OF agree_fill [OF n(3)] agree_st64 [OF slot_bytes(3) [OF ptp(1) q(2)]]]
    by (simp add: slot_bytes(4) [OF ptp(1) q(2)])
  have d: "n \<notin> set fl" using inv(2) by (simp add: kmem_ok_def)
  have inv2: "kmem_inv ?s fl"
    unfolding add_table_def using ptp d ag2 by (intro kmem_inv_mem [OF k1(1)]) (auto simp: add_table_def)
  have f2: "frame ?s = frame s" using f1 by (simp add: add_table_def)
  have nqi: "tpage (mem s1) root (q @ [i]) = None" using pt1 inval1 by (simp add: tpage_snoc Let_def)
  have tb: "tabs (mem ?s) root = tabs (mem s) root \<union> {n}"
  proof (intro set_eqI iffI)
    fix a assume "a \<in> tabs (mem ?s) root"
    then show "a \<in> tabs (mem s) root \<union> {n}"
      unfolding s1(3) [symmetric] by (auto simp: tabs_def tp split: if_splits)
  next
    fix a assume "a \<in> tabs (mem s) root \<union> {n}"
    then consider p where "tab_path p" "tpage (mem s1) root p = Some a" | "a = n"
      unfolding s1(3) [symmetric] by (auto simp: tabs_def)
    then show "a \<in> tabs (mem ?s) root"
    proof cases
      case 1
      then have "p \<noteq> q @ [i]" using nqi by auto
      with 1 tp [OF 1(1)] show ?thesis by (auto simp: tabs_def)
    next
      case 2
      with tp [OF qi] qi show ?thesis by (auto simp: tabs_def)
    qed
  qed
  have ok2: "pt_ok ?s fl root"
    unfolding pt_ok_def f2
  proof (intro conjI allI impI)
    show "kmem_inv ?s fl" by (rule inv2)
  next
    fix p a assume p: "tab_path p" "tpage (mem ?s) root p = Some a"
    then have "a \<in> tabs (mem ?s) root" by (auto simp: tabs_def)
    then show "frame s a" "a \<notin> set fl" using tb n d tabs_pgaligned [OF ok, of a] by auto
  next
    fix p p' a assume p: "tab_path p" "tab_path p'" "tpage (mem ?s) root p = Some a" "tpage (mem ?s) root p' = Some a"
    have "tpage (mem s1) root p'' \<noteq> Some n" if "tab_path p''" for p'' using that n1(2) by (auto simp: tabs_def)
    then show "p = p'" using p pt_ok_inj [OF ok1 p(1,2)] by (auto simp: tp split: if_splits)
  qed
  have "agree ({n} \<union> ({n} \<union> {pt})) (mem s) (mem ?s)" by (rule agree_trans [OF ag1 ag2])
  then have ag: "agree (tabs (mem s) root \<union> set (n # fl)) (mem s) (mem ?s)"
    by (rule agree_mono) (use ptp in auto)
  have rf: "refs ?s r = (if r \<in> set (n # fl) - set fl then 1 else refs s r)" if "frame s r" for r
    using k1(2) that d by (auto simp: add_table_def)
  have mono: "tpage (mem ?s) root p = Some a" if "tab_path p" "tpage (mem s) root p = Some a" for p a
    using tp [OF that(1)] that nqi s1(1) [OF that(1)] by auto
  have tb': "tabs (mem ?s) root = tabs (mem s) root \<union> (set (n # fl) - set fl)" using d tb by auto
  have "kend ?s = kend s" using k1(2) by (simp add: add_table_def)
  then have "pt_ext root s (n # fl) ?s fl"
    by (intro pt_extI [OF ok2 _ _ ag mono rf tb', of "[n]"]) simp_all
  then show ?thesis using tp qi lf s1(2) by simp
qed

definition walk_post :: "nat \<Rightarrow> addr \<Rightarrow> uint64 \<Rightarrow> kmem \<Rightarrow> addr list \<Rightarrow> addr \<Rightarrow> kmem \<Rightarrow> addr list \<Rightarrow> bool" where
  "walk_post l root va s fl r s' fl' \<longleftrightarrow> pt_ext root s fl s' fl' \<and>
     (\<forall>va. leaf (mem s') root va = leaf (mem s) root va) \<and> length fl \<le> length fl' + l \<and>
     (r = 0 \<and> length fl < l \<or> (\<exists>t. tpage (mem s') root (l0path va) = Some t \<and> r = slot t (PX 0 va)))"

lemma walk_postI:
  assumes "pt_ext root s fl s' fl'" "\<And>va. leaf (mem s') root va = leaf (mem s) root va"
    "length fl \<le> length fl' + l"
    "r = 0 \<and> length fl < l \<or> (\<exists>t. tpage (mem s') root (l0path va) = Some t \<and> r = slot t (PX 0 va))"
  shows "walk_post l root va s fl r s' fl'"
  unfolding walk_post_def using assms by blast

lemma walk_postD:
  assumes "walk_post l root va s fl r s' fl'"
  shows "pt_ext root s fl s' fl'" "\<And>va. leaf (mem s') root va = leaf (mem s) root va"
    "length fl \<le> length fl' + l"
    "r = 0 \<and> length fl < l \<or> (\<exists>t. tpage (mem s') root (l0path va) = Some t \<and> r = slot t (PX 0 va))"
  using assms unfolding walk_post_def by blast+

lemma walk_level_alloc:
  "\<lbrakk> pt_ok s fl root; tpage (mem s) root q = Some pt; tab_path q; q @ vpath l va = l0path va \<rbrakk> \<Longrightarrow>
   \<exists>r s' fl'. walk_level l pt va True s = Ok r s' \<and> walk_post l root va s fl r s' fl'"
proof (induction l arbitrary: pt s fl q)
  case 0
  then have "tpage (mem s) root (l0path va) = Some pt" by simp
  then have "walk_post 0 root va s fl (slot pt (PX 0 va)) s fl"
    using pt_ext_refl [OF "0.prems"(1)] by (intro walk_postI) simp_all
  then show ?case by auto
next
  case (Suc l)
  let ?i = "PX (Suc l) va" and ?e = "ld64 (mem s) (slot pt (PX (Suc l) va))"
  have path: "(q @ [?i]) @ vpath l va = l0path va" using Suc.prems(4) by simp
  have "length q < 2" using arg_cong [OF path, of length] by (simp del: vpath_simps)
  then have qi: "tab_path (q @ [?i])" using Suc.prems(3) by (simp add: tab_path_snoc PX_lt)
  show ?case
  proof (cases "?e AND PTE_V \<noteq> 0")
    case True
    then have "tpage (mem s) root (q @ [?i]) = Some (PTE2PA ?e)"
      using Suc.prems(2) by (simp add: tpage_snoc)
    from Suc.IH [OF Suc.prems(1) this qi path] obtain r s' fl' where
      ih: "walk_level l (PTE2PA ?e) va True s = Ok r s'" "walk_post l root va s fl r s' fl'" by blast
    have "walk_post (Suc l) root va s fl r s' fl'"
      using walk_postD [OF ih(2)] by (intro walk_postI) auto
    then show ?thesis using True ih(1) by (auto simp: Let_def)
  next
    case False
    show ?thesis
    proof (cases fl)
      case Nil
      then have "kalloc s = Ok 0 s" using pt_ok_inv [OF Suc.prems(1)] by (simp add: kalloc_nil)
      moreover have "walk_post (Suc l) root va s fl 0 s fl"
        using Nil pt_ext_refl [OF Suc.prems(1)] by (intro walk_postI) simp_all
      ultimately show ?thesis using False by (auto simp: Let_def)
    next
      case (Cons n fl')
      have inv: "kmem_inv s fl" "kmem_ok s (n # fl')" using pt_ok_inv [OF Suc.prems(1)] Cons by auto
      obtain s1 where k: "kalloc s = Ok n s1" using kalloc_cons [OF inv(2)] by blast
      have n0: "n \<noteq> 0" using kmem_inv_pages [OF inv(1)] Cons by auto
      let ?s = "add_table s1 n pt ?i"
      have ok0: "pt_ok s (n # fl') root" and nv: "?e AND PTE_V = 0" using Suc.prems(1) Cons False by auto
      note st = add_table_step [OF ok0 k Suc.prems(2) qi nv]
      then have ok: "pt_ok ?s fl' root" using pt_extD(1) by blast
      have w: "walk_level (Suc l) pt va True s = walk_level l n va True ?s"
        using False k n0 by (simp add: Let_def add_table_def memset_page)
      obtain r s' fl'' where
        ih: "walk_level l n va True ?s = Ok r s'" "walk_post l root va ?s fl' r s' fl''"
        using Suc.IH [OF ok _ qi path] st by blast
      note D = walk_postD [OF ih(2)]
      have "pt_ext root s fl s' fl''" using pt_ext_trans [of root s fl ?s fl' s' fl''] st D(1) inv(1) Cons by simp
      then have "walk_post (Suc l) root va s fl r s' fl''"
        by (rule walk_postI) (use st D(2,3,4) Cons in auto)
      then show ?thesis unfolding w ih(1) by blast
    qed
  qed
qed

lemma walk_alloc:
  assumes "pt_ok s fl root" and "va < MAXVA"
  shows "\<exists>r s' fl'. walk root va True s = Ok r s' \<and> walk_post 2 root va s fl r s' fl'"
proof -
  have "walk root va True s = walk_level 2 root va True s"
    using assms(2) by (simp add: walk_def not_le [symmetric] del: MAXVA_def)
  then show ?thesis using walk_level_alloc [OF assms(1), of "[]" root 2 va] by (simp add: vpath_2)
qed

subsection \<open>Writing an entry\<close>

lemma PX_PGROUNDDOWN [simp]: "PX l (PGROUNDDOWN va) = PX l va"
  by (rule bit_word_eqI) (auto simp: bit_PX bit_PGROUNDDOWN)

lemma l0path_PGROUNDDOWN [simp]: "l0path (PGROUNDDOWN va) = l0path va"
  by (simp add: l0path_def)

lemma leaf_PGROUNDDOWN [simp]: "leaf m root (PGROUNDDOWN va) = leaf m root va"
  by (simp add: leaf_def split: option.split)

lemma same_page_iff:
  assumes "va < MAXVA" "va' < MAXVA"
  shows "l0path va = l0path va' \<and> PX 0 va = PX 0 va' \<longleftrightarrow> PGROUNDDOWN va = PGROUNDDOWN va'"
proof
  assume "l0path va = l0path va' \<and> PX 0 va = PX 0 va'"
  moreover have "PGROUNDDOWN va < MAXVA" and "PGROUNDDOWN va' < MAXVA"
    by (rule le_less_trans [OF PGROUNDDOWN_le assms(1)], rule le_less_trans [OF PGROUNDDOWN_le assms(2)])
  ultimately show "PGROUNDDOWN va = PGROUNDDOWN va'"
    by - (rule PX_inj, simp_all add: l0path_def)
next
  assume "PGROUNDDOWN va = PGROUNDDOWN va'"
  then show "l0path va = l0path va' \<and> PX 0 va = PX 0 va'"
    using PX_PGROUNDDOWN [of 0 va] PX_PGROUNDDOWN [of 0 va'] l0path_PGROUNDDOWN [of va]
      l0path_PGROUNDDOWN [of va'] by simp
qed

lemma set_leaf_tpage:
  assumes ok: "pt_ok s fl root" and t: "tpage (mem s) root (l0path va) = Some t"
  shows "tab_path p \<Longrightarrow> tpage (st64 (mem s) (slot t (PX 0 va)) v) root p = tpage (mem s) root p"
proof (induction p rule: rev_induct)
  case Nil
  then show ?case by simp
next
  case (snoc j p)
  then have p: "tab_path p" "unat j < 512" "length p < 2" by (auto simp: tab_path_snoc)
  have al: "pgaligned t" using pt_ok_tpage [OF ok _ t] by simp
  have "ld64 (st64 (mem s) (slot t (PX 0 va)) v) (slot b j) = ld64 (mem s) (slot b j)"
    if b: "tpage (mem s) root p = Some b" for b
  proof -
    have "b \<noteq> t" using pt_ok_inj [OF ok p(1) _ b, of "l0path va"] t p(3) by auto
    then show ?thesis using pt_ok_tpage [OF ok p(1) b] al p PX_lt by (simp add: ld64_st64_slot)
  qed
  then show ?case using snoc.IH [OF p(1)] by (simp add: tpage_snoc split: option.split)
qed

lemma set_leaf:
  assumes ok: "pt_ok s fl root" and t: "tpage (mem s) root (l0path va) = Some t" and va: "va < MAXVA"
  shows "pt_ext root s fl (s\<lparr>mem := st64 (mem s) (slot t (PX 0 va)) v\<rparr>) fl" (is ?A)
    and "va' < MAXVA \<Longrightarrow> leaf (st64 (mem s) (slot t (PX 0 va)) v) root va'
           = (if PGROUNDDOWN va' = PGROUNDDOWN va then v else leaf (mem s) root va')"
proof -
  let ?m = "st64 (mem s) (slot t (PX 0 va)) v"
  note tp = set_leaf_tpage [OF ok t]
  have tt: "pgaligned t" "t \<notin> set fl" using pt_ok_tpage [OF ok _ t] by simp_all
  have tb: "t \<in> tabs (mem s) root" unfolding tabs_def using t tab_path_va(1) by blast
  have ag: "agree {t} (mem s) ?m"
    using agree_st64 [OF slot_bytes(3) [OF tt(1) PX_lt]] by (simp add: slot_bytes(4) [OF tt(1) PX_lt])
  have inv: "kmem_inv (s\<lparr>mem := ?m\<rparr>) fl"
    using tt pt_ok_inv [OF ok] by (intro kmem_inv_mem [OF _ ag]) auto
  have fr: "frame s a \<and> a \<notin> set fl" if "tab_path p" "tpage ?m root p = Some a" for p a
    using pt_ok_tpage [OF ok that(1), of a] that tp [OF that(1)] by simp
  have inj: "p = q" if "tab_path p" "tab_path q" "tpage ?m root p = Some a" "tpage ?m root q = Some a" for p q a
    using pt_ok_inj [OF ok that(1,2), of a] that(3,4) unfolding tp [OF that(1)] tp [OF that(2)] by blast
  have ok': "pt_ok (s\<lparr>mem := ?m\<rparr>) fl root"
  proof (rule pt_okI)
    show "kmem_inv (s\<lparr>mem := ?m\<rparr>) fl" by (rule inv)
  next
    fix p a assume "tab_path p" "tpage (mem (s\<lparr>mem := ?m\<rparr>)) root p = Some a"
    then show "frame (s\<lparr>mem := ?m\<rparr>) a \<and> a \<notin> set fl" using fr [of p a] by simp
  next
    fix p q a assume "tab_path p" "tab_path q" "tpage (mem (s\<lparr>mem := ?m\<rparr>)) root p = Some a"
      "tpage (mem (s\<lparr>mem := ?m\<rparr>)) root q = Some a"
    then show "p = q" using inj [of p q a] by simp
  qed
  have "agree (tabs (mem s) root \<union> set fl) (mem s) ?m" by (rule agree_mono [OF ag]) (use tb in blast)
  moreover have "tabs ?m root = tabs (mem s) root" using tp by (auto simp: tabs_def)
  ultimately show ?A using tp by (intro pt_extI [OF ok', of _ "[]"]) simp_all
  assume va': "va' < MAXVA"
  show "leaf ?m root va' = (if PGROUNDDOWN va' = PGROUNDDOWN va then v else leaf (mem s) root va')"
  proof (cases "tpage (mem s) root (l0path va')")
    case None
    then have "l0path va' \<noteq> l0path va" using t by auto
    then have "PGROUNDDOWN va' \<noteq> PGROUNDDOWN va" using same_page_iff [OF va' va] by blast
    then show ?thesis using None tp by (simp add: leaf_def)
  next
    case (Some t')
    have "l0path va' = l0path va" if "t' = t"
      using pt_ok_inj [OF ok tab_path_va(1) tab_path_va(1) Some] t that by blast
    moreover have "t' = t" if "l0path va' = l0path va" using t Some that by simp
    moreover have "pgaligned t'" using pt_ok_tpage [OF ok _ Some] by simp
    then have "ld64 ?m (slot t' (PX 0 va')) =
        (if t = t' \<and> PX 0 va = PX 0 va' then v else ld64 (mem s) (slot t' (PX 0 va')))"
      by (rule ld64_st64_slot [OF tt(1) _ PX_lt PX_lt])
    moreover have "leaf ?m root va' = ld64 ?m (slot t' (PX 0 va'))" using Some tp by (simp add: leaf_def)
    moreover have "leaf (mem s) root va' = ld64 (mem s) (slot t' (PX 0 va'))" using Some by (simp add: leaf_def)
    ultimately show ?thesis unfolding same_page_iff [OF va' va, symmetric] by presburger
  qed
qed

subsection \<open>The empty page table\<close>

definition zero_table :: "memory \<Rightarrow> addr \<Rightarrow> bool" where
  "zero_table m root \<longleftrightarrow> (\<forall>i. unat i < 512 \<longrightarrow> ld64 m (slot root i) = 0)"

lemma zero_table_fill: "pgaligned p \<Longrightarrow> zero_table (fill m p 0 4096) p"
  unfolding zero_table_def
proof (intro allI impI)
  fix i :: uint64 assume "pgaligned p" "unat i < 512"
  then show "ld64 (fill m p 0 4096) (slot p i) = 0"
    unfolding slot_bytes(1) [OF \<open>pgaligned p\<close> \<open>unat i < 512\<close>] by (rule ld64_fill_in)
qed

lemma zero_table_tpage:
  assumes "zero_table m root" and "tab_path p"
  shows "tpage m root p = (if p = [] then Some root else None)"
  using assms by (cases p) (auto simp: zero_table_def tab_path_def)

lemma zero_table_leaf: "zero_table m root \<Longrightarrow> leaf m root va = 0"
proof -
  assume "zero_table m root"
  then have "tpage m root (l0path va) = (if l0path va = [] then Some root else None)"
    by (rule zero_table_tpage) simp
  moreover have "l0path va \<noteq> []" by (simp add: l0path_def)
  ultimately show ?thesis by (simp add: leaf_def)
qed

lemma zero_table_pt_ok:
  assumes "zero_table (mem s) root" "kmem_inv s fl" "frame s root" "root \<notin> set fl"
  shows "pt_ok s fl root"
  using assms zero_table_tpage [OF assms(1)] by (intro pt_okI) (auto split: if_splits)

lemma zero_table_tabs: "zero_table m root \<Longrightarrow> tabs m root = {root}"
proof (intro set_eqI iffI)
  fix a assume "zero_table m root" "a \<in> tabs m root"
  then show "a \<in> {root}" using zero_table_tpage [of m root] by (auto simp: tabs_def split: if_splits)
next
  fix a assume "zero_table m root" "a \<in> {root}"
  then show "a \<in> tabs m root" unfolding tabs_def by (auto intro: exI [of _ "[]"])
qed

lemma pool_state_root:
  assumes "KERNBASE \<le> e" "e \<le> PHYSTOP" "distinct fl" "\<forall>p \<in> set fl. pgaligned p \<and> e \<le> p \<and> p < PHYSTOP"
    and root: "pgaligned root" "e \<le> root" "root < PHYSTOP" "root \<notin> set fl"
  shows "pt_ok (pool_state e fl) fl root" "leaf (mem (pool_state e fl)) root va = 0"
proof -
  have ag: "agree (set fl) (\<lambda>_. 0) (mem (pool_state e fl))"
    using assms(4) link_mem_agree [of fl] by (simp add: pool_state_def)
  have "ld64 (mem (pool_state e fl)) (slot root i) = 0" if "unat i < 512" for i
    using root that by (subst agree_ld64 [OF ag]) (simp_all add: slot_bytes(3,4), simp add: ld64_def)
  then have z: "zero_table (mem (pool_state e fl)) root" by (simp add: zero_table_def)
  then show "leaf (mem (pool_state e fl)) root va = 0" by (rule zero_table_leaf)
  show "pt_ok (pool_state e fl) fl root"
    by (rule zero_table_pt_ok [OF z pool_state_inv [OF assms(1-4)]])
      (use root in \<open>simp_all add: frame_def pool_state_def\<close>)
qed

end
