(* ===== verification/Vmmap.thy ===== *)
theory Vmmap
  imports Vm
begin

section \<open>Mapping and unmapping ranges\<close>

text \<open>
  What \<^verbatim>\<open>mappages\<close> and \<^verbatim>\<open>uvmunmap\<close> do to a page table as a function from pages to
  entries, on success and when memory runs out half way, and what unmapping gives back to
  the allocator.
\<close>

definition map_entry :: "uint64 \<Rightarrow> uint64 \<Rightarrow> uint64 \<Rightarrow> uint64 \<Rightarrow> uint64" where
  "map_entry a pa perm va = PA2PTE (pa + (PGROUNDDOWN va - a)) OR perm OR PTE_V"

definition mapped_upto :: "addr \<Rightarrow> uint64 \<Rightarrow> uint64 \<Rightarrow> uint64 \<Rightarrow> uint64 \<Rightarrow> memory \<Rightarrow> memory \<Rightarrow> bool" where
  "mapped_upto root a b pa perm m m' \<longleftrightarrow> (\<forall>va < MAXVA.
     leaf m' root va = (if a \<le> PGROUNDDOWN va \<and> PGROUNDDOWN va < b then map_entry a pa perm va
                        else leaf m root va))"

definition map_post :: "nat \<Rightarrow> addr \<Rightarrow> uint64 \<Rightarrow> uint64 \<Rightarrow> uint64 \<Rightarrow> kmem \<Rightarrow> addr list \<Rightarrow> int \<Rightarrow> kmem \<Rightarrow> addr list \<Rightarrow> bool" where
  "map_post n root a pa perm s fl r s' fl' \<longleftrightarrow> pt_ext root s fl s' fl' \<and>
     (r = 0 \<and> mapped_upto root a (a + of_nat n * PGSIZE) pa perm (mem s) (mem s') \<or>
      r = -1 \<and> length fl < 2 * n \<and> (\<exists>k < n. mapped_upto root a (a + of_nat k * PGSIZE) pa perm (mem s) (mem s')))"

lemma aligned_step:
  assumes "pgaligned a" "pgaligned v" "unat a + 4096 < 2 ^ 64"
  shows "a \<le> v \<longleftrightarrow> v = a \<or> a + 4096 \<le> v"
proof -
  have u: "unat (a + 4096) = unat a + 4096" using assms(3) by (simp add: unat_word_ariths)
  obtain b where b: "unat a = 4096 * b" using assms(1) by (rule pgalignedE)
  obtain c where c: "unat v = 4096 * c" using assms(2) by (rule pgalignedE)
  have "a \<le> v \<longleftrightarrow> b \<le> c" by (simp add: word_le_nat_alt b c)
  moreover have "v = a \<longleftrightarrow> c = b" by (simp add: word_unat_eq_iff b c)
  moreover have "a + 4096 \<le> v \<longleftrightarrow> Suc b \<le> c" unfolding word_le_nat_alt u b c by arith
  ultimately show ?thesis by arith
qed

lemma mapped_one:
  assumes "\<And>va'. va' < MAXVA \<Longrightarrow> leaf m' root va' = (if PGROUNDDOWN va' = a then PA2PTE pa OR perm OR PTE_V else leaf m root va')"
    and "pgaligned a" and "unat a + 4096 < 2 ^ 64"
  shows "mapped_upto root a (a + 4096) pa perm m m'"
proof -
  have "a \<le> PGROUNDDOWN va \<and> PGROUNDDOWN va < a + 4096 \<longleftrightarrow> PGROUNDDOWN va = a" for va
    using aligned_step [OF assms(2) pgaligned_PGROUNDDOWN assms(3), of va] assms(3)
    by (auto simp: not_le [symmetric] word_le_nat_alt unat_word_ariths)
  then show ?thesis using assms(1) by (simp add: mapped_upto_def map_entry_def)
qed

lemma mapped_step:
  assumes one: "\<And>va'. va' < MAXVA \<Longrightarrow> leaf m1 root va' = (if PGROUNDDOWN va' = a then PA2PTE pa OR perm OR PTE_V else leaf m root va')"
    and rest: "mapped_upto root (a + 4096) b (pa + 4096) perm m1 m2"
    and a: "pgaligned a" "unat a + 4096 < 2 ^ 64" "a + 4096 \<le> b"
  shows "mapped_upto root a b pa perm m m2"
  unfolding mapped_upto_def
proof (intro allI impI)
  fix va assume va: "va < MAXVA"
  let ?v = "PGROUNDDOWN va"
  have st: "a \<le> ?v \<longleftrightarrow> ?v = a \<or> a + 4096 \<le> ?v" by (rule aligned_step [OF a(1) _ a(2)]) simp
  have na: "\<not> a + 4096 \<le> a" using a(2) by (simp add: word_le_nat_alt unat_word_ariths)
  have e: "map_entry (a + 4096) (pa + 4096) perm va = map_entry a pa perm va" by (simp add: map_entry_def)
  have "leaf m2 root va = (if a + 4096 \<le> ?v \<and> ?v < b then map_entry a pa perm va else leaf m1 root va)"
    using rest va e by (simp add: mapped_upto_def)
  also have "leaf m1 root va = (if ?v = a then map_entry a pa perm va else leaf m root va)"
    using one [OF va] by (simp add: map_entry_def)
  finally show "leaf m2 root va = (if a \<le> ?v \<and> ?v < b then map_entry a pa perm va else leaf m root va)"
    using st na a(3) by (cases "?v = a") (auto simp: not_le)
qed

lemma mapped_none: "mapped_upto root a a pa perm m m' \<longleftrightarrow> (\<forall>va < MAXVA. leaf m' root va = leaf m root va)"
proof -
  have "(a \<le> v \<and> v < a) = False" for v using leD by blast
  then show ?thesis unfolding mapped_upto_def by (simp only: if_False)
qed

subsection \<open>One page\<close>

text \<open>The effect of setting the entry of the page of \<open>va\<close> to \<open>v\<close>, new tables included.\<close>

definition page_set :: "addr \<Rightarrow> uint64 \<Rightarrow> uint64 \<Rightarrow> kmem \<Rightarrow> addr list \<Rightarrow> kmem \<Rightarrow> addr list \<Rightarrow> bool" where
  "page_set root va v s fl s' fl' \<longleftrightarrow> pt_ext root s fl s' fl' \<and> length fl \<le> length fl' + 2 \<and>
     (\<forall>va' < MAXVA. leaf (mem s') root va'
        = (if PGROUNDDOWN va' = PGROUNDDOWN va then v else leaf (mem s) root va'))"

lemma page_setD:
  assumes "page_set root va v s fl s' fl'"
  shows "pt_ext root s fl s' fl'" "length fl \<le> length fl' + 2"
    "\<And>va'. va' < MAXVA \<Longrightarrow> leaf (mem s') root va'
        = (if PGROUNDDOWN va' = PGROUNDDOWN va then v else leaf (mem s) root va')"
  using assms unfolding page_set_def by blast+

text \<open>One iteration of the loop of \<^verbatim>\<open>mappages\<close>: the walk and the store.\<close>

lemma mappages_iter:
  assumes ok: "pt_ok s fl root" and va: "va < MAXVA" and nv: "leaf (mem s) root va AND PTE_V = 0"
  obtains (fail) s1 fl1 where "walk root va True s = Ok 0 s1" "pt_ext root s fl s1 fl1"
      "length fl < 2" "\<forall>va. leaf (mem s1) root va = leaf (mem s) root va"
  | (found) pte s1 fl1 where "walk root va True s = Ok pte s1" "pte \<noteq> 0" "ld64 (mem s1) pte AND PTE_V = 0"
      "page_set root va v s fl (s1\<lparr>mem := st64 (mem s1) pte v\<rparr>) fl1"
proof -
  obtain pte s1 fl1 where w: "walk root va True s = Ok pte s1" "walk_post 2 root va s fl pte s1 fl1"
    using walk_alloc [OF ok va] by blast
  note D = walk_postD [OF w(2)]
  show ?thesis
  proof (cases "pte = 0 \<and> length fl < 2")
    case True
    then show ?thesis using w(1) D(1,2) fail by blast
  next
    case False
    then obtain t where t: "tpage (mem s1) root (l0path va) = Some t" "pte = slot t (PX 0 va)" using D(4) by blast
    note ok1 = pt_extD(1) [OF D(1)]
    note L = set_leaf [OF ok1 t(1) va]
    have "pte \<noteq> 0"
      using slot_neq0 [OF pt_ok_kernel_end [OF ok1] _ PX_lt] pt_ok_tpage [OF ok1 _ t(1)] t(2) by simp
    moreover have "ld64 (mem s1) pte AND PTE_V = 0" using nv D(2) [of va] t by (simp add: leaf_def)
    moreover have "pt_ext root s fl (s1\<lparr>mem := st64 (mem s1) pte v\<rparr>) fl1"
      unfolding t(2) using pt_ok_inv [OF ok] by (intro pt_ext_trans [OF D(1) L(1)]) simp
    then have "page_set root va v s fl (s1\<lparr>mem := st64 (mem s1) pte v\<rparr>) fl1"
      unfolding page_set_def t(2) using L(2) D(2,3) by simp
    ultimately show ?thesis using w(1) found by blast
  qed
qed

subsection \<open>The loop of mappages\<close>

lemma map_post_fail:
  assumes "pt_ext root s fl s1 fl1" "length fl < 2" "\<forall>va. leaf (mem s1) root va = leaf (mem s) root va"
  shows "map_post (Suc n) root a pa perm s fl (-1) s1 fl1"
proof -
  have "mapped_upto root a (a + of_nat 0 * PGSIZE) pa perm (mem s) (mem s1)"
    using assms(3) by (simp add: mapped_none)
  then show ?thesis using assms unfolding map_post_def by (intro conjI disjI2 exI [of _ 0]) simp_all
qed

lemma map_post_one:
  assumes p: "page_set root a (PA2PTE pa OR perm OR PTE_V) s fl s1 fl1"
    and a: "pgaligned a" "unat a + 4096 < 2 ^ 64"
  shows "map_post (Suc 0) root a pa perm s fl 0 s1 fl1"
proof -
  have "mapped_upto root a (a + 4096) pa perm (mem s) (mem s1)"
    using page_setD(3) [OF p] a by (intro mapped_one) (simp_all add: PGROUNDDOWN_id)
  then show ?thesis using page_setD(1) [OF p] by (simp add: map_post_def)
qed

lemma map_post_step:
  assumes p: "page_set root a (PA2PTE pa OR perm OR PTE_V) s fl s1 fl1"
    and rest: "map_post n root (a + PGSIZE) (pa + PGSIZE) perm s1 fl1 r s' fl'"
    and a: "pgaligned a" "unat a + 4096 * Suc n < 2 ^ 64" and inv: "kmem_inv s fl"
  shows "map_post (Suc n) root a pa perm s fl r s' fl'"
proof -
  note P = page_setD [OF p]
  have ext: "pt_ext root s fl s' fl'"
    using rest inv unfolding map_post_def by (blast intro: pt_ext_trans [OF P(1)])
  have st: "mapped_upto root a (a + of_nat (Suc k) * PGSIZE) pa perm (mem s) (mem s')"
    if k: "mapped_upto root (a + PGSIZE) (a + PGSIZE + of_nat k * PGSIZE) (pa + PGSIZE) perm (mem s1) (mem s')"
      "k \<le> n" for k
  proof -
    have kk: "4096 * k \<le> 4096 * n" using k(2) by (rule mult_le_mono2)
    have "unat (of_nat k * PGSIZE :: uint64) = 4096 * k"
      using a(2) kk unat_of_nat64 [of "k * 4096"] by simp
    then have "a + 4096 \<le> a + 4096 + of_nat k * PGSIZE"
      using a(2) kk unfolding word_le_nat_alt by (simp add: unat_word_ariths)
    moreover have "a + of_nat (Suc k) * PGSIZE = a + 4096 + of_nat k * PGSIZE" by (simp add: algebra_simps)
    ultimately show ?thesis
      using mapped_step [of "mem s1" root a pa perm "mem s" "a + 4096 + of_nat k * PGSIZE" "mem s'"] P(3) k(1) a
      by (simp add: add.assoc PGROUNDDOWN_id)
  qed
  from rest consider "r = 0" "mapped_upto root (a + PGSIZE) (a + PGSIZE + of_nat n * PGSIZE) (pa + PGSIZE) perm (mem s1) (mem s')"
    | k where "r = -1" "length fl1 < 2 * n" "k < n"
        "mapped_upto root (a + PGSIZE) (a + PGSIZE + of_nat k * PGSIZE) (pa + PGSIZE) perm (mem s1) (mem s')"
    unfolding map_post_def by blast
  then show ?thesis
  proof cases
    case 1
    with st [of n] ext show ?thesis unfolding map_post_def by blast
  next
    case 2
    have "mapped_upto root a (a + of_nat (Suc k) * PGSIZE) pa perm (mem s) (mem s')" using st 2 by simp
    moreover have "length fl < 2 * Suc n" "Suc k < Suc n" using 2 P(2) by simp_all
    ultimately show ?thesis using ext 2(1) unfolding map_post_def by blast
  qed
qed

lemma mappages_loop_ok:
  "\<lbrakk> pt_ok s fl root; pgaligned a; unat lst = unat a + 4096 * n; lst < MAXVA;
     \<And>va. va < MAXVA \<Longrightarrow> a \<le> PGROUNDDOWN va \<Longrightarrow> PGROUNDDOWN va \<le> lst \<Longrightarrow> leaf (mem s) root va AND PTE_V = 0 \<rbrakk> \<Longrightarrow>
   \<exists>r s' fl'. mappages_loop root a lst pa perm s = Ok r s' \<and> map_post (Suc n) root a pa perm s fl r s' fl'"
proof (induction n arbitrary: a pa s fl)
  case (0 a pa s fl)
  then have la: "lst = a" by (simp add: word_unat_eq_iff)
  then have room: "unat a + 4096 < 2 ^ 64" and a: "a < MAXVA" "PGROUNDDOWN a = a"
    using "0.prems"(2,4) by (simp_all add: word_less_nat_alt PGROUNDDOWN_id)
  then have nv: "leaf (mem s) root a AND PTE_V = 0" using "0.prems"(5) [of a] la by simp
  show ?case
  proof (rule mappages_iter [OF "0.prems"(1) a(1) nv, where v = "PA2PTE pa OR perm OR PTE_V"], goal_cases)
    case (1 s1 fl1)
    then have "map_post (Suc 0) root a pa perm s fl (-1) s1 fl1" by (intro map_post_fail)
    with 1 show ?case by (auto simp: mappages_loop.simps [of root a])
  next
    case (2 pte s1 fl1)
    with map_post_one [OF 2(4) "0.prems"(2) room] la show ?case by (auto simp: mappages_loop.simps [of root a])
  qed
next
  case (Suc n a pa s fl)
  have lt: "unat lst < 2 ^ 38" using Suc.prems(4) by (simp add: word_less_nat_alt)
  then have room: "unat a + 4096 * Suc (Suc n) < 2 ^ 64" using Suc.prems(3) by simp
  then have u: "unat (a + PGSIZE) = unat a + 4096" by (simp add: unat_word_ariths)
  have a: "a < MAXVA" "PGROUNDDOWN a = a" "a \<le> lst" "lst \<noteq> a"
    using Suc.prems(2,3,4) lt by (auto simp: PGROUNDDOWN_id word_less_nat_alt word_le_nat_alt)
  then have nv: "leaf (mem s) root a AND PTE_V = 0" using Suc.prems(5) [of a] by simp
  show ?case
  proof (rule mappages_iter [OF Suc.prems(1) a(1) nv, where v = "PA2PTE pa OR perm OR PTE_V"], goal_cases)
    case (1 s1 fl1)
    then have "map_post (Suc (Suc n)) root a pa perm s fl (-1) s1 fl1" by (intro map_post_fail)
    with 1 show ?case by (auto simp: mappages_loop.simps [of root a])
  next
    case (2 pte s1 fl1)
    let ?s = "s1\<lparr>mem := st64 (mem s1) pte (PA2PTE pa OR perm OR PTE_V)\<rparr>"
    note P = page_setD [OF 2(4)]
    have inv: "leaf (mem ?s) root va AND PTE_V = 0"
      if v: "va < MAXVA" "a + PGSIZE \<le> PGROUNDDOWN va" "PGROUNDDOWN va \<le> lst" for va
    proof -
      have "unat a + 4096 \<le> unat (PGROUNDDOWN va)" using v(2) u by (simp only: word_le_nat_alt)
      then have "PGROUNDDOWN va \<noteq> a" "a \<le> PGROUNDDOWN va" by (auto simp: word_le_nat_alt)
      then show ?thesis using P(3) [OF v(1)] a(2) Suc.prems(5) [OF v(1) _ v(3)] by simp
    qed
    have "pgaligned (a + PGSIZE)" "unat lst = unat (a + PGSIZE) + 4096 * n"
      using Suc.prems(2,3) u by (simp_all add: pgaligned_add)
    then obtain r s' fl' where ih: "mappages_loop root (a + PGSIZE) lst (pa + PGSIZE) perm ?s = Ok r s'"
        "map_post (Suc n) root (a + PGSIZE) (pa + PGSIZE) perm ?s fl1 r s' fl'"
      using Suc.IH [OF pt_extD(1) [OF P(1)] _ _ Suc.prems(4) inv] by blast
    have "map_post (Suc (Suc n)) root a pa perm s fl r s' fl'"
      using map_post_step [OF 2(4) ih(2) Suc.prems(2) room] pt_ok_inv [OF Suc.prems(1)] by blast
    moreover have "mappages_loop root a lst pa perm s = Ok r s'"
      using 2 a(4) ih(1) by (auto simp: mappages_loop.simps [of root a])
    ultimately show ?case by blast
  qed
qed

subsection \<open>Properties\<close>



end
