(* ===== verification/Uvm.thy ===== *)
theory Uvm
  imports Vmmap
begin

section \<open>User memory\<close>

text \<open>
  The rest of \<^verbatim>\<open>kernel/vm.c\<close>: creating, growing, shrinking, copying and freeing user address
  spaces, page faults (lazy allocation and copy-on-write) and the copies between kernel and
  user memory. The current process enters only through its size and page table, which
  \<^verbatim>\<open>vmfault\<close> reads from \<^verbatim>\<open>myproc()\<close>; they are the arguments \<open>psz\<close> and \<open>ppt\<close>. A kernel buffer
  that is copied to or from user space is a list of bytes: \<^verbatim>\<open>copyout\<close> takes the bytes of its
  source, \<^verbatim>\<open>copyin\<close> and \<^verbatim>\<open>copyinstr\<close> return the bytes they stored at their destination
  together with the result of the call.
\<close>

subsection \<open>Address spaces\<close>

definition uvmcreate :: "kmem \<Rightarrow> (kmem, addr) res" where
  "uvmcreate s =
     kbind (kalloc s) (\<lambda>pagetable s.
       if pagetable = 0 then Ok 0 s
       else Ok pagetable (s\<lparr>mem := memset (mem s) pagetable 0 4096\<rparr>))"

definition uvminit :: "addr \<Rightarrow> uint8 list \<Rightarrow> kmem \<Rightarrow> (kmem, unit) res" where
  "uvminit pagetable src s =
     (if length src \<ge> 4096 then Panic ''uvminit: more than a page''
      else kbind (kalloc s) (\<lambda>m s.
        kbind (mappages pagetable 0 PGSIZE m (PTE_R OR PTE_W OR PTE_X OR PTE_U OR PTE_A OR PTE_THEAD_MAEE)
                 (s\<lparr>mem := memset (mem s) m 0 4096\<rparr>)) (\<lambda>_ s.
        Ok () (s\<lparr>mem := put_bytes (mem s) m src\<rparr>))))"

text \<open>The number of pages is held in an \<^verbatim>\<open>int\<close> and converted back to 64 bits.\<close>

definition uvmdealloc :: "addr \<Rightarrow> uint64 \<Rightarrow> uint64 \<Rightarrow> kmem \<Rightarrow> (kmem, uint64) res" where
  "uvmdealloc pagetable oldsz newsz s =
     (if newsz \<ge> oldsz then Ok oldsz s
      else if PGROUNDUP newsz < PGROUNDUP oldsz
      then let npages = (ucast ((PGROUNDUP oldsz - PGROUNDUP newsz) div PGSIZE) :: 32 word)
           in kbind (uvmunmap pagetable (PGROUNDUP newsz) (scast npages) True s) (\<lambda>_ s. Ok newsz s)
      else Ok newsz s)"

lemma mappages_Ok_lt: "mappages pt va sz pa perm s = Ok r s' \<Longrightarrow> va < MAXVA"
proof -
  assume "mappages pt va sz pa perm s = Ok r s'"
  then have "PGROUNDDOWN va < MAXVA"
    unfolding mappages_def
    by (subst (asm) mappages_loop.simps) (auto simp only: kbind_eq_Ok dest: walk_Ok_lt)
  then have "unat va div 4096 * 4096 < 2 ^ 26 * 4096"
    by (simp add: word_less_nat_alt unat_PGROUNDDOWN)
  then have "unat va div 4096 < 2 ^ 26" by (simp only: mult_less_cancel2)
  then have "unat va < 2 ^ 26 * 4096" using less_mult_imp_div_less div_less_iff_less_mult by simp
  then show ?thesis by (simp add: word_less_nat_alt)
qed

function uvmalloc_loop :: "addr \<Rightarrow> uint64 \<Rightarrow> uint64 \<Rightarrow> uint64 \<Rightarrow> uint64 \<Rightarrow> kmem \<Rightarrow> (kmem, uint64) res" where
  "uvmalloc_loop pagetable a oldsz newsz xperm s =
     (if a < newsz
      then kbind (kalloc s) (\<lambda>m s.
             if m = 0 then kbind (uvmdealloc pagetable a oldsz s) (\<lambda>_ s. Ok 0 s)
             else kbind (mappages pagetable a PGSIZE m
                           (PTE_R OR PTE_U OR xperm OR PTE_A OR PTE_D OR PTE_THEAD_MAEE)
                           (s\<lparr>mem := memset (mem s) m 0 4096\<rparr>)) (\<lambda>r s.
                    if r \<noteq> 0
                    then kbind (kfree m s) (\<lambda>_ s. kbind (uvmdealloc pagetable a oldsz s) (\<lambda>_ s. Ok 0 s))
                    else uvmalloc_loop pagetable (a + PGSIZE) oldsz newsz xperm s))
      else Ok newsz s)"
  by pat_completeness auto
termination
  by (relation "measure (\<lambda>(pt, a, oldsz, newsz, xperm, s). va_left a)")
    (auto simp only: in_measure wf_measure prod.case dest!: mappages_Ok_lt intro: va_left_step)

declare uvmalloc_loop.simps [simp del]

definition uvmalloc :: "addr \<Rightarrow> uint64 \<Rightarrow> uint64 \<Rightarrow> uint64 \<Rightarrow> kmem \<Rightarrow> (kmem, uint64) res" where
  "uvmalloc pagetable oldsz newsz xperm s =
     (if newsz < oldsz then Ok oldsz s
      else uvmalloc_loop pagetable (PGROUNDUP oldsz) (PGROUNDUP oldsz) newsz xperm s)"

definition uvmfree :: "addr \<Rightarrow> uint64 \<Rightarrow> kmem \<Rightarrow> (kmem, unit) res" where
  "uvmfree pagetable sz s =
     kbind (if sz > 0 then uvmunmap pagetable 0 (PGROUNDUP sz div PGSIZE) True s else Ok () s)
       (\<lambda>_ s. freewalk 3 pagetable s)"

function uvmcopy_loop :: "addr \<Rightarrow> addr \<Rightarrow> uint64 \<Rightarrow> uint64 \<Rightarrow> kmem \<Rightarrow> (kmem, int) res" where
  "uvmcopy_loop old new sz i s =
     (if i < sz
      then kbind (walk old i False s) (\<lambda>pte s.
             if pte = 0 then uvmcopy_loop old new sz (i + PGSIZE) s
             else let e = ld64 (mem s) pte
                  in if e AND PTE_V = 0 then uvmcopy_loop old new sz (i + PGSIZE) s
             else let pa = PTE2PA e;
                      fl = e AND NOT 0x003FFFFFFFFFFC00;
                      s = krefpage pa s;
                      flags = (if fl AND PTE_W \<noteq> 0 then (fl OR PTE_COW) AND NOT PTE_W else fl);
                      s = (if fl AND PTE_W \<noteq> 0
                           then s\<lparr>mem := st64 (mem s) pte ((e AND NOT (PTE_W OR PTE_COW)) OR PTE_COW)\<rparr> else s)
                  in kbind (mappages new i PGSIZE pa flags s) (\<lambda>r s.
                       if r \<noteq> 0 then kbind (uvmunmap new 0 (i div PGSIZE) True s) (\<lambda>_ s. Ok (-1) s)
                       else uvmcopy_loop old new sz (i + PGSIZE) s))
      else Ok 0 s)"
  by pat_completeness auto
termination
  by (relation "measure (\<lambda>(old, new, sz, i, s). va_left i)")
    (auto simp only: in_measure wf_measure prod.case dest!: mappages_Ok_lt walk_Ok_lt intro: va_left_step)

declare uvmcopy_loop.simps [simp del]

definition uvmcopy :: "addr \<Rightarrow> addr \<Rightarrow> uint64 \<Rightarrow> kmem \<Rightarrow> (kmem, int) res" where
  "uvmcopy old new sz s = uvmcopy_loop old new sz 0 s"

definition proc_pagetable :: "uint64 \<Rightarrow> addr \<Rightarrow> kmem \<Rightarrow> (kmem, addr) res" where
  "proc_pagetable trampoline trapframe s =
     kbind (uvmcreate s) (\<lambda>pagetable s.
       if pagetable = 0 then Ok 0 s
       else kbind (mappages pagetable TRAMPOLINE PGSIZE trampoline (PTE_R OR PTE_X OR PTE_A) s) (\<lambda>r s.
         if r < 0 then kbind (uvmfree pagetable 0 s) (\<lambda>_ s. Ok 0 s)
         else kbind (mappages pagetable TRAPFRAME PGSIZE trapframe
                       (PTE_R OR PTE_W OR PTE_A OR PTE_D OR PTE_THEAD_MAEE) s) (\<lambda>r s.
           if r < 0
           then kbind (uvmunmap pagetable TRAMPOLINE 1 False s) (\<lambda>_ s.
                kbind (uvmfree pagetable 0 s) (\<lambda>_ s. Ok 0 s))
           else Ok pagetable s)))"

definition proc_freepagetable :: "addr \<Rightarrow> uint64 \<Rightarrow> kmem \<Rightarrow> (kmem, unit) res" where
  "proc_freepagetable pagetable sz s =
     kbind (uvmunmap pagetable TRAMPOLINE 1 False s) (\<lambda>_ s.
     kbind (uvmunmap pagetable TRAPFRAME 1 False s) (\<lambda>_ s.
     uvmfree pagetable sz s))"

subsection \<open>Lookups and faults\<close>

definition ismapped :: "addr \<Rightarrow> uint64 \<Rightarrow> kmem \<Rightarrow> (kmem, bool) res" where
  "ismapped pagetable va s =
     kbind (walk pagetable va False s) (\<lambda>pte s.
       if pte = 0 then Ok False s
       else if ld64 (mem s) pte AND PTE_V \<noteq> 0 then Ok True s
       else Ok False s)"

definition walkaddr :: "addr \<Rightarrow> uint64 \<Rightarrow> kmem \<Rightarrow> (kmem, addr) res" where
  "walkaddr pagetable va s =
     (if va \<ge> MAXVA then Ok 0 s
      else kbind (walk pagetable va False s) (\<lambda>pte s.
        if pte = 0 then Ok 0 s
        else if ld64 (mem s) pte AND PTE_V = 0 then Ok 0 s
        else if ld64 (mem s) pte AND PTE_U = 0 then Ok 0 s
        else Ok (PTE2PA (ld64 (mem s) pte)) s))"

definition uvmclear :: "addr \<Rightarrow> uint64 \<Rightarrow> kmem \<Rightarrow> (kmem, unit) res" where
  "uvmclear pagetable va s =
     kbind (walk pagetable va False s) (\<lambda>pte s.
       if pte = 0 then Panic ''uvmclear''
       else Ok () (s\<lparr>mem := st64 (mem s) pte (ld64 (mem s) pte AND NOT PTE_U)\<rparr>))"

definition vmfault_cow :: "addr \<Rightarrow> kmem \<Rightarrow> (kmem, addr) res" where
  "vmfault_cow pte s =
     (let e = ld64 (mem s) pte;
          pa = PTE2PA e;
          flags = e AND NOT 0x003FFFFFFFFFFC00
      in kbind (kalloc s) (\<lambda>m s.
           if m = 0 then Ok 0 s
           else let s = s\<lparr>mem := memmove (mem s) m pa 4096\<rparr>;
                    flags = (flags OR PTE_W) AND NOT PTE_COW;
                    s = s\<lparr>mem := st64 (mem s) pte (PA2PTE m OR flags OR PTE_V)\<rparr>
                in kbind (kfree pa s) (\<lambda>_ s. Ok m s)))"

definition vmfault_lazy :: "addr \<Rightarrow> uint64 \<Rightarrow> kmem \<Rightarrow> (kmem, addr) res" where
  "vmfault_lazy ppt va s =
     kbind (kalloc s) (\<lambda>m s.
       if m = 0 then Ok 0 s
       else kbind (mappages ppt va PGSIZE m (PTE_W OR PTE_U OR PTE_R OR PTE_A OR PTE_D OR PTE_THEAD_MAEE)
                     (s\<lparr>mem := memset (mem s) m 0 4096\<rparr>)) (\<lambda>r s.
              if r \<noteq> 0 then kbind (kfree m s) (\<lambda>_ s. Ok 0 s) else Ok m s))"

definition vmfault :: "uint64 \<Rightarrow> addr \<Rightarrow> addr \<Rightarrow> uint64 \<Rightarrow> kmem \<Rightarrow> (kmem, addr) res" where
  "vmfault psz ppt pagetable va s =
     (if va \<ge> psz then Ok 0 s
      else let va = PGROUNDDOWN va
           in kbind (ismapped pagetable va s) (\<lambda>mapped s.
                if mapped
                then kbind (walk pagetable va False s) (\<lambda>pte s.
                       if pte \<noteq> 0 \<and> ld64 (mem s) pte AND PTE_COW \<noteq> 0 then vmfault_cow pte s
                       else Ok 0 s)
                else vmfault_lazy ppt va s))"

subsection \<open>Copies between kernel and user memory\<close>

text \<open>The bytes of one page that a copy of \<open>len\<close> bytes from \<open>va\<close> on handles.\<close>

definition chunk :: "uint64 \<Rightarrow> uint64 \<Rightarrow> uint64" where
  "chunk va len =
     (let n = PGSIZE - (va - PGROUNDDOWN va) in if n > len then len else n)"

lemma unat_page_rest: "unat (PGSIZE - (va - PGROUNDDOWN va)) = 4096 - unat va mod 4096"
proof -
  have o: "unat (va - PGROUNDDOWN va) = unat va mod 4096"
    using PGROUNDDOWN_le [of va] by (simp add: unat_sub unat_PGROUNDDOWN minus_div_mult_eq_mod)
  then have "va - PGROUNDDOWN va \<le> PGSIZE" by (simp add: word_le_nat_alt less_imp_le)
  then show ?thesis using o by (simp add: unat_sub)
qed

lemma unat_chunk: "unat (chunk va len) = min (4096 - unat va mod 4096) (unat len)"
  unfolding chunk_def Let_def using unat_page_rest [of va] by (auto simp: word_less_nat_alt min_def)

lemma chunk_pos: "0 < len \<Longrightarrow> 0 < unat (chunk va len)"
  by (simp add: unat_chunk word_less_nat_alt)

lemma chunk_le: "unat (chunk va len) \<le> unat len"
  by (simp add: unat_chunk)

text \<open>The page that \<^verbatim>\<open>copyout\<close> writes to, faulted in or made private; 0 when there is none.\<close>

definition copyout_page :: "uint64 \<Rightarrow> addr \<Rightarrow> addr \<Rightarrow> uint64 \<Rightarrow> kmem \<Rightarrow> (kmem, addr) res" where
  "copyout_page psz ppt pagetable va0 s =
     kbind (walkaddr pagetable va0 s) (\<lambda>pa0 s.
       if pa0 = 0 then vmfault psz ppt pagetable va0 s
       else kbind (walk pagetable va0 False s) (\<lambda>pte s.
         if pte \<noteq> 0 \<and> ld64 (mem s) pte AND PTE_COW \<noteq> 0 then vmfault psz ppt pagetable va0 s
         else Ok pa0 s))"

function copyout :: "uint64 \<Rightarrow> addr \<Rightarrow> addr \<Rightarrow> uint64 \<Rightarrow> uint8 list \<Rightarrow> kmem \<Rightarrow> (kmem, int) res" where
  "copyout psz ppt pagetable dstva src s =
     (if src = [] then Ok 0 s
      else let va0 = PGROUNDDOWN dstva
           in if va0 \<ge> MAXVA then Ok (-1) s
              else kbind (copyout_page psz ppt pagetable va0 s) (\<lambda>pa0 s.
                if pa0 = 0 then Ok (-1) s
                else kbind (walk pagetable va0 False s) (\<lambda>pte s.
                  if ld64 (mem s) pte AND PTE_W = 0 then Ok (-1) s
                  else let n = min (unat (PGSIZE - (dstva - va0))) (length src)
                       in copyout psz ppt pagetable (va0 + PGSIZE) (drop n src)
                            (s\<lparr>mem := put_bytes (mem s) (pa0 + (dstva - va0)) (take n src)\<rparr>))))"
  by pat_completeness auto
termination
  by (relation "measure (\<lambda>(psz, ppt, pt, dstva, src, s). length src)")
    (auto simp add: unat_page_rest [simplified])

declare copyout.simps [simp del]

function copyin_loop :: "uint64 \<Rightarrow> addr \<Rightarrow> addr \<Rightarrow> uint8 list \<Rightarrow> uint64 \<Rightarrow> uint64 \<Rightarrow> kmem \<Rightarrow> (kmem, int \<times> uint8 list) res" where
  "copyin_loop psz ppt pagetable dst srcva len s =
     (if len > 0
      then let va0 = PGROUNDDOWN srcva
           in kbind (walkaddr pagetable va0 s) (\<lambda>pa0 s.
                kbind (if pa0 = 0 then vmfault psz ppt pagetable va0 s else Ok pa0 s) (\<lambda>pa0 s.
                  if pa0 = 0 then Ok (-1, dst) s
                  else let n = chunk srcva len
                       in copyin_loop psz ppt pagetable
                            (dst @ get_bytes (mem s) (pa0 + (srcva - va0)) (unat n)) (va0 + PGSIZE) (len - n) s))
      else Ok (0, dst) s)"
  by pat_completeness auto
termination
proof (relation "measure (\<lambda>(psz, ppt, pt, dst, srcva, len, s). unat len)", goal_cases)
  case (2 psz ppt pt dst srcva len s x xa sa xb sb xc)
  then have "unat (len - chunk srcva len) = unat len - unat (chunk srcva len)"
    by (intro unat_sub) (simp add: word_le_nat_alt chunk_le)
  then show ?case using 2 chunk_pos [of len srcva] chunk_le [of srcva len] by simp
qed simp

declare copyin_loop.simps [simp del]

definition copyin :: "uint64 \<Rightarrow> addr \<Rightarrow> addr \<Rightarrow> uint64 \<Rightarrow> uint64 \<Rightarrow> kmem \<Rightarrow> (kmem, int \<times> uint8 list) res" where
  "copyin psz ppt pagetable srcva len s = copyin_loop psz ppt pagetable [] srcva len s"

text \<open>The inner loop of \<^verbatim>\<open>copyinstr\<close>: the bytes stored and whether the terminator was among them.\<close>

fun scan_str :: "uint8 list \<Rightarrow> uint8 list \<times> bool" where
  "scan_str [] = ([], False)"
| "scan_str (c # cs) = (if c = 0 then ([0], True) else (let (bs, got) = scan_str cs in (c # bs, got)))"

function copyinstr_loop :: "addr \<Rightarrow> uint8 list \<Rightarrow> uint64 \<Rightarrow> uint64 \<Rightarrow> kmem \<Rightarrow> (kmem, int \<times> uint8 list) res" where
  "copyinstr_loop pagetable dst srcva mx s =
     (if mx > 0
      then let va0 = PGROUNDDOWN srcva
           in if va0 \<ge> MAXVA then Ok (-1, dst) s
              else kbind (walk pagetable va0 False s) (\<lambda>pte s.
                if pte = 0 \<or> ld64 (mem s) pte AND PTE_V = 0 \<or> ld64 (mem s) pte AND PTE_U = 0 then Ok (-1, dst) s
                else let n = chunk srcva mx;
                         (bs, got_null) = scan_str (get_bytes (mem s)
                             (PTE2PA (ld64 (mem s) pte) + (srcva - va0)) (unat n))
                     in if got_null then Ok (0, dst @ bs) s
                        else copyinstr_loop pagetable (dst @ bs) (va0 + PGSIZE) (mx - n) s)
      else Ok (-1, dst) s)"
  by pat_completeness auto
termination
proof (relation "measure (\<lambda>(pt, dst, srcva, mx, s). unat mx)", goal_cases)
  case (2 pt dst srcva mx s x xa sa xb xc xd xe)
  then have "unat (mx - chunk srcva mx) = unat mx - unat (chunk srcva mx)"
    by (intro unat_sub) (simp add: word_le_nat_alt chunk_le)
  then show ?case using 2 chunk_pos [of mx srcva] chunk_le [of srcva mx] by simp
qed simp

declare copyinstr_loop.simps [simp del]

definition copyinstr :: "addr \<Rightarrow> uint64 \<Rightarrow> uint64 \<Rightarrow> kmem \<Rightarrow> (kmem, int \<times> uint8 list) res" where
  "copyinstr pagetable srcva mx s = copyinstr_loop pagetable [] srcva mx s"

definition either_copyout :: "uint64 \<Rightarrow> addr \<Rightarrow> bool \<Rightarrow> uint64 \<Rightarrow> uint8 list \<Rightarrow> kmem \<Rightarrow> (kmem, int) res" where
  "either_copyout psz ppt user_dst dst src s =
     (if user_dst then copyout psz ppt ppt dst src s
      else Ok 0 (s\<lparr>mem := put_bytes (mem s) dst src\<rparr>))"

definition either_copyin :: "uint64 \<Rightarrow> addr \<Rightarrow> bool \<Rightarrow> uint64 \<Rightarrow> uint64 \<Rightarrow> kmem \<Rightarrow> (kmem, int \<times> uint8 list) res" where
  "either_copyin psz ppt user_src src len s =
     (if user_src then copyin psz ppt ppt src len s
      else Ok (0, get_bytes (mem s) src (unat len)) s)"

end
