(* ===== verification/Fs.thy ===== *)
theory Fs
  imports Log Uvm
begin

section \<open>The file system\<close>

text \<open>
  \<^verbatim>\<open>kernel/fs.c\<close>: blocks, inodes, directories and paths. The state extends the log by the super
  block, the table of in-memory inodes and the memory the contents are copied from and to. An
  inode in memory is named by its index in the table.

  Conventions. The process that runs the operation is the argument \<open>p\<close> (identifier, size and page
  table). A local variable of the kernel that is read into or written from (\<^verbatim>\<open>struct dirent de\<close>)
  is not part of the modelled memory: \<open>Local\<close> as the destination of \<^verbatim>\<open>readi\<close> makes it return the
  bytes, \<open>From bs\<close> as the source of \<^verbatim>\<open>writei\<close> gives them. File offsets and loop counters are
  natural numbers where the code has checked that they do not wrap around. A path is the list of
  the characters before its terminator.
\<close>

subsection \<open>State\<close>

record curp =
  cpid :: int
  csz :: uint64
  cpt :: addr

record superblock =
  sb_magic :: uint32
  sb_size :: uint32
  sb_nblocks :: uint32
  sb_ninodes :: uint32
  sb_nlog :: uint32
  sb_logstart :: uint32
  sb_inodestart :: uint32
  sb_bmapstart :: uint32

record inode =
  i_dev :: uint32
  i_inum :: uint32
  i_ref :: int
  i_lock :: sleeplock
  i_valid :: bool
  i_type :: uint16
  i_major :: uint16
  i_minor :: uint16
  i_nlink :: uint16
  i_size :: uint32
  i_addrs :: "uint32 list"

record fsst = logst +
  sb :: superblock
  itable :: "inode list"
  km :: kmem

definition ROOTINO :: uint32 where "ROOTINO = 1"
definition FSMAGIC :: uint32 where "FSMAGIC = 0x10203040"
definition NDIRECT :: nat where "NDIRECT = 12"
definition NINDIRECT :: nat where "NINDIRECT = BSIZE div 4"
definition MAXFILE :: nat where "MAXFILE = NDIRECT + NINDIRECT"
definition DINODE_SIZE :: nat where "DINODE_SIZE = 64"
definition IPB :: nat where "IPB = BSIZE div DINODE_SIZE"
definition BPB :: nat where "BPB = BSIZE * 8"
definition DIRSIZ :: nat where "DIRSIZ = 14"
definition T_DIR :: uint16 where "T_DIR = 1"
definition T_FILE :: uint16 where "T_FILE = 2"
definition T_DEVICE :: uint16 where "T_DEVICE = 3"

definition IBLOCK :: "uint32 \<Rightarrow> superblock \<Rightarrow> uint32" where
  "IBLOCK i b = i div 16 + sb_inodestart b"

definition BBLOCK :: "uint32 \<Rightarrow> superblock \<Rightarrow> uint32" where
  "BBLOCK n b = n div 8192 + sb_bmapstart b"

definition upd_inode :: "nat \<Rightarrow> (inode \<Rightarrow> inode) \<Rightarrow> 'a fsst_scheme \<Rightarrow> 'a fsst_scheme" where
  "upd_inode i f s = s\<lparr>itable := (itable s)[i := f (itable s ! i)]\<rparr>"

text \<open>Replacing a run of bytes of an array.\<close>

definition overwrite :: "bytes \<Rightarrow> nat \<Rightarrow> bytes \<Rightarrow> bytes" where
  "overwrite d off bs = take off d @ bs @ drop (off + length bs) d"

subsection \<open>The super block\<close>

definition get_sb :: "bytes \<Rightarrow> superblock" where
  "get_sb d = \<lparr>sb_magic = rd32 d 0, sb_size = rd32 d 4, sb_nblocks = rd32 d 8, sb_ninodes = rd32 d 12,
               sb_nlog = rd32 d 16, sb_logstart = rd32 d 20, sb_inodestart = rd32 d 24, sb_bmapstart = rd32 d 28\<rparr>"

definition readsb :: "int \<Rightarrow> uint32 \<Rightarrow> 'a fsst_scheme \<Rightarrow> ('a fsst_scheme, unit) res" where
  "readsb pid dev s =
     kbind (bread pid dev 1 s) (\<lambda>bp s.
     brelse pid bp (s\<lparr>sb := get_sb (bdata (bufs s ! bp))\<rparr>))"

subsection \<open>Blocks\<close>

definition bzero :: "int \<Rightarrow> uint32 \<Rightarrow> uint32 \<Rightarrow> 'a fsst_scheme \<Rightarrow> ('a fsst_scheme, unit) res" where
  "bzero pid dev bno s =
     kbind (bread pid dev bno s) (\<lambda>bp s.
     kbind (log_write bp (set_data bp (replicate BSIZE 0) s)) (\<lambda>_ s.
     brelse pid bp s))"

definition bit_free :: "bytes \<Rightarrow> nat \<Rightarrow> bool" where
  "bit_free d bi \<longleftrightarrow> \<not> bit (d ! (bi div 8)) (bi mod 8)"

definition mark_bit :: "bytes \<Rightarrow> nat \<Rightarrow> bytes" where
  "mark_bit d bi = d[bi div 8 := d ! (bi div 8) OR push_bit (bi mod 8) 1]"

definition clear_bit :: "bytes \<Rightarrow> nat \<Rightarrow> bytes" where
  "clear_bit d bi = d[bi div 8 := d ! (bi div 8) AND NOT (push_bit (bi mod 8) 1)]"

text \<open>The inner loop of \<^verbatim>\<open>balloc\<close>: the first free bit of the map block for the blocks from \<open>b\<close> on.\<close>

function free_bit :: "bytes \<Rightarrow> nat \<Rightarrow> nat \<Rightarrow> nat \<Rightarrow> nat option" where
  "free_bit d b bi n =
     (if bi < BPB \<and> b + bi < n then (if bit_free d bi then Some bi else free_bit d b (Suc bi) n) else None)"
  by pat_completeness auto
termination by (relation "measure (\<lambda>(d, b, bi, n). BPB - bi)") auto

declare free_bit.simps [simp del]

function balloc_loop :: "int \<Rightarrow> uint32 \<Rightarrow> nat \<Rightarrow> nat \<Rightarrow> 'a fsst_scheme \<Rightarrow> ('a fsst_scheme, uint32) res" where
  "balloc_loop pid dev n b s =
     (if b < n
      then kbind (bread pid dev (BBLOCK (of_nat b) (sb s)) s) (\<lambda>bp s.
           case free_bit (bdata (bufs s ! bp)) b 0 n of
             Some bi \<Rightarrow>
               kbind (log_write bp (set_data bp (mark_bit (bdata (bufs s ! bp)) bi) s)) (\<lambda>_ s.
               kbind (brelse pid bp s) (\<lambda>_ s.
               kbind (bzero pid dev (of_nat (b + bi)) s) (\<lambda>_ s.
               Ok (of_nat (b + bi)) s)))
           | None \<Rightarrow> kbind (brelse pid bp s) (\<lambda>_ s. balloc_loop pid dev n (b + BPB) s))
      else Ok 0 s)"
  by pat_completeness auto
termination by (relation "measure (\<lambda>(pid, dev, n, b, s). n - b)") (auto simp: BPB_def BSIZE_def)

declare balloc_loop.simps [simp del]

definition balloc :: "int \<Rightarrow> uint32 \<Rightarrow> 'a fsst_scheme \<Rightarrow> ('a fsst_scheme, uint32) res" where
  "balloc pid dev s = balloc_loop pid dev (unat (sb_size (sb s))) 0 s"

definition bfree :: "int \<Rightarrow> uint32 \<Rightarrow> uint32 \<Rightarrow> 'a fsst_scheme \<Rightarrow> ('a fsst_scheme, unit) res" where
  "bfree pid dev b s =
     kbind (bread pid dev (BBLOCK b (sb s)) s) (\<lambda>bp s.
       let bi = unat b mod BPB; d = bdata (bufs s ! bp)
       in if bit_free d bi then Panic ''freeing free block''
          else kbind (log_write bp (set_data bp (clear_bit d bi) s)) (\<lambda>_ s. brelse pid bp s))"

subsection \<open>Inodes\<close>

definition iinit :: "'a fsst_scheme \<Rightarrow> 'a fsst_scheme" where
  "iinit s = s\<lparr>itable := map (\<lambda>ip. ip\<lparr>i_lock := initsleeplock\<rparr>) (itable s)\<rparr>"

text \<open>The fields of the on-disk inode at offset \<open>o\<close> of a block.\<close>

definition dip_off :: "uint32 \<Rightarrow> nat" where
  "dip_off inum = unat inum mod IPB * DINODE_SIZE"

definition get_dinode :: "bytes \<Rightarrow> nat \<Rightarrow> inode \<Rightarrow> inode" where
  "get_dinode d o' ip = ip\<lparr>i_type := rd16 d o', i_major := rd16 d (o' + 2), i_minor := rd16 d (o' + 4), i_nlink := rd16 d (o' + 6),
     i_size := rd32 d (o' + 8), i_addrs := map (\<lambda>k. rd32 d (o' + 12 + 4 * k)) [0..<NDIRECT + 1]\<rparr>"

fun put_addrs :: "bytes \<Rightarrow> nat \<Rightarrow> uint32 list \<Rightarrow> bytes" where
  "put_addrs d o' [] = d"
| "put_addrs d o' (a # as) = put_addrs (wr32 d o' a) (o' + 4) as"

definition put_dinode :: "bytes \<Rightarrow> nat \<Rightarrow> inode \<Rightarrow> bytes" where
  "put_dinode d o' ip =
     (let d = wr16 d o' (i_type ip); d = wr16 d (o' + 2) (i_major ip); d = wr16 d (o' + 4) (i_minor ip);
          d = wr16 d (o' + 6) (i_nlink ip); d = wr32 d (o' + 8) (i_size ip)
      in put_addrs d (o' + 12) (i_addrs ip))"

definition iget :: "uint32 \<Rightarrow> uint32 \<Rightarrow> 'a fsst_scheme \<Rightarrow> ('a fsst_scheme, nat) res" where
  "iget dev inum s =
     (case find_slot (\<lambda>ip. i_ref ip > 0 \<and> i_dev ip = dev \<and> i_inum ip = inum) (itable s) 0 of
        Some i \<Rightarrow> Ok i (upd_inode i (\<lambda>ip. ip\<lparr>i_ref := i_ref ip + 1\<rparr>) s)
      | None \<Rightarrow> (case find_slot (\<lambda>ip. i_ref ip = 0) (itable s) 0 of
          None \<Rightarrow> Panic ''iget: no inodes''
        | Some i \<Rightarrow> Ok i (upd_inode i (\<lambda>ip. ip\<lparr>i_dev := dev, i_inum := inum, i_ref := 1, i_valid := False\<rparr>) s)))"

function ialloc_loop :: "int \<Rightarrow> uint32 \<Rightarrow> uint16 \<Rightarrow> nat \<Rightarrow> nat \<Rightarrow> 'a fsst_scheme \<Rightarrow> ('a fsst_scheme, nat option) res" where
  "ialloc_loop pid dev type n inum s =
     (if inum < n
      then kbind (bread pid dev (IBLOCK (of_nat inum) (sb s)) s) (\<lambda>bp s.
             let o' = dip_off (of_nat inum); d = bdata (bufs s ! bp)
             in if rd16 d o' = 0
                then kbind (log_write bp (set_data bp (wr16 (overwrite d o' (replicate DINODE_SIZE 0)) o' type) s)) (\<lambda>_ s.
                     kbind (brelse pid bp s) (\<lambda>_ s.
                     kbind (iget dev (of_nat inum) s) (\<lambda>i s. Ok (Some i) s)))
                else kbind (brelse pid bp s) (\<lambda>_ s. ialloc_loop pid dev type n (Suc inum) s))
      else Ok None s)"
  by pat_completeness auto
termination by (relation "measure (\<lambda>(pid, dev, type, n, inum, s). n - inum)") auto

declare ialloc_loop.simps [simp del]

definition ialloc :: "int \<Rightarrow> uint32 \<Rightarrow> uint16 \<Rightarrow> 'a fsst_scheme \<Rightarrow> ('a fsst_scheme, nat option) res" where
  "ialloc pid dev type s = ialloc_loop pid dev type (unat (sb_ninodes (sb s))) 1 s"

definition iupdate :: "int \<Rightarrow> nat \<Rightarrow> 'a fsst_scheme \<Rightarrow> ('a fsst_scheme, unit) res" where
  "iupdate pid i s =
     (let ip = itable s ! i
      in kbind (bread pid (i_dev ip) (IBLOCK (i_inum ip) (sb s)) s) (\<lambda>bp s.
         kbind (log_write bp (set_data bp (put_dinode (bdata (bufs s ! bp)) (dip_off (i_inum ip)) ip) s)) (\<lambda>_ s.
         brelse pid bp s)))"

definition idup :: "nat \<Rightarrow> 'a fsst_scheme \<Rightarrow> ('a fsst_scheme, nat) res" where
  "idup i s = Ok i (upd_inode i (\<lambda>ip. ip\<lparr>i_ref := i_ref ip + 1\<rparr>) s)"

definition lock_inode :: "int \<Rightarrow> nat \<Rightarrow> 'a fsst_scheme \<Rightarrow> ('a fsst_scheme, unit) res" where
  "lock_inode pid i s =
     (case acquiresleep (ChInodeLock i) pid (i_lock (itable s ! i)) of
        Ok _ l \<Rightarrow> Ok () (upd_inode i (\<lambda>ip. ip\<lparr>i_lock := l\<rparr>) s)
      | Panic m \<Rightarrow> Panic m | Sleep c _ \<Rightarrow> Sleep c s | Diverge \<Rightarrow> Diverge)"

definition unlock_inode :: "nat \<Rightarrow> 'a fsst_scheme \<Rightarrow> 'a fsst_scheme" where
  "unlock_inode i s = (upd_inode i (\<lambda>ip. ip\<lparr>i_lock := releasesleep (i_lock ip)\<rparr>) s)\<lparr>woken := woken s @ [ChInodeLock i]\<rparr>"

definition ilock :: "int \<Rightarrow> nat \<Rightarrow> 'a fsst_scheme \<Rightarrow> ('a fsst_scheme, unit) res" where
  "ilock pid i s =
     (if i_ref (itable s ! i) < 1 then Panic ''ilock''
      else kbind (lock_inode pid i s) (\<lambda>_ s.
        let ip = itable s ! i
        in if i_valid ip then Ok () s
           else kbind (bread pid (i_dev ip) (IBLOCK (i_inum ip) (sb s)) s) (\<lambda>bp s.
                let s = upd_inode i (get_dinode (bdata (bufs s ! bp)) (dip_off (i_inum ip))) s
                in kbind (brelse pid bp s) (\<lambda>_ s.
                   let s = upd_inode i (\<lambda>ip. ip\<lparr>i_valid := True\<rparr>) s
                   in if i_type (itable s ! i) = 0 then Panic ''ilock: no type'' else Ok () s))))"

definition iunlock :: "int \<Rightarrow> nat \<Rightarrow> 'a fsst_scheme \<Rightarrow> ('a fsst_scheme, unit) res" where
  "iunlock pid i s =
     (if \<not> holdingsleep pid (i_lock (itable s ! i)) \<or> i_ref (itable s ! i) < 1 then Panic ''iunlock''
      else Ok () (unlock_inode i s))"

subsection \<open>Truncation and release\<close>

fun trunc_direct :: "int \<Rightarrow> nat \<Rightarrow> nat \<Rightarrow> nat \<Rightarrow> 'a fsst_scheme \<Rightarrow> ('a fsst_scheme, unit) res" where
  "trunc_direct pid i k 0 s = Ok () s"
| "trunc_direct pid i k (Suc c) s =
     (let ip = itable s ! i
      in if i_addrs ip ! k \<noteq> 0
         then kbind (bfree pid (i_dev ip) (i_addrs ip ! k) s) (\<lambda>_ s.
              trunc_direct pid i (Suc k) c (upd_inode i (\<lambda>ip. ip\<lparr>i_addrs := (i_addrs ip)[k := 0]\<rparr>) s))
         else trunc_direct pid i (Suc k) c s)"

text \<open>The loop reads the entries of the indirect block in its buffer \<open>bp\<close>, which it holds.\<close>

fun trunc_indirect :: "int \<Rightarrow> nat \<Rightarrow> nat \<Rightarrow> nat \<Rightarrow> nat \<Rightarrow> 'a fsst_scheme \<Rightarrow> ('a fsst_scheme, unit) res" where
  "trunc_indirect pid i bp j 0 s = Ok () s"
| "trunc_indirect pid i bp j (Suc c) s =
     (let a = rd32 (bdata (bufs s ! bp)) (4 * j)
      in if a \<noteq> 0
         then kbind (bfree pid (i_dev (itable s ! i)) a s) (\<lambda>_ s. trunc_indirect pid i bp (Suc j) c s)
         else trunc_indirect pid i bp (Suc j) c s)"

definition itrunc :: "int \<Rightarrow> nat \<Rightarrow> 'a fsst_scheme \<Rightarrow> ('a fsst_scheme, unit) res" where
  "itrunc pid i s =
     kbind (trunc_direct pid i 0 NDIRECT s) (\<lambda>_ s.
     let ind = i_addrs (itable s ! i) ! NDIRECT; dev = i_dev (itable s ! i)
     in kbind (if ind \<noteq> 0
               then kbind (bread pid dev ind s) (\<lambda>bp s.
                    kbind (trunc_indirect pid i bp 0 NINDIRECT s) (\<lambda>_ s.
                    kbind (brelse pid bp s) (\<lambda>_ s.
                    kbind (bfree pid dev ind s) (\<lambda>_ s.
                    Ok () (upd_inode i (\<lambda>ip. ip\<lparr>i_addrs := (i_addrs ip)[NDIRECT := 0]\<rparr>) s)))))
               else Ok () s) (\<lambda>_ s.
        iupdate pid i (upd_inode i (\<lambda>ip. ip\<lparr>i_size := 0\<rparr>) s)))"

definition iput :: "int \<Rightarrow> nat \<Rightarrow> 'a fsst_scheme \<Rightarrow> ('a fsst_scheme, unit) res" where
  "iput pid i s =
     (let ip = itable s ! i
      in kbind (if i_ref ip = 1 \<and> i_valid ip \<and> i_nlink ip = 0
                then kbind (lock_inode pid i s) (\<lambda>_ s.
                     kbind (itrunc pid i s) (\<lambda>_ s.
                     kbind (iupdate pid i (upd_inode i (\<lambda>ip. ip\<lparr>i_type := 0\<rparr>) s)) (\<lambda>_ s.
                     Ok () (unlock_inode i (upd_inode i (\<lambda>ip. ip\<lparr>i_valid := False\<rparr>) s)))))
                else Ok () s) (\<lambda>_ s.
         Ok () (upd_inode i (\<lambda>ip. ip\<lparr>i_ref := i_ref ip - 1\<rparr>) s)))"

definition iunlockput :: "int \<Rightarrow> nat \<Rightarrow> 'a fsst_scheme \<Rightarrow> ('a fsst_scheme, unit) res" where
  "iunlockput pid i s = kbind (iunlock pid i s) (\<lambda>_ s. iput pid i s)"

function ireclaim_loop :: "int \<Rightarrow> uint32 \<Rightarrow> nat \<Rightarrow> nat \<Rightarrow> 'a fsst_scheme \<Rightarrow> ('a fsst_scheme, unit) res" where
  "ireclaim_loop pid dev n inum s =
     (if inum < n
      then kbind (bread pid dev (IBLOCK (of_nat inum) (sb s)) s) (\<lambda>bp s.
             let o' = dip_off (of_nat inum); d = bdata (bufs s ! bp)
             in if rd16 d o' \<noteq> 0 \<and> rd16 d (o' + 6) = 0
                then kbind (iget dev (of_nat inum) s) (\<lambda>i s.
                     kbind (brelse pid bp s) (\<lambda>_ s.
                     kbind (begin_op s) (\<lambda>_ s.
                     kbind (ilock pid i s) (\<lambda>_ s.
                     kbind (iunlock pid i s) (\<lambda>_ s.
                     kbind (iput pid i s) (\<lambda>_ s.
                     kbind (end_op pid s) (\<lambda>_ s.
                     ireclaim_loop pid dev n (Suc inum) s)))))))
                else kbind (brelse pid bp s) (\<lambda>_ s. ireclaim_loop pid dev n (Suc inum) s))
      else Ok () s)"
  by pat_completeness auto
termination by (relation "measure (\<lambda>(pid, dev, n, inum, s). n - inum)") auto

declare ireclaim_loop.simps [simp del]

definition ireclaim :: "int \<Rightarrow> uint32 \<Rightarrow> 'a fsst_scheme \<Rightarrow> ('a fsst_scheme, unit) res" where
  "ireclaim pid dev s = ireclaim_loop pid dev (unat (sb_ninodes (sb s))) 1 s"

definition fsinit :: "int \<Rightarrow> uint32 \<Rightarrow> 'a fsst_scheme \<Rightarrow> ('a fsst_scheme, unit) res" where
  "fsinit pid dev s =
     kbind (readsb pid dev s) (\<lambda>_ s.
       if sb_magic (sb s) \<noteq> FSMAGIC then Panic ''invalid file system''
       else kbind (initlog pid dev (sb_logstart (sb s)) s) (\<lambda>_ s. ireclaim pid dev s))"

subsection \<open>Inode content\<close>

definition bmap :: "int \<Rightarrow> nat \<Rightarrow> nat \<Rightarrow> 'a fsst_scheme \<Rightarrow> ('a fsst_scheme, uint32) res" where
  "bmap pid i bn s =
     (let ip = itable s ! i; dev = i_dev ip
      in if bn < NDIRECT
         then if i_addrs ip ! bn = 0
              then kbind (balloc pid dev s) (\<lambda>a s.
                     if a = 0 then Ok 0 s
                     else Ok a (upd_inode i (\<lambda>ip. ip\<lparr>i_addrs := (i_addrs ip)[bn := a]\<rparr>) s))
              else Ok (i_addrs ip ! bn) s
         else let bn = bn - NDIRECT
         in if bn < NINDIRECT
            then kbind (if i_addrs ip ! NDIRECT = 0
                        then kbind (balloc pid dev s) (\<lambda>a s.
                               if a = 0 then Ok 0 s
                               else Ok a (upd_inode i (\<lambda>ip. ip\<lparr>i_addrs := (i_addrs ip)[NDIRECT := a]\<rparr>) s))
                        else Ok (i_addrs ip ! NDIRECT) s) (\<lambda>ind s.
                 if ind = 0 then Ok 0 s
                 else kbind (bread pid dev ind s) (\<lambda>bp s.
                      let a = rd32 (bdata (bufs s ! bp)) (4 * bn)
                      in kbind (if a = 0
                                then kbind (balloc pid dev s) (\<lambda>a s.
                                       if a \<noteq> 0
                                       then kbind (log_write bp (set_data bp (wr32 (bdata (bufs s ! bp)) (4 * bn) a) s)) (\<lambda>_ s. Ok a s)
                                       else Ok a s)
                                else Ok a s) (\<lambda>a s.
                         kbind (brelse pid bp s) (\<lambda>_ s. Ok a s))))
            else Panic ''bmap: out of range'')"

record stat =
  st_dev :: uint32
  st_ino :: uint32
  st_type :: uint16
  st_nlink :: uint16
  st_size :: uint64

definition stati :: "nat \<Rightarrow> 'a fsst_scheme \<Rightarrow> stat" where
  "stati i s =
     (let ip = itable s ! i
      in \<lparr>st_dev = i_dev ip, st_ino = i_inum ip, st_type = i_type ip, st_nlink = i_nlink ip, st_size = ucast (i_size ip)\<rparr>)"

datatype dst = User addr | Kern addr | Local
datatype src = FromUser addr | FromKern addr | From bytes

text \<open>The copies of \<^verbatim>\<open>readi\<close> and \<^verbatim>\<open>writei\<close>: \<open>tot\<close> bytes were copied before.\<close>

definition copy_to :: "curp \<Rightarrow> dst \<Rightarrow> nat \<Rightarrow> bytes \<Rightarrow> 'a fsst_scheme \<Rightarrow> ('a fsst_scheme, int) res" where
  "copy_to p d tot bs s =
     (case d of
        User a \<Rightarrow> on_part km (\<lambda>k s. s\<lparr>km := k\<rparr>) (either_copyout (csz p) (cpt p) True (a + of_nat tot) bs) s
      | Kern a \<Rightarrow> on_part km (\<lambda>k s. s\<lparr>km := k\<rparr>) (either_copyout (csz p) (cpt p) False (a + of_nat tot) bs) s
      | Local \<Rightarrow> Ok 0 s)"

definition copy_from :: "curp \<Rightarrow> src \<Rightarrow> nat \<Rightarrow> nat \<Rightarrow> 'a fsst_scheme \<Rightarrow> ('a fsst_scheme, int \<times> bytes) res" where
  "copy_from p d tot m s =
     (case d of
        FromUser a \<Rightarrow> on_part km (\<lambda>k s. s\<lparr>km := k\<rparr>) (either_copyin (csz p) (cpt p) True (a + of_nat tot) (of_nat m)) s
      | FromKern a \<Rightarrow> on_part km (\<lambda>k s. s\<lparr>km := k\<rparr>) (either_copyin (csz p) (cpt p) False (a + of_nat tot) (of_nat m)) s
      | From bs \<Rightarrow> Ok (0, take m (drop tot bs)) s)"

text \<open>\<open>readi\<close> returns the count and the bytes read; the latter are what a local destination received.\<close>

function readi_loop :: "curp \<Rightarrow> nat \<Rightarrow> dst \<Rightarrow> nat \<Rightarrow> nat \<Rightarrow> nat \<Rightarrow> bytes \<Rightarrow> 'a fsst_scheme \<Rightarrow> ('a fsst_scheme, int \<times> bytes) res" where
  "readi_loop p i d off n tot acc s =
     (if tot < n
      then kbind (bmap (cpid p) i (off div BSIZE) s) (\<lambda>a s.
             if a = 0 then Ok (int tot, acc) s
             else kbind (bread (cpid p) (i_dev (itable s ! i)) a s) (\<lambda>bp s.
               let m = min (n - tot) (BSIZE - off mod BSIZE);
                   bs = take m (drop (off mod BSIZE) (bdata (bufs s ! bp)))
               in kbind (copy_to p d tot bs s) (\<lambda>r s.
                    kbind (brelse (cpid p) bp s) (\<lambda>_ s.
                      if r = -1 then Ok (-1, acc) s
                      else readi_loop p i d (off + m) n (tot + m) (acc @ bs) s))))
      else Ok (int tot, acc) s)"
  by pat_completeness auto
termination by (relation "measure (\<lambda>(p, i, d, off, n, tot, acc, s). n - tot)") (auto simp: BSIZE_def)

declare readi_loop.simps [simp del]

definition readi :: "curp \<Rightarrow> nat \<Rightarrow> dst \<Rightarrow> uint32 \<Rightarrow> uint32 \<Rightarrow> 'a fsst_scheme \<Rightarrow> ('a fsst_scheme, int \<times> bytes) res" where
  "readi p i d off n s =
     (let sz = i_size (itable s ! i)
      in if off > sz \<or> off + n < off then Ok (0, []) s
         else readi_loop p i d (unat off) (unat (if off + n > sz then sz - off else n)) 0 [] s)"

function writei_loop :: "curp \<Rightarrow> nat \<Rightarrow> src \<Rightarrow> nat \<Rightarrow> nat \<Rightarrow> nat \<Rightarrow> 'a fsst_scheme \<Rightarrow> ('a fsst_scheme, nat \<times> nat) res" where
  "writei_loop p i d off n tot s =
     (if tot < n
      then kbind (bmap (cpid p) i (off div BSIZE) s) (\<lambda>a s.
             if a = 0 then Ok (off, tot) s
             else kbind (bread (cpid p) (i_dev (itable s ! i)) a s) (\<lambda>bp s.
               let m = min (n - tot) (BSIZE - off mod BSIZE)
               in kbind (copy_from p d tot m s) (\<lambda>(r, bs) s.
                    let s = set_data bp (overwrite (bdata (bufs s ! bp)) (off mod BSIZE) bs) s
                    in if r = -1 then kbind (brelse (cpid p) bp s) (\<lambda>_ s. Ok (off, tot) s)
                       else kbind (log_write bp s) (\<lambda>_ s.
                            kbind (brelse (cpid p) bp s) (\<lambda>_ s.
                            writei_loop p i d (off + m) n (tot + m) s)))))
      else Ok (off, tot) s)"
  by pat_completeness auto
termination by (relation "measure (\<lambda>(p, i, d, off, n, tot, s). n - tot)") (auto simp: BSIZE_def)

declare writei_loop.simps [simp del]

definition writei :: "curp \<Rightarrow> nat \<Rightarrow> src \<Rightarrow> uint32 \<Rightarrow> uint32 \<Rightarrow> 'a fsst_scheme \<Rightarrow> ('a fsst_scheme, int) res" where
  "writei p i d off n s =
     (if off > i_size (itable s ! i) \<or> off + n < off then Ok (-1) s
      else if unat (off + n) > MAXFILE * BSIZE then Ok (-1) s
      else kbind (writei_loop p i d (unat off) (unat n) 0 s) (\<lambda>(off, tot) s.
        let s = (if off > unat (i_size (itable s ! i)) then upd_inode i (\<lambda>ip. ip\<lparr>i_size := of_nat off\<rparr>) s else s)
        in kbind (iupdate (cpid p) i s) (\<lambda>_ s. Ok (int tot) s)))"

subsection \<open>Directories\<close>

text \<open>A directory entry is 16 bytes: the inode number and a name of at most 14 characters.\<close>

definition de_inum :: "bytes \<Rightarrow> uint16" where "de_inum de = rd16 de 0"
definition de_name :: "bytes \<Rightarrow> bytes" where "de_name de = take DIRSIZ (drop 2 de)"

definition namecmp :: "bytes \<Rightarrow> bytes \<Rightarrow> int option" where
  "namecmp s t = strncmp s t DIRSIZ"

function dirlookup_loop :: "curp \<Rightarrow> nat \<Rightarrow> bytes \<Rightarrow> nat \<Rightarrow> nat \<Rightarrow> 'a fsst_scheme \<Rightarrow> ('a fsst_scheme, (nat \<times> nat) option) res" where
  "dirlookup_loop p dp name sz off s =
     (if off < sz
      then kbind (readi p dp Local (of_nat off) 16 s) (\<lambda>(r, de) s.
             if r \<noteq> 16 then Panic ''dirlookup read''
             else if de_inum de = 0 then dirlookup_loop p dp name sz (off + 16) s
             else case namecmp name (de_name de) of
                    None \<Rightarrow> Panic ''undefined''
                  | Some c \<Rightarrow> if c = 0
                      then kbind (iget (i_dev (itable s ! dp)) (ucast (de_inum de)) s) (\<lambda>i s. Ok (Some (i, off)) s)
                      else dirlookup_loop p dp name sz (off + 16) s)
      else Ok None s)"
  by pat_completeness auto
termination by (relation "measure (\<lambda>(p, dp, name, sz, off, s). sz - off)") auto

declare dirlookup_loop.simps [simp del]

text \<open>The result is the inode found and the offset of its entry (\<^verbatim>\<open>*poff\<close>).\<close>

definition dirlookup :: "curp \<Rightarrow> nat \<Rightarrow> bytes \<Rightarrow> 'a fsst_scheme \<Rightarrow> ('a fsst_scheme, (nat \<times> nat) option) res" where
  "dirlookup p dp name s =
     (if i_type (itable s ! dp) \<noteq> T_DIR then Panic ''dirlookup not DIR''
      else dirlookup_loop p dp name (unat (i_size (itable s ! dp))) 0 s)"

text \<open>The search for an empty entry: its offset (or the end of the directory) and the bytes last read.\<close>

function empty_dirent :: "curp \<Rightarrow> nat \<Rightarrow> nat \<Rightarrow> nat \<Rightarrow> bytes \<Rightarrow> 'a fsst_scheme \<Rightarrow> ('a fsst_scheme, nat \<times> bytes) res" where
  "empty_dirent p dp sz off de s =
     (if off < sz
      then kbind (readi p dp Local (of_nat off) 16 s) (\<lambda>(r, de) s.
             if r \<noteq> 16 then Panic ''dirlink read''
             else if de_inum de = 0 then Ok (off, de) s
             else empty_dirent p dp sz (off + 16) de s)
      else Ok (off, de) s)"
  by pat_completeness auto
termination by (relation "measure (\<lambda>(p, dp, sz, off, de, s). sz - off)") auto

declare empty_dirent.simps [simp del]

text \<open>\<open>de0\<close> is what the local variable \<^verbatim>\<open>de\<close> holds before anything is stored in it.\<close>

definition dirlink :: "curp \<Rightarrow> bytes \<Rightarrow> nat \<Rightarrow> bytes \<Rightarrow> uint32 \<Rightarrow> 'a fsst_scheme \<Rightarrow> ('a fsst_scheme, int) res" where
  "dirlink p de0 dp name inum s =
     kbind (dirlookup p dp name s) (\<lambda>found s.
       case found of
         Some (i, _) \<Rightarrow> kbind (iput (cpid p) i s) (\<lambda>_ s. Ok (-1) s)
       | None \<Rightarrow>
           kbind (empty_dirent p dp (unat (i_size (itable s ! dp))) 0 de0 s) (\<lambda>(off, de) s.
             case strncpy (de_name de) name DIRSIZ of
               None \<Rightarrow> Panic ''undefined''
             | Some nm \<Rightarrow>
                 kbind (writei p dp (From (wr16 (take 2 de @ nm) 0 (ucast inum))) (of_nat off) 16 s) (\<lambda>r s.
                   if r \<noteq> 16 then Ok (-1) s else Ok 0 s)))"

subsection \<open>Paths\<close>

abbreviation slash :: uint8 where "slash \<equiv> 0x2f"

text \<open>\<open>skipelem\<close> returns the rest of the path and the contents of the array \<^verbatim>\<open>name\<close>.\<close>

definition skipelem :: "bytes \<Rightarrow> bytes \<Rightarrow> (bytes \<times> bytes) option" where
  "skipelem path name =
     (let path = dropWhile (\<lambda>c. c = slash) path
      in if path = [] then None
         else let elem = takeWhile (\<lambda>c. c \<noteq> slash) path;
                  rest = dropWhile (\<lambda>c. c \<noteq> slash) path;
                  name = (if length elem \<ge> DIRSIZ then overwrite name 0 (take DIRSIZ elem) else overwrite name 0 (elem @ [0]))
              in Some (dropWhile (\<lambda>c. c = slash) rest, name))"

lemma drop_elem_shorter:
  "q \<noteq> [] \<Longrightarrow> hd q \<noteq> c \<Longrightarrow> length (dropWhile (\<lambda>x. x = c) (dropWhile (\<lambda>x. x \<noteq> c) q)) < length q"
proof (cases q)
  case (Cons x xs)
  assume "hd q \<noteq> c"
  then have "dropWhile (\<lambda>x. x \<noteq> c) q = dropWhile (\<lambda>x. x \<noteq> c) xs" using Cons by simp
  then have "length (dropWhile (\<lambda>x. x = c) (dropWhile (\<lambda>x. x \<noteq> c) q)) \<le> length xs"
    by (metis (no_types) length_dropWhile_le le_trans)
  then show ?thesis using Cons by simp
qed simp

lemma skipelem_shorter:
  assumes "skipelem path name = Some (rest, nm)"
  shows "length rest < length path"
proof -
  define q where "q = dropWhile (\<lambda>c. c = slash) path"
  have q: "q \<noteq> []" using assms unfolding skipelem_def Let_def q_def [symmetric] by (cases "q = []") simp_all
  have r: "rest = dropWhile (\<lambda>c. c = slash) (dropWhile (\<lambda>c. c \<noteq> slash) q)"
    using assms unfolding skipelem_def Let_def q_def [symmetric] if_not_P [OF q] option.inject prod.inject by blast
  have "hd q \<noteq> slash" using hd_dropWhile [of "\<lambda>c. c = slash" path] q unfolding q_def by blast
  then have "length rest < length q" unfolding r by (rule drop_elem_shorter [OF q])
  also have "length q \<le> length path" unfolding q_def by (rule length_dropWhile_le)
  finally show ?thesis .
qed

text \<open>The result is the inode and the array \<^verbatim>\<open>name\<close>.\<close>

function namex_loop :: "curp \<Rightarrow> bytes \<Rightarrow> bool \<Rightarrow> bytes \<Rightarrow> nat \<Rightarrow> 'a fsst_scheme \<Rightarrow> ('a fsst_scheme, nat option \<times> bytes) res" where
  "namex_loop p path nameiparent name ip s =
     (case skipelem path name of
        None \<Rightarrow> if nameiparent then kbind (iput (cpid p) ip s) (\<lambda>_ s. Ok (None, name) s) else Ok (Some ip, name) s
      | Some (path, name) \<Rightarrow>
          kbind (ilock (cpid p) ip s) (\<lambda>_ s.
            if i_type (itable s ! ip) \<noteq> T_DIR
            then kbind (iunlockput (cpid p) ip s) (\<lambda>_ s. Ok (None, name) s)
            else if nameiparent \<and> path = []
            then kbind (iunlock (cpid p) ip s) (\<lambda>_ s. Ok (Some ip, name) s)
            else kbind (dirlookup p ip name s) (\<lambda>found s.
              case found of
                None \<Rightarrow> kbind (iunlockput (cpid p) ip s) (\<lambda>_ s. Ok (None, name) s)
              | Some (next, _) \<Rightarrow>
                  kbind (iunlockput (cpid p) ip s) (\<lambda>_ s. namex_loop p path nameiparent name next s))))"
  by pat_completeness auto
termination by (relation "measure (\<lambda>(p, path, np, name, ip, s). length path)") (auto dest: skipelem_shorter)

declare namex_loop.simps [simp del]

definition namex :: "curp \<Rightarrow> nat \<Rightarrow> bytes \<Rightarrow> bool \<Rightarrow> bytes \<Rightarrow> 'a fsst_scheme \<Rightarrow> ('a fsst_scheme, nat option \<times> bytes) res" where
  "namex p cwd path nameiparent name s =
     kbind (if path \<noteq> [] \<and> hd path = slash then iget ROOTDEV ROOTINO s else idup cwd s) (\<lambda>ip s.
       namex_loop p path nameiparent name ip s)"

text \<open>\<open>name0\<close> is what the local array \<^verbatim>\<open>name\<close> holds before anything is stored in it.\<close>

definition namei :: "curp \<Rightarrow> nat \<Rightarrow> bytes \<Rightarrow> bytes \<Rightarrow> 'a fsst_scheme \<Rightarrow> ('a fsst_scheme, nat option) res" where
  "namei p cwd name0 path s = kbind (namex p cwd path False name0 s) (\<lambda>(r, _) s. Ok r s)"

definition nameiparent :: "curp \<Rightarrow> nat \<Rightarrow> bytes \<Rightarrow> bytes \<Rightarrow> 'a fsst_scheme \<Rightarrow> ('a fsst_scheme, nat option \<times> bytes) res" where
  "nameiparent p cwd path name s = namex p cwd path True name s"

end
