(* ===== verification/Proc.thy ===== *)
theory Proc
  imports Fs
begin

section \<open>Processes\<close>

text \<open>
  \<^verbatim>\<open>kernel/proc.c\<close>, the part that does not touch files: the process table, allocation and
  freeing of processes, memory growth, sleep and wakeup, and termination signals. A process is
  named by its index in the table; \<open>me\<close> is the index of the process that runs (\<^verbatim>\<open>myproc()\<close>).
  \<^verbatim>\<open>p->context\<close> is the list of its 14 saved registers (\<^verbatim>\<open>ra\<close>, \<^verbatim>\<open>sp\<close>, \<^verbatim>\<open>s0\<close>-\<^verbatim>\<open>s11\<close>). The trap frame is
  the page at \<^verbatim>\<open>p->trapframe\<close>; its fields are words of the memory at fixed offsets. The
  addresses of \<^verbatim>\<open>trampoline\<close> and \<^verbatim>\<open>forkret\<close> are set by the linker and never change
  (\<open>k_trampoline\<close>, \<open>k_forkret\<close>).

  A process that goes to sleep leaves the processor in the middle of an operation. The model of
  such an operation ends with \<open>Sleep c s\<close>, where \<open>s\<close> is the state at that moment.
\<close>

datatype procstate = UNUSED | USED | SLEEPING | RUNNABLE | RUNNING | ZOMBIE

record proc =
  p_state :: procstate
  p_chan :: "chan option"
  p_killed :: bool
  p_xstate :: uint32
  p_pid :: int
  p_parent :: "nat option"
  p_kstack :: uint64
  p_sz :: uint64
  p_pagetable :: addr
  p_trapframe :: addr
  p_context :: "uint64 list"
  p_ofile :: "nat option list"
  p_cwd :: "nat option"
  p_name :: bytes

record procst = fsst +
  procs :: "proc list"
  nextpid :: int
  initproc :: "nat option"
  kticks :: uint32
  k_trampoline :: addr
  k_forkret :: uint64

definition upd_proc :: "nat \<Rightarrow> (proc \<Rightarrow> proc) \<Rightarrow> 'a procst_scheme \<Rightarrow> 'a procst_scheme" where
  "upd_proc i f s = s\<lparr>procs := (procs s)[i := f (procs s ! i)]\<rparr>"

definition on_km :: "(kmem \<Rightarrow> (kmem, 'b) res) \<Rightarrow> 'a fsst_scheme \<Rightarrow> ('a fsst_scheme, 'b) res" where
  "on_km f s = on_part km (\<lambda>k s. s\<lparr>km := k\<rparr>) f s"

definition myself :: "nat \<Rightarrow> 'a procst_scheme \<Rightarrow> curp" where
  "myself me s = \<lparr>cpid = p_pid (procs s ! me), csz = p_sz (procs s ! me), cpt = p_pagetable (procs s ! me)\<rparr>"

subsection \<open>The trap frame\<close>

definition TF_KERNEL_SATP :: uint64 where "TF_KERNEL_SATP = 0"
definition TF_KERNEL_SP :: uint64 where "TF_KERNEL_SP = 8"
definition TF_KERNEL_TRAP :: uint64 where "TF_KERNEL_TRAP = 16"
definition TF_EPC :: uint64 where "TF_EPC = 24"
definition TF_KERNEL_HARTID :: uint64 where "TF_KERNEL_HARTID = 32"
definition TF_SP :: uint64 where "TF_SP = 48"
definition TF_A0 :: uint64 where "TF_A0 = 112"
definition TF_A1 :: uint64 where "TF_A1 = 120"
definition TF_A2 :: uint64 where "TF_A2 = 128"
definition TF_A3 :: uint64 where "TF_A3 = 136"
definition TF_A4 :: uint64 where "TF_A4 = 144"
definition TF_A5 :: uint64 where "TF_A5 = 152"
definition TF_A7 :: uint64 where "TF_A7 = 168"
definition TF_SIZE :: nat where "TF_SIZE = 288"

definition tf_get :: "nat \<Rightarrow> uint64 \<Rightarrow> 'a procst_scheme \<Rightarrow> uint64" where
  "tf_get i f s = ld64 (mem (km s)) (p_trapframe (procs s ! i) + f)"

definition tf_put :: "nat \<Rightarrow> uint64 \<Rightarrow> uint64 \<Rightarrow> 'a procst_scheme \<Rightarrow> 'a procst_scheme" where
  "tf_put i f v s = s\<lparr>km := (km s)\<lparr>mem := st64 (mem (km s)) (p_trapframe (procs s ! i) + f) v\<rparr>\<rparr>"

subsection \<open>The process table\<close>

definition procinit :: "'a procst_scheme \<Rightarrow> 'a procst_scheme" where
  "procinit s = s\<lparr>procs := map (\<lambda>p. p\<lparr>p_state := UNUSED\<rparr>) (procs s)\<rparr>"

definition allocpid :: "'a procst_scheme \<Rightarrow> int \<times> 'a procst_scheme" where
  "allocpid s = (nextpid s, s\<lparr>nextpid := nextpid s + 1\<rparr>)"

definition freeproc :: "nat \<Rightarrow> 'a procst_scheme \<Rightarrow> ('a procst_scheme, unit) res" where
  "freeproc i s =
     (let p = procs s ! i
      in kbind (if p_trapframe p \<noteq> 0 then on_km (kfree (p_trapframe p)) s else Ok () s) (\<lambda>_ s.
         let s = upd_proc i (\<lambda>p. p\<lparr>p_trapframe := 0\<rparr>) s
         in kbind (if p_pagetable p \<noteq> 0 then on_km (proc_freepagetable (p_pagetable p) (p_sz p)) s else Ok () s) (\<lambda>_ s.
            Ok () (upd_proc i (\<lambda>p. p\<lparr>p_pagetable := 0, p_sz := 0, p_pid := 0, p_parent := None,
                      p_name := (p_name p)[0 := 0], p_chan := None, p_killed := False, p_xstate := 0, p_state := UNUSED\<rparr>) s))))"

definition claim_proc :: "nat \<Rightarrow> 'a procst_scheme \<Rightarrow> 'a procst_scheme" where
  "claim_proc i s = (let (pid, s) = allocpid s in upd_proc i (\<lambda>p. p\<lparr>p_pid := pid, p_state := USED\<rparr>) s)"

definition allocproc :: "'a procst_scheme \<Rightarrow> ('a procst_scheme, nat option) res" where
  "allocproc s =
     (case find_slot (\<lambda>p. p_state p = UNUSED) (procs s) 0 of
        None \<Rightarrow> Ok None s
      | Some i \<Rightarrow>
          kbind (on_km kalloc (claim_proc i s)) (\<lambda>tf s.
          let s = upd_proc i (\<lambda>p. p\<lparr>p_trapframe := tf\<rparr>) s
          in if tf = 0 then kbind (freeproc i s) (\<lambda>_ s. Ok None s)
             else kbind (on_km (proc_pagetable (k_trampoline s) tf) s) (\<lambda>pt s.
               let s = upd_proc i (\<lambda>p. p\<lparr>p_pagetable := pt\<rparr>) s
               in if pt = 0 then kbind (freeproc i s) (\<lambda>_ s. Ok None s)
                  else Ok (Some i) (upd_proc i (\<lambda>p. p\<lparr>p_context :=
                         (replicate 14 0)[0 := k_forkret s, 1 := p_kstack p + PGSIZE]\<rparr>) s))))"

definition growproc :: "nat \<Rightarrow> uint32 \<Rightarrow> 'a procst_scheme \<Rightarrow> ('a procst_scheme, int) res" where
  "growproc me n s =
     (let p = procs s ! me; sz = p_sz p; nn = (scast n :: uint64)
      in if sint n > 0
         then if sz + nn > TRAPFRAME then Ok (-1) s
              else kbind (on_km (uvmalloc (p_pagetable p) sz (sz + nn) PTE_W) s) (\<lambda>sz s.
                     if sz = 0 then Ok (-1) s
                     else Ok 0 (upd_proc me (\<lambda>p. p\<lparr>p_sz := sz\<rparr>) s))
         else if sint n < 0
         then kbind (on_km (uvmdealloc (p_pagetable p) sz (sz + nn)) s) (\<lambda>sz s.
                Ok 0 (upd_proc me (\<lambda>p. p\<lparr>p_sz := sz\<rparr>) s))
         else Ok 0 (upd_proc me (\<lambda>p. p\<lparr>p_sz := sz\<rparr>) s))"

subsection \<open>Switching\<close>

text \<open>The checks of \<^verbatim>\<open>sched\<close> before it switches: on the processor's state \<open>h\<close> and the lock of the process.\<close>

definition sched :: "nat \<Rightarrow> spinlock \<Rightarrow> hart \<Rightarrow> procstate \<Rightarrow> (hart, unit) res" where
  "sched c l h st =
     (if \<not> holding c l then Panic ''sched p->lock''
      else if noff h \<noteq> 1 then Panic ''sched locks''
      else if st = RUNNING then Panic ''sched RUNNING''
      else if sie h then Panic ''sched interruptible''
      else Ok () h)"

definition yield :: "nat \<Rightarrow> 'a procst_scheme \<Rightarrow> 'a procst_scheme" where
  "yield me s = upd_proc me (\<lambda>p. p\<lparr>p_state := RUNNABLE\<rparr>) s"

definition sleep_on :: "nat \<Rightarrow> chan \<Rightarrow> 'a procst_scheme \<Rightarrow> 'a procst_scheme" where
  "sleep_on me c s = upd_proc me (\<lambda>p. p\<lparr>p_chan := Some c, p_state := SLEEPING\<rparr>) s"

definition sleep_done :: "nat \<Rightarrow> 'a procst_scheme \<Rightarrow> 'a procst_scheme" where
  "sleep_done me s = upd_proc me (\<lambda>p. p\<lparr>p_chan := None\<rparr>) s"

fun wakeup_loop :: "nat option \<Rightarrow> chan \<Rightarrow> nat \<Rightarrow> proc list \<Rightarrow> proc list" where
  "wakeup_loop me c i [] = []"
| "wakeup_loop me c i (p # ps) =
     (if Some i \<noteq> me \<and> p_state p = SLEEPING \<and> p_chan p = Some c then p\<lparr>p_state := RUNNABLE\<rparr> else p)
     # wakeup_loop me c (Suc i) ps"

text \<open>\<open>me\<close> is the process on this processor, if there is one; it is not woken.\<close>

definition wakeup :: "nat option \<Rightarrow> chan \<Rightarrow> 'a procst_scheme \<Rightarrow> 'a procst_scheme" where
  "wakeup me c s = s\<lparr>procs := wakeup_loop me c 0 (procs s)\<rparr>"

text \<open>The wakeups that the layers below recorded in \<open>woken\<close>, carried out on the process table.\<close>

definition deliver :: "nat option \<Rightarrow> 'a procst_scheme \<Rightarrow> 'a procst_scheme" where
  "deliver me s = (foldl (\<lambda>s c. wakeup me c s) s (woken s))\<lparr>woken := []\<rparr>"

subsection \<open>Parents, signals\<close>

fun reparent_loop :: "nat \<Rightarrow> nat \<Rightarrow> nat \<Rightarrow> 'a procst_scheme \<Rightarrow> 'a procst_scheme" where
  "reparent_loop me i 0 s = s"
| "reparent_loop me i (Suc k) s =
     reparent_loop me (Suc i) k
       (if p_parent (procs s ! i) = Some me
        then case initproc s of
               Some ip \<Rightarrow> wakeup (Some me) (ChProc ip) (upd_proc i (\<lambda>p. p\<lparr>p_parent := Some ip\<rparr>) s)
             | None \<Rightarrow> upd_proc i (\<lambda>p. p\<lparr>p_parent := None\<rparr>) s
        else s)"

definition reparent :: "nat \<Rightarrow> 'a procst_scheme \<Rightarrow> 'a procst_scheme" where
  "reparent me s = reparent_loop me 0 (length (procs s)) s"

definition kkill :: "int \<Rightarrow> 'a procst_scheme \<Rightarrow> ('a procst_scheme, int) res" where
  "kkill pid s =
     (case find_slot (\<lambda>p. p_pid p = pid) (procs s) 0 of
        None \<Rightarrow> Ok (-1) s
      | Some i \<Rightarrow> Ok 0 (upd_proc i (\<lambda>p. p\<lparr>p_killed := True,
                          p_state := (if p_state p = SLEEPING then RUNNABLE else p_state p)\<rparr>) s))"

definition setkilled :: "nat \<Rightarrow> 'a procst_scheme \<Rightarrow> 'a procst_scheme" where
  "setkilled i s = upd_proc i (\<lambda>p. p\<lparr>p_killed := True\<rparr>) s"

definition killed :: "nat \<Rightarrow> 'a procst_scheme \<Rightarrow> bool" where
  "killed i s = p_killed (procs s ! i)"

text \<open>
  One scan of the table by \<^verbatim>\<open>kwait\<close>: the first exited child, or whether there are children. The
  result \<open>Inl havekids\<close> is the case in which no child has exited.
\<close>

fun wait_scan :: "nat \<Rightarrow> nat \<Rightarrow> proc list \<Rightarrow> bool \<Rightarrow> bool + nat" where
  "wait_scan me i [] havekids = Inl havekids"
| "wait_scan me i (p # ps) havekids =
     (if p_parent p = Some me
      then if p_state p = ZOMBIE then Inr i else wait_scan me (Suc i) ps True
      else wait_scan me (Suc i) ps havekids)"

definition kwait :: "nat \<Rightarrow> uint64 \<Rightarrow> 'a procst_scheme \<Rightarrow> ('a procst_scheme, int) res" where
  "kwait me a s =
     (case wait_scan me 0 (procs s) False of
        Inr i \<Rightarrow>
          (let pid = p_pid (procs s ! i)
           in kbind (if a \<noteq> 0
                     then on_km (copyout (csz (myself me s)) (cpt (myself me s)) (cpt (myself me s)) a
                                   (wr32 (replicate 4 0) 0 (p_xstate (procs s ! i)))) s
                     else Ok 0 s) (\<lambda>r s.
              if r < 0 then Ok (-1) s
              else kbind (freeproc i s) (\<lambda>_ s. Ok pid s)))
      | Inl havekids \<Rightarrow>
          if \<not> havekids \<or> killed me s then Ok (-1) s
          else Sleep (ChProc me) (sleep_on me (ChProc me) s))"

end
