(* ===== verification/Console.thy ===== *)
theory Console
  imports Proc
begin

section \<open>The console\<close>

text \<open>
  \<^verbatim>\<open>kernel/uart.c\<close>: the driver of the serial port, the line discipline of the console and the
  kernel's \<^verbatim>\<open>printf\<close>. The device is outside the kernel: the values that successive reads of its
  line status, receive and interrupt registers return are the lists \<open>lsr_in\<close> and \<open>rhr_in\<close>
  (an operation that polls a list that has ended does not return), and \<open>uart_wr\<close> lists the
  register writes made, in order, as pairs of register and value. The pairs of \<^verbatim>\<open>push_off\<close> and
  \<^verbatim>\<open>pop_off\<close> around a busy wait have no effect on this state.

  A call that sleeps in the middle of a loop returns what is left to do (\<open>Inl\<close>), from which the
  loop goes on once the process is woken.
\<close>

record consst = procst +
  cons_buf :: bytes
  cons_r :: uint32
  cons_w :: uint32
  cons_e :: uint32
  uart_wr :: "(nat \<times> uint32) list"
  uart_tx_busy :: bool
  lsr_in :: "uint32 list"
  rhr_in :: "uint32 list"
  panicked :: bool

definition THR :: nat where "THR = 0"
definition IER :: nat where "IER = 1"
definition FCR :: nat where "FCR = 2"
definition LCR :: nat where "LCR = 3"
definition MCR :: nat where "MCR = 4"
definition LSR_RX_READY :: uint32 where "LSR_RX_READY = 1"
definition LSR_TX_IDLE :: uint32 where "LSR_TX_IDLE = 32"
definition INPUT_BUF_SIZE :: nat where "INPUT_BUF_SIZE = 128"
definition BACKSPACE :: uint32 where "BACKSPACE = 0x100"

definition write_reg :: "nat \<Rightarrow> uint32 \<Rightarrow> 'a consst_scheme \<Rightarrow> 'a consst_scheme" where
  "write_reg r v s = s\<lparr>uart_wr := uart_wr s @ [(r, v)]\<rparr>"

subsection \<open>The driver\<close>

definition uartinit :: "'a consst_scheme \<Rightarrow> 'a consst_scheme" where
  "uartinit s = write_reg IER 3 (write_reg MCR 0x0B (write_reg FCR 7 (write_reg LCR 3 (write_reg IER 0 s))))"

fun poll :: "uint32 \<Rightarrow> uint32 list \<Rightarrow> uint32 list option" where
  "poll m [] = None"
| "poll m (v # vs) = (if v AND m = 0 then poll m vs else Some vs)"

definition wait_idle :: "'a consst_scheme \<Rightarrow> ('a consst_scheme, unit) res" where
  "wait_idle s = (case poll LSR_TX_IDLE (lsr_in s) of None \<Rightarrow> Diverge | Some vs \<Rightarrow> Ok () (s\<lparr>lsr_in := vs\<rparr>))"

definition uartputc_sync :: "uint32 \<Rightarrow> 'a consst_scheme \<Rightarrow> ('a consst_scheme, unit) res" where
  "uartputc_sync c s =
     (if panicked s then Diverge
      else kbind (if c = 10 then kbind (wait_idle s) (\<lambda>_ s. Ok () (write_reg THR 13 s)) else Ok () s) (\<lambda>_ s.
           kbind (wait_idle s) (\<lambda>_ s. Ok () (write_reg THR c s))))"

text \<open>
  \<open>uartwrite_from cr bs\<close> goes on with the characters \<open>bs\<close>; \<open>cr\<close> says that the carriage return of
  the first one has been sent. \<open>Inl\<close>: asleep on the transmit channel with that much left.
\<close>

function uartwrite_from :: "bool \<Rightarrow> bytes \<Rightarrow> 'a consst_scheme \<Rightarrow> (bool \<times> bytes + unit) \<times> 'a consst_scheme" where
  "uartwrite_from cr [] s = (Inr (), s)"
| "uartwrite_from cr (c # cs) s =
     (if uart_tx_busy s then (Inl (cr, c # cs), s)
      else if c = 10 \<and> \<not> cr then uartwrite_from True (c # cs) ((write_reg THR 13 s)\<lparr>uart_tx_busy := True\<rparr>)
      else uartwrite_from False cs ((write_reg THR (ucast c) s)\<lparr>uart_tx_busy := True\<rparr>))"
  by pat_completeness auto
termination by (relation "measure (\<lambda>(cr, bs, s). 2 * length bs + (if cr then 0 else 1))") auto

definition uartwrite :: "bytes \<Rightarrow> 'a consst_scheme \<Rightarrow> ('a consst_scheme, bool \<times> bytes + unit) res" where
  "uartwrite bs s = (case uartwrite_from False bs s of (r, s) \<Rightarrow> Ok r s)"

text \<open>A read of the status register; \<open>None\<close> when the device gives no further value.\<close>

definition read_lsr :: "'a consst_scheme \<Rightarrow> ('a consst_scheme, uint32) res" where
  "read_lsr s = (case lsr_in s of [] \<Rightarrow> Diverge | v # vs \<Rightarrow> Ok v (s\<lparr>lsr_in := vs\<rparr>))"

definition uartgetc :: "'a consst_scheme \<Rightarrow> ('a consst_scheme, uint32 option) res" where
  "uartgetc s =
     kbind (read_lsr s) (\<lambda>v s.
       if v AND LSR_RX_READY \<noteq> 0
       then (case rhr_in s of [] \<Rightarrow> Diverge | c # cs \<Rightarrow> Ok (Some c) (s\<lparr>rhr_in := cs\<rparr>))
       else Ok None s)"

subsection \<open>The line discipline\<close>

definition consputc :: "uint32 \<Rightarrow> 'a consst_scheme \<Rightarrow> ('a consst_scheme, unit) res" where
  "consputc c s =
     (if c = BACKSPACE
      then kbind (uartputc_sync 8 s) (\<lambda>_ s. kbind (uartputc_sync 32 s) (\<lambda>_ s. uartputc_sync 8 s))
      else uartputc_sync c s)"

definition cons_at :: "uint32 \<Rightarrow> 'a consst_scheme \<Rightarrow> uint8" where
  "cons_at k s = cons_buf s ! (unat k mod INPUT_BUF_SIZE)"

text \<open>
  \<open>consoleread_from me u dst n target s\<close> continues a read of \<open>target\<close> bytes of which \<open>n\<close> are left.
  \<open>Inl (dst, n)\<close>: asleep waiting for input.
\<close>

function consoleread_from :: "nat \<Rightarrow> bool \<Rightarrow> uint64 \<Rightarrow> nat \<Rightarrow> nat \<Rightarrow> 'a consst_scheme \<Rightarrow> ('a consst_scheme, (uint64 \<times> nat) + int) res" where
  "consoleread_from me user_dst dst n target s =
     (if n > 0
      then if cons_r s = cons_w s
           then if killed me s then Ok (Inr (-1)) s else Ok (Inl (dst, n)) s
           else let c = cons_at (cons_r s) s; s = s\<lparr>cons_r := cons_r s + 1\<rparr>
           in if c = 4
              then Ok (Inr (int target - int n)) (if n < target then s\<lparr>cons_r := cons_r s - 1\<rparr> else s)
              else kbind (on_km (either_copyout (csz (myself me s)) (cpt (myself me s)) user_dst dst [c]) s) (\<lambda>r s.
                   if r = -1 then Ok (Inr (int target - int n)) s
                   else if c = 10 then Ok (Inr (int target - int (n - 1))) s
                   else consoleread_from me user_dst (dst + 1) (n - 1) target s)
      else Ok (Inr (int target - int n)) s)"
  by pat_completeness auto
termination by (relation "measure (\<lambda>(me, u, dst, n, t, s). n)") auto

declare consoleread_from.simps [simp del]

definition consoleread :: "nat \<Rightarrow> bool \<Rightarrow> uint64 \<Rightarrow> int \<Rightarrow> 'a consst_scheme \<Rightarrow> ('a consst_scheme, int) res" where
  "consoleread me user_dst dst n s =
     kbind (consoleread_from me user_dst dst (nat n) (nat n) s) (\<lambda>r s.
       case r of Inr k \<Rightarrow> Ok k s | Inl _ \<Rightarrow> Sleep ChCons (sleep_on me ChCons s))"

text \<open>\<open>Inl (i, rest)\<close>: asleep in \<^verbatim>\<open>uartwrite\<close> with \<open>rest\<close> of the chunk that starts at \<open>i\<close> left.\<close>

function consolewrite_from :: "nat \<Rightarrow> bool \<Rightarrow> uint64 \<Rightarrow> nat \<Rightarrow> nat \<Rightarrow> 'a consst_scheme \<Rightarrow> ('a consst_scheme, (nat \<times> bool \<times> bytes) + int) res" where
  "consolewrite_from me user_src src n i s =
     (if i < n
      then let nn = min 32 (n - i)
           in kbind (on_km (either_copyin (csz (myself me s)) (cpt (myself me s)) user_src (src + of_nat i) (of_nat nn)) s) (\<lambda>(r, bs) s.
              if r = -1 then Ok (Inr (int i)) s
              else kbind (uartwrite bs s) (\<lambda>w s.
                   case w of Inl rest \<Rightarrow> Ok (Inl (i, rest)) s
                           | Inr _ \<Rightarrow> consolewrite_from me user_src src n (i + nn) s))
      else Ok (Inr (int i)) s)"
  by pat_completeness auto
termination by (relation "measure (\<lambda>(me, u, src, n, i, s). n - i)") auto

declare consolewrite_from.simps [simp del]

definition consolewrite :: "nat \<Rightarrow> bool \<Rightarrow> uint64 \<Rightarrow> int \<Rightarrow> 'a consst_scheme \<Rightarrow> ('a consst_scheme, int) res" where
  "consolewrite me user_src src n s =
     kbind (consolewrite_from me user_src src (nat n) 0 s) (\<lambda>r s.
       case r of Inr k \<Rightarrow> Ok k s | Inl _ \<Rightarrow> Sleep ChUartTx (sleep_on me ChUartTx s))"

text \<open>Control-U: delete back to the start of the line. At most \<open>e - w\<close> characters are there to delete.\<close>

lemma uartputc_keeps:
  "uartputc_sync c s = Ok u t \<Longrightarrow> cons_e t = cons_e s \<and> cons_w t = cons_w s \<and> cons_r t = cons_r s \<and> cons_buf t = cons_buf s"
  by (auto simp: uartputc_sync_def wait_idle_def write_reg_def kbind_eq_Ok split: if_splits option.splits)

lemma consputc_keeps:
  "consputc c s = Ok u t \<Longrightarrow> cons_e t = cons_e s \<and> cons_w t = cons_w s \<and> cons_r t = cons_r s \<and> cons_buf t = cons_buf s"
  by (auto simp: consputc_def kbind_eq_Ok split: if_splits dest!: uartputc_keeps)

function kill_line :: "'a consst_scheme \<Rightarrow> ('a consst_scheme, unit) res" where
  "kill_line s =
     (if cons_e s \<noteq> cons_w s \<and> cons_at (cons_e s - 1) s \<noteq> 10
      then kbind (consputc BACKSPACE (s\<lparr>cons_e := cons_e s - 1\<rparr>)) (\<lambda>_ s. kill_line s)
      else Ok () s)"
  by pat_completeness auto
termination
proof (relation "measure (\<lambda>s. unat (cons_e s - cons_w s))", goal_cases)
  case (2 s u t)
  have t: "cons_e t = cons_e s - 1" "cons_w t = cons_w s" using consputc_keeps [OF 2(2)] by simp_all
  have "cons_e s - cons_w s \<noteq> 0" using 2(1) by simp
  then have "unat (cons_e s - cons_w s - 1) < unat (cons_e s - cons_w s)" by (simp add: unat_minus_one unat_gt_0)
  moreover have "cons_e s - 1 - cons_w s = cons_e s - cons_w s - 1" by (simp add: algebra_simps)
  ultimately show ?case by (simp only: in_measure t)
qed simp

declare kill_line.simps [simp del]

text \<open>An ordinary character; \<open>me\<close> is the process on this processor, if there is one.\<close>

definition store_char :: "uint32 \<Rightarrow> nat option \<Rightarrow> 'a consst_scheme \<Rightarrow> ('a consst_scheme, unit) res" where
  "store_char c me s =
     (if c \<noteq> 0 \<and> unat (cons_e s - cons_r s) < INPUT_BUF_SIZE
      then let c = (if c = 13 then 10 else c)
           in kbind (consputc c s) (\<lambda>_ s.
              let s = s\<lparr>cons_buf := (cons_buf s)[unat (cons_e s) mod INPUT_BUF_SIZE := ucast c], cons_e := cons_e s + 1\<rparr>
              in if c = 10 \<or> c = 4 \<or> unat (cons_e s - cons_r s) = INPUT_BUF_SIZE
                 then Ok () (wakeup me ChCons (s\<lparr>cons_w := cons_e s\<rparr>))
                 else Ok () s)
      else Ok () s)"

subsection \<open>Formatted output\<close>

definition digits :: "nat \<Rightarrow> uint8" where
  "digits d = (if d < 10 then 0x30 + of_nat d else 0x57 + of_nat d)"

text \<open>The loop that stores the digits, least significant first. Only the bases 10 and 16 are used.\<close>

lemma div_shrinks: "2 \<le> b \<Longrightarrow> 0 < x div b \<Longrightarrow> x div b < (x :: nat)"
  by (cases "x = 0") simp_all

function digit_loop :: "nat \<Rightarrow> nat \<Rightarrow> bytes" where
  "digit_loop base x =
     digits (x mod base) # (if base \<ge> 2 \<and> x div base \<noteq> 0 then digit_loop base (x div base) else [])"
  by pat_completeness auto
termination by (relation "measure (\<lambda>(base, x). x)") (auto intro: div_shrinks)

declare digit_loop.simps [simp del]

definition printint_buf :: "uint64 \<Rightarrow> nat \<Rightarrow> bool \<Rightarrow> bytes" where
  "printint_buf xx base sign =
     (let neg = (sign \<and> sint xx < 0); x = (if neg then - xx else xx)
      in digit_loop base (unat x) @ (if neg then [0x2d] else []))"

definition printint :: "uint64 \<Rightarrow> nat \<Rightarrow> bool \<Rightarrow> bytes" where
  "printint xx base sign = rev (printint_buf xx base sign)"

definition printptr :: "uint64 \<Rightarrow> bytes" where
  "printptr x = 0x30 # 0x78 # map (\<lambda>i. digits (unat (drop_bit 60 (push_bit (4 * i) x)))) [0..<16]"

datatype arg = AInt uint32 | ALong uint64 | AStr "bytes option"

abbreviation null_str :: bytes where "null_str \<equiv> [0x28, 0x6e, 0x75, 0x6c, 0x6c, 0x29]"

text \<open>
  What \<^verbatim>\<open>printf\<close> prints for a format (the characters before the terminator) and its arguments. An
  argument of another type than the directive asks for, a missing one, and a format that ends in
  a percent sign (the loop steps over the terminator) are undefined.
\<close>

fun printf :: "bytes \<Rightarrow> arg list \<Rightarrow> bytes option" where
  "printf [] as = Some []"
| "printf (c # f) as =
     (if c \<noteq> 0x25 then map_option (Cons c) (printf f as)
      else case f of
        [] \<Rightarrow> None
      | c0 # f' \<Rightarrow>
          if c0 = 0x64
          then (case as of AInt v # as \<Rightarrow> map_option ((@) (printint (scast v) 10 True)) (printf f' as) | _ \<Rightarrow> None)
          else if c0 = 0x6c \<and> f' \<noteq> [] \<and> hd f' = 0x64
          then (case as of ALong v # as \<Rightarrow> map_option ((@) (printint v 10 True)) (printf (tl f') as) | _ \<Rightarrow> None)
          else if c0 = 0x78
          then (case as of AInt v # as \<Rightarrow> map_option ((@) (printint (scast v) 16 False)) (printf f' as) | _ \<Rightarrow> None)
          else if c0 = 0x70
          then (case as of ALong v # as \<Rightarrow> map_option ((@) (printptr v)) (printf f' as) | _ \<Rightarrow> None)
          else if c0 = 0x73
          then (case as of AStr v # as \<Rightarrow> map_option ((@) (case v of None \<Rightarrow> null_str | Some t \<Rightarrow> t)) (printf f' as) | _ \<Rightarrow> None)
          else if c0 = 0x25 then map_option (Cons 0x25) (printf f' as)
          else map_option (\<lambda>r. 0x25 # c0 # r) (printf f' as))"

fun put_chars :: "bytes \<Rightarrow> 'a consst_scheme \<Rightarrow> ('a consst_scheme, unit) res" where
  "put_chars [] s = Ok () s"
| "put_chars (c # cs) s = kbind (uartputc_sync (ucast c) s) (\<lambda>_ s. put_chars cs s)"

definition kprintf :: "bytes \<Rightarrow> arg list \<Rightarrow> 'a consst_scheme \<Rightarrow> ('a consst_scheme, unit) res" where
  "kprintf f as s = (case printf f as of None \<Rightarrow> Panic ''undefined'' | Some bs \<Rightarrow> put_chars bs s)"


subsection \<open>The interrupt handler\<close>

fun state_name :: "procstate \<Rightarrow> bytes" where
  "state_name UNUSED = [0x75, 0x6e, 0x75, 0x73, 0x65, 0x64]"
| "state_name USED = [0x75, 0x73, 0x65, 0x64]"
| "state_name SLEEPING = [0x73, 0x6c, 0x65, 0x65, 0x70, 0x20]"
| "state_name RUNNABLE = [0x72, 0x75, 0x6e, 0x62, 0x6c, 0x65]"
| "state_name RUNNING = [0x72, 0x75, 0x6e, 0x20, 0x20, 0x20]"
| "state_name ZOMBIE = [0x7a, 0x6f, 0x6d, 0x62, 0x69, 0x65]"

text \<open>The format is \<^verbatim>\<open>"%d %s %s"\<close>.\<close>

fun procdump_loop :: "proc list \<Rightarrow> 'a consst_scheme \<Rightarrow> ('a consst_scheme, unit) res" where
  "procdump_loop [] s = Ok () s"
| "procdump_loop (p # ps) s =
     (if p_state p = UNUSED then procdump_loop ps s
      else kbind (kprintf [0x25, 0x64, 0x20, 0x25, 0x73, 0x20, 0x25, 0x73]
                    [AInt (of_int (p_pid p)), AStr (Some (state_name (p_state p))), AStr (Some (cstr (p_name p)))] s) (\<lambda>_ s.
           kbind (kprintf [10] [] s) (\<lambda>_ s. procdump_loop ps s)))"

definition procdump :: "'a consst_scheme \<Rightarrow> ('a consst_scheme, unit) res" where
  "procdump s = kbind (kprintf [10] [] s) (\<lambda>_ s. procdump_loop (procs s) s)"

definition consoleintr :: "nat option \<Rightarrow> uint32 \<Rightarrow> 'a consst_scheme \<Rightarrow> ('a consst_scheme, unit) res" where
  "consoleintr me c s =
     (if c = 16 then procdump s
      else if c = 21 then kill_line s
      else if c = 24 then Panic ''User triggered panic!''
      else if c = 3
      then (case me of
              None \<Rightarrow> Ok () s
            | Some i \<Rightarrow> if p_pid (procs s ! i) > 1
                then kbind (consputc 0x5e (setkilled i s)) (\<lambda>_ s. consputc 0x43 s)
                else Ok () s)
      else if c = 8 \<or> c = 0x7f
      then if cons_e s \<noteq> cons_w s then consputc BACKSPACE (s\<lparr>cons_e := cons_e s - 1\<rparr>) else Ok () s
      else store_char c me s)"

text \<open>
  The receive loop of \<^verbatim>\<open>uartintr\<close>. Every iteration reads the status register at least once, so
  the number of values the device gives bounds them.
\<close>

fun rx_loop :: "nat \<Rightarrow> nat option \<Rightarrow> 'a consst_scheme \<Rightarrow> ('a consst_scheme, unit) res" where
  "rx_loop 0 me s = Diverge"
| "rx_loop (Suc k) me s =
     kbind (uartgetc s) (\<lambda>c s.
       case c of
         None \<Rightarrow> kbind (read_lsr s) (\<lambda>v s. if v AND LSR_RX_READY = 0 then Ok () s else rx_loop k me s)
       | Some c \<Rightarrow> kbind (consoleintr me c s) (\<lambda>_ s. rx_loop k me s))"

definition uartintr :: "nat option \<Rightarrow> 'a consst_scheme \<Rightarrow> ('a consst_scheme, unit) res" where
  "uartintr me s =
     kbind (read_lsr s) (\<lambda>v s.
       let s = (if v AND LSR_TX_IDLE \<noteq> 0 \<and> uart_tx_busy s then wakeup me ChUartTx (s\<lparr>uart_tx_busy := False\<rparr>) else s)
       in rx_loop (Suc (length (lsr_in s))) me s)"

text \<open>The last line of \<^verbatim>\<open>panic\<close> resets the board; the state after it is what the other processors see.\<close>

definition panic_msg :: "bytes \<Rightarrow> 'a consst_scheme \<Rightarrow> ('a consst_scheme, unit) res" where
  "panic_msg m s =
     kbind (kprintf [10] [] s) (\<lambda>_ s.
     kbind (kprintf [0x70, 0x61, 0x6e, 0x69, 0x63, 0x3a, 0x20] [] s) (\<lambda>_ s.
     kbind (kprintf [0x25, 0x73, 10] [AStr (Some m)] s) (\<lambda>_ s.
     kbind (kprintf [0x52, 0x65, 0x62, 0x6f, 0x6f, 0x74, 0x69, 0x6e, 0x67, 0x20, 0x4b, 0x32, 0x33, 0x30, 0x2e, 0x2e, 0x2e, 10] [] s) (\<lambda>_ s.
     Ok () (s\<lparr>panicked := True\<rparr>)))))"

end
