(* ===== verification/File.thy ===== *)
theory File
  imports Console
begin

section \<open>Open files and pipes\<close>

text \<open>
  \<^verbatim>\<open>kernel/file.c\<close> and \<^verbatim>\<open>kernel/pipe.c\<close>. An open file is named by its index in \<^verbatim>\<open>ftable.file\<close>. A pipe
  is a page from the page allocator; \<open>pipes\<close> gives the \<^verbatim>\<open>struct pipe\<close> at its address. The device
  table has one entry, the console.
\<close>

datatype fdtype = FD_NONE | FD_PIPE | FD_INODE | FD_DEVICE

record ofile =
  f_type :: fdtype
  f_ref :: int
  f_readable :: bool
  f_writable :: bool
  f_pipe :: addr
  f_ip :: nat
  f_off :: uint32
  f_major :: uint16

definition PIPESIZE :: nat where "PIPESIZE = 512"

record pipe =
  pi_data :: bytes
  pi_nread :: uint32
  pi_nwrite :: uint32
  pi_readopen :: bool
  pi_writeopen :: bool

record filest = consst +
  ftable :: "ofile list"
  pipes :: "addr \<Rightarrow> pipe"

definition CONSOLE :: uint16 where "CONSOLE = 1"

definition upd_file :: "nat \<Rightarrow> (ofile \<Rightarrow> ofile) \<Rightarrow> 'a filest_scheme \<Rightarrow> 'a filest_scheme" where
  "upd_file i f s = s\<lparr>ftable := (ftable s)[i := f (ftable s ! i)]\<rparr>"

definition upd_pipe :: "addr \<Rightarrow> (pipe \<Rightarrow> pipe) \<Rightarrow> 'a filest_scheme \<Rightarrow> 'a filest_scheme" where
  "upd_pipe a f s = s\<lparr>pipes := (pipes s)(a := f (pipes s a))\<rparr>"

text \<open>An operation that goes to sleep marks the process as sleeping.\<close>

definition blocking :: "nat \<Rightarrow> ('a filest_scheme, 'b) res \<Rightarrow> ('a filest_scheme, 'b) res" where
  "blocking me r = (case r of Sleep c s \<Rightarrow> Sleep c (sleep_on me c s) | _ \<Rightarrow> r)"

subsection \<open>The file table\<close>

definition filealloc :: "'a filest_scheme \<Rightarrow> ('a filest_scheme, nat option) res" where
  "filealloc s =
     (case find_slot (\<lambda>f. f_ref f = 0) (ftable s) 0 of
        None \<Rightarrow> Ok None s
      | Some i \<Rightarrow> Ok (Some i) (upd_file i (\<lambda>f. f\<lparr>f_ref := 1\<rparr>) s))"

definition filedup :: "nat \<Rightarrow> 'a filest_scheme \<Rightarrow> ('a filest_scheme, nat) res" where
  "filedup i s =
     (if f_ref (ftable s ! i) < 1 then Panic ''filedup''
      else Ok i (upd_file i (\<lambda>f. f\<lparr>f_ref := f_ref f + 1\<rparr>) s))"

definition pipeclose :: "nat \<Rightarrow> addr \<Rightarrow> bool \<Rightarrow> 'a filest_scheme \<Rightarrow> ('a filest_scheme, unit) res" where
  "pipeclose me a writable s =
     (let s = (if writable then wakeup (Some me) (ChPipeRead a) (upd_pipe a (\<lambda>p. p\<lparr>pi_writeopen := False\<rparr>) s)
               else wakeup (Some me) (ChPipeWrite a) (upd_pipe a (\<lambda>p. p\<lparr>pi_readopen := False\<rparr>) s))
      in if \<not> pi_readopen (pipes s a) \<and> \<not> pi_writeopen (pipes s a) then on_km (kfree a) s else Ok () s)"

definition fileclose :: "nat \<Rightarrow> nat \<Rightarrow> 'a filest_scheme \<Rightarrow> ('a filest_scheme, unit) res" where
  "fileclose me i s =
     (let f = ftable s ! i; pid = p_pid (procs s ! me)
      in if f_ref f < 1 then Panic ''fileclose''
         else if f_ref f - 1 > 0 then Ok () (upd_file i (\<lambda>f. f\<lparr>f_ref := f_ref f - 1\<rparr>) s)
         else let s = upd_file i (\<lambda>f. f\<lparr>f_ref := 0, f_type := FD_NONE\<rparr>) s
         in case f_type f of
              FD_PIPE \<Rightarrow> pipeclose me (f_pipe f) (f_writable f) s
            | FD_NONE \<Rightarrow> Ok () s
            | _ \<Rightarrow> blocking me (kbind (begin_op s) (\<lambda>_ s. kbind (iput pid (f_ip f) s) (\<lambda>_ s. end_op pid s))))"

subsection \<open>Pipes\<close>

text \<open>The clean-up of \<^verbatim>\<open>pipealloc\<close> at its label \<^verbatim>\<open>bad\<close>: no page was allocated when it is reached.\<close>

definition close_opt :: "nat \<Rightarrow> nat option \<Rightarrow> 'a filest_scheme \<Rightarrow> ('a filest_scheme, unit) res" where
  "close_opt me fo s = (case fo of None \<Rightarrow> Ok () s | Some f \<Rightarrow> fileclose me f s)"

definition pipealloc :: "nat \<Rightarrow> 'a filest_scheme \<Rightarrow> ('a filest_scheme, (nat \<times> nat) option) res" where
  "pipealloc me s =
     kbind (filealloc s) (\<lambda>f0 s.
     kbind (case f0 of None \<Rightarrow> Ok None s | Some _ \<Rightarrow> filealloc s) (\<lambda>f1 s.
       case (f0, f1) of
         (Some r, Some w) \<Rightarrow>
           kbind (on_km kalloc s) (\<lambda>a s.
             if a = 0
             then kbind (fileclose me r s) (\<lambda>_ s. kbind (fileclose me w s) (\<lambda>_ s. Ok None s))
             else Ok (Some (r, w))
               (upd_file w (\<lambda>f. f\<lparr>f_type := FD_PIPE, f_readable := False, f_writable := True, f_pipe := a\<rparr>)
               (upd_file r (\<lambda>f. f\<lparr>f_type := FD_PIPE, f_readable := True, f_writable := False, f_pipe := a\<rparr>)
               (upd_pipe a (\<lambda>p. p\<lparr>pi_readopen := True, pi_writeopen := True, pi_nwrite := 0, pi_nread := 0\<rparr>) s))))
       | _ \<Rightarrow> kbind (close_opt me f0 s) (\<lambda>_ s. kbind (close_opt me f1 s) (\<lambda>_ s. Ok None s))))"

definition pipe_put :: "uint8 \<Rightarrow> pipe \<Rightarrow> pipe" where
  "pipe_put ch p = p\<lparr>pi_data := (pi_data p)[unat (pi_nwrite p) mod PIPESIZE := ch], pi_nwrite := pi_nwrite p + 1\<rparr>"

definition pipe_full :: "pipe \<Rightarrow> bool" where
  "pipe_full p \<longleftrightarrow> pi_nwrite p = pi_nread p + of_nat PIPESIZE"

definition pipe_head :: "pipe \<Rightarrow> uint8" where
  "pipe_head p = pi_data p ! (unat (pi_nread p) mod PIPESIZE)"

definition pipe_get :: "pipe \<Rightarrow> pipe" where
  "pipe_get p = p\<lparr>pi_nread := pi_nread p + 1\<rparr>"

text \<open>
  \<open>pipewrite_from me a u n i s\<close> goes on with a write of \<open>n\<close> bytes from \<open>u\<close> of which \<open>i\<close> are done;
  \<open>Inl i\<close>: asleep on a full pipe after \<open>i\<close> bytes.
\<close>

function pipewrite_from :: "nat \<Rightarrow> addr \<Rightarrow> uint64 \<Rightarrow> nat \<Rightarrow> nat \<Rightarrow> 'a filest_scheme \<Rightarrow> ('a filest_scheme, nat + int) res" where
  "pipewrite_from me a u n i s =
     (if i < n
      then if \<not> pi_readopen (pipes s a) \<or> killed me s then Ok (Inr (-1)) s
           else if pipe_full (pipes s a) then Ok (Inl i) (wakeup (Some me) (ChPipeRead a) s)
           else kbind (on_km (copyin (csz (myself me s)) (cpt (myself me s)) (cpt (myself me s)) (u + of_nat i) 1) s) (\<lambda>(r, bs) s.
                if r = -1 then Ok (Inr (int i)) (wakeup (Some me) (ChPipeRead a) s)
                else pipewrite_from me a u n (Suc i) (upd_pipe a (pipe_put (hd bs)) s))
      else Ok (Inr (int i)) (wakeup (Some me) (ChPipeRead a) s))"
  by pat_completeness auto
termination by (relation "measure (\<lambda>(me, a, u, n, i, s). n - i)") auto

declare pipewrite_from.simps [simp del]

definition pipewrite :: "nat \<Rightarrow> addr \<Rightarrow> uint64 \<Rightarrow> int \<Rightarrow> 'a filest_scheme \<Rightarrow> ('a filest_scheme, int) res" where
  "pipewrite me a u n s =
     kbind (pipewrite_from me a u (nat n) 0 s) (\<lambda>r s.
       case r of Inr k \<Rightarrow> Ok k s | Inl _ \<Rightarrow> Sleep (ChPipeWrite a) (sleep_on me (ChPipeWrite a) s))"

fun piperead_loop :: "nat \<Rightarrow> addr \<Rightarrow> uint64 \<Rightarrow> nat \<Rightarrow> nat \<Rightarrow> 'a filest_scheme \<Rightarrow> ('a filest_scheme, int) res" where
  "piperead_loop me a u i 0 s = Ok (int i) s"
| "piperead_loop me a u i (Suc k) s =
     (if pi_nread (pipes s a) = pi_nwrite (pipes s a) then Ok (int i) s
      else kbind (on_km (copyout (csz (myself me s)) (cpt (myself me s)) (cpt (myself me s)) (u + of_nat i) [pipe_head (pipes s a)]) s) (\<lambda>r s.
           if r = -1 then Ok (if i = 0 then -1 else int i) s
           else piperead_loop me a u (Suc i) k (upd_pipe a pipe_get s)))"

definition piperead :: "nat \<Rightarrow> addr \<Rightarrow> uint64 \<Rightarrow> int \<Rightarrow> 'a filest_scheme \<Rightarrow> ('a filest_scheme, int) res" where
  "piperead me a u n s =
     (if pi_nread (pipes s a) = pi_nwrite (pipes s a) \<and> pi_writeopen (pipes s a)
      then if killed me s then Ok (-1) s else Sleep (ChPipeRead a) (sleep_on me (ChPipeRead a) s)
      else kbind (piperead_loop me a u 0 (nat n) s) (\<lambda>r s. Ok r (wakeup (Some me) (ChPipeWrite a) s)))"

subsection \<open>Reading and writing files\<close>

text \<open>The layout of \<^verbatim>\<open>struct stat\<close>: the size is 8-byte aligned; \<open>pad\<close> is what the 4 bytes before it hold.\<close>

definition stat_bytes :: "bytes \<Rightarrow> stat \<Rightarrow> bytes" where
  "stat_bytes pad st =
     (let d = take 12 (replicate 12 0) @ pad @ replicate 8 0;
          d = wr32 d 0 (st_dev st); d = wr32 d 4 (st_ino st); d = wr16 d 8 (st_type st); d = wr16 d 10 (st_nlink st)
      in wr 8 d 16 (unat (st_size st)))"

definition filestat :: "nat \<Rightarrow> bytes \<Rightarrow> nat \<Rightarrow> uint64 \<Rightarrow> 'a filest_scheme \<Rightarrow> ('a filest_scheme, int) res" where
  "filestat me pad i a s =
     (let f = ftable s ! i; p = myself me s
      in if f_type f = FD_INODE \<or> f_type f = FD_DEVICE
         then kbind (blocking me (ilock (cpid p) (f_ip f) s)) (\<lambda>_ s.
              let st = stati (f_ip f) s
              in kbind (iunlock (cpid p) (f_ip f) s) (\<lambda>_ s.
                 kbind (on_km (copyout (csz p) (cpt p) (cpt p) a (stat_bytes pad st)) s) (\<lambda>r s.
                 if r < 0 then Ok (-1) s else Ok 0 s)))
         else Ok (-1) s)"

definition fileread :: "nat \<Rightarrow> nat \<Rightarrow> uint64 \<Rightarrow> int \<Rightarrow> 'a filest_scheme \<Rightarrow> ('a filest_scheme, int) res" where
  "fileread me i a n s =
     (let f = ftable s ! i; p = myself me s
      in if \<not> f_readable f then Ok (-1) s
         else case f_type f of
           FD_PIPE \<Rightarrow> piperead me (f_pipe f) a n s
         | FD_DEVICE \<Rightarrow>
             if sint (f_major f) < 0 \<or> sint (f_major f) \<ge> int NDEV \<or> f_major f \<noteq> CONSOLE then Ok (-1) s
             else consoleread me True a n s
         | FD_INODE \<Rightarrow>
             kbind (blocking me (ilock (cpid p) (f_ip f) s)) (\<lambda>_ s.
             kbind (blocking me (readi p (f_ip f) (User a) (f_off (ftable s ! i)) (of_int n) s)) (\<lambda>(r, _) s.
             let s = (if r > 0 then upd_file i (\<lambda>f. f\<lparr>f_off := f_off f + of_int r\<rparr>) s else s)
             in kbind (iunlock (cpid p) (f_ip f) s) (\<lambda>_ s. Ok r s)))
         | FD_NONE \<Rightarrow> Panic ''fileread'')"

definition MAXWRITE :: int where "MAXWRITE = int ((MAXOPBLOCKS - 1 - 1 - 2) div 2 * BSIZE)"

text \<open>
  The loop of \<^verbatim>\<open>filewrite\<close>. Every full round writes at least one byte, so \<open>n\<close> rounds are enough; the
  first argument counts them.
\<close>

fun filewrite_loop :: "nat \<Rightarrow> nat \<Rightarrow> nat \<Rightarrow> uint64 \<Rightarrow> int \<Rightarrow> int \<Rightarrow> 'a filest_scheme \<Rightarrow> ('a filest_scheme, int) res" where
  "filewrite_loop 0 me i a n done s = Diverge"
| "filewrite_loop (Suc k) me i a n done s =
     (if done < n
      then let n1 = min (n - done) MAXWRITE; p = myself me s; ip = f_ip (ftable s ! i)
           in kbind (blocking me (begin_op s)) (\<lambda>_ s.
              kbind (blocking me (ilock (cpid p) ip s)) (\<lambda>_ s.
              kbind (blocking me (writei p ip (FromUser (a + of_int done)) (f_off (ftable s ! i)) (of_int n1) s)) (\<lambda>r s.
              let s = (if r > 0 then upd_file i (\<lambda>f. f\<lparr>f_off := f_off f + of_int r\<rparr>) s else s)
              in kbind (iunlock (cpid p) ip s) (\<lambda>_ s.
                 kbind (blocking me (end_op (cpid p) s)) (\<lambda>_ s.
                 if r \<noteq> n1 then Ok done s else filewrite_loop k me i a n (done + r) s)))))
      else Ok done s)"

definition filewrite :: "nat \<Rightarrow> nat \<Rightarrow> uint64 \<Rightarrow> int \<Rightarrow> 'a filest_scheme \<Rightarrow> ('a filest_scheme, int) res" where
  "filewrite me i a n s =
     (let f = ftable s ! i
      in if \<not> f_writable f then Ok (-1) s
         else case f_type f of
           FD_PIPE \<Rightarrow> pipewrite me (f_pipe f) a n s
         | FD_DEVICE \<Rightarrow>
             if sint (f_major f) < 0 \<or> sint (f_major f) \<ge> int NDEV \<or> f_major f \<noteq> CONSOLE then Ok (-1) s
             else consolewrite me True a n s
         | FD_INODE \<Rightarrow>
             kbind (filewrite_loop (Suc (nat n)) me i a n 0 s) (\<lambda>done s. Ok (if done = n then n else -1) s)
         | FD_NONE \<Rightarrow> Panic ''filewrite'')"

end
