(* ===== verification/Bss.thy ===== *)
theory Bss
  imports File
begin

section \<open>The kernel's static data\<close>

text \<open>
  The state in which the kernel starts: the loader has zeroed the static data, memory holds \<open>m\<close>, the
  disk image is \<open>im\<close>, and \<open>e\<close>, \<open>tr\<close> and \<open>fr\<close> are the addresses of \<^verbatim>\<open>end\<close>, \<^verbatim>\<open>trampoline\<close> and \<^verbatim>\<open>forkret\<close>.
\<close>

definition zero_buf :: buf where
  "zero_buf = \<lparr>valid = False, bdev = 0, blockno = 0, blk_lock = initsleeplock, refcnt = 0, bdata = replicate BSIZE 0\<rparr>"

definition zero_inode :: inode where
  "zero_inode = \<lparr>i_dev = 0, i_inum = 0, i_ref = 0, i_lock = initsleeplock, i_valid = False, i_type = 0, i_major = 0, i_minor = 0,
                 i_nlink = 0, i_size = 0, i_addrs = replicate 13 0\<rparr>"

definition zero_proc :: proc where
  "zero_proc = \<lparr>p_state = UNUSED, p_chan = None, p_killed = False, p_xstate = 0, p_pid = 0, p_parent = None, p_kstack = 0, p_sz = 0,
                p_pagetable = 0, p_trapframe = 0, p_context = replicate 14 0, p_ofile = replicate NOFILE None, p_cwd = None,
                p_name = replicate 16 0\<rparr>"

definition zero_file :: ofile where
  "zero_file = \<lparr>f_type = FD_NONE, f_ref = 0, f_readable = False, f_writable = False, f_pipe = 0, f_ip = 0, f_off = 0, f_major = 0\<rparr>"

definition zero_pipe :: pipe where
  "zero_pipe = \<lparr>pi_data = replicate PIPESIZE 0, pi_nread = 0, pi_nwrite = 0, pi_readopen = False, pi_writeopen = False\<rparr>"

definition bss :: "memory \<Rightarrow> bytes \<Rightarrow> addr \<Rightarrow> addr \<Rightarrow> uint64 \<Rightarrow> filest" where
  "bss m im e tr fr =
     \<lparr>bufs = replicate NBUF zero_buf, lru = [], img = im, dwrites = [], woken = [],
      lstart = 0, outstanding = 0, committing = False, ldev = 0, lh_n = 0, lh_block = replicate LOGBLOCKS 0,
      sb = get_sb (replicate BSIZE 0), itable = replicate NINODE zero_inode,
      km = \<lparr>mem = m, freelist = 0, krefcount = (\<lambda>_. 0), kend = e\<rparr>,
      procs = replicate NPROC zero_proc, nextpid = 1, initproc = None, kticks = 0, k_trampoline = tr, k_forkret = fr,
      cons_buf = replicate INPUT_BUF_SIZE 0, cons_r = 0, cons_w = 0, cons_e = 0, uart_wr = [], uart_tx_busy = False,
      lsr_in = [], rhr_in = [], panicked = False,
      ftable = replicate NFILE zero_file, pipes = (\<lambda>_. zero_pipe)\<rparr>"

abbreviation bss0 :: filest where "bss0 \<equiv> bss (\<lambda>_. 0) [] 0 0 0"

end
