(* ===== verification/Ring.thy ===== *)
theory Ring
  imports Bss
begin

section \<open>Ring buffers\<close>

text \<open>
  Pipes and the console keep their bytes in an array indexed by counters that only grow and wrap
  around at 32 bits. The locale states what such a buffer promises, a bounded queue, and proves
  once what follows for every sequence of operations; pipes and the console input are
  instances.
\<close>

subsection \<open>The contract\<close>

datatype 'b qop = Put 'b | Get

locale bounded_queue =
  fixes contents :: "'q \<Rightarrow> 'b list"
    and put :: "'b \<Rightarrow> 'q \<Rightarrow> 'q"
    and get :: "'q \<Rightarrow> 'q"
    and head :: "'q \<Rightarrow> 'b"
    and inv :: "'q \<Rightarrow> bool"
    and cap :: nat
  assumes put_inv: "inv q \<Longrightarrow> length (contents q) < cap \<Longrightarrow> inv (put b q)"
    and put_contents: "inv q \<Longrightarrow> length (contents q) < cap \<Longrightarrow> contents (put b q) = contents q @ [b]"
    and get_inv: "inv q \<Longrightarrow> contents q \<noteq> [] \<Longrightarrow> inv (get q)"
    and get_contents: "inv q \<Longrightarrow> contents q \<noteq> [] \<Longrightarrow> contents q = head q # contents (get q)"
    and inv_cap: "inv q \<Longrightarrow> length (contents q) \<le> cap"
begin

text \<open>A run of operations, with the bytes it returns; an operation on a full or empty buffer is refused.\<close>

fun run :: "'b qop list \<Rightarrow> 'q \<Rightarrow> 'b list \<times> 'b list \<times> 'q" where
  "run [] q = ([], [], q)"
| "run (Put b # ops) q =
     (if length (contents q) < cap then (let (ins, outs, q') = run ops (put b q) in (b # ins, outs, q')) else run ops q)"
| "run (Get # ops) q =
     (if contents q \<noteq> [] then (let (ins, outs, q') = run ops (get q) in (ins, head q # outs, q')) else run ops q)"

lemma run_fifo: "inv q \<Longrightarrow> run ops q = (ins, outs, q') \<Longrightarrow> contents q @ ins = outs @ contents q' \<and> inv q'"
proof (induction ops arbitrary: q ins outs)
  case (Cons op ops)
  show ?case
  proof (cases op)
    case (Put b)
    show ?thesis
    proof (cases "length (contents q) < cap")
      case True
      obtain i' o' where r: "run ops (put b q) = (i', o', q')" "ins = b # i'" "outs = o'"
        using Cons.prems(2) Put True by (auto split: prod.splits)
      show ?thesis using Cons.IH [OF put_inv [OF Cons.prems(1) True] r(1)] put_contents [OF Cons.prems(1) True] r by simp
    qed (use Cons Put in auto)
  next
    case Get
    show ?thesis
    proof (cases "contents q = []")
      case False
      obtain i' o' where r: "run ops (get q) = (i', o', q')" "ins = i'" "outs = head q # o'"
        using Cons.prems(2) Get False by (auto split: prod.splits)
      show ?thesis using Cons.IH [OF get_inv [OF Cons.prems(1) False] r(1)] get_contents [OF Cons.prems(1) False] r
        by (metis append_Cons)
    next
      case True
      then have "run ops q = (ins, outs, q')" using Cons.prems(2) Get by simp
      then show ?thesis by (rule Cons.IH [OF Cons.prems(1)])
    qed
  qed
qed simp

lemma run_put_all:
  "inv q \<Longrightarrow> length (contents q) + length bs \<le> cap \<Longrightarrow> \<exists>q'. run (map Put bs) q = (bs, [], q') \<and> contents q' = contents q @ bs \<and> inv q'"
proof (induction bs arbitrary: q)
  case (Cons b bs)
  then have l: "length (contents q) < cap" by simp
  obtain q' where "run (map Put bs) (put b q) = (bs, [], q')" "contents q' = contents (put b q) @ bs" "inv q'"
    using Cons.IH [OF put_inv [OF Cons.prems(1) l, of b]] put_contents [OF Cons.prems(1) l, of b] Cons.prems(2) by auto
  then show ?case using l put_contents [OF Cons.prems(1) l, of b] by simp
qed simp

end

subsection \<open>The array\<close>

text \<open>The bytes of the array \<open>d\<close> from counter \<open>r\<close> up to counter \<open>w\<close>.\<close>

definition ring :: "bytes \<Rightarrow> uint32 \<Rightarrow> uint32 \<Rightarrow> bytes" where
  "ring d r w = map (\<lambda>k. d ! (unat (r + of_nat k) mod length d)) [0..<unat (w - r)]"

lemma length_ring [simp]: "length (ring d r w) = unat (w - r)"
  by (simp add: ring_def)

lemma unat_mod_add32:
  fixes a b :: uint32
  assumes "m dvd 2 ^ 32"
  shows "unat (a + b) mod m = (unat a + unat b) mod m"
  using assms by (simp add: unat_word_ariths mod_mod_cancel)

lemma mod_add_ne:
  fixes a k m :: nat
  assumes "0 < k" "k < m"
  shows "(a + k) mod m \<noteq> a mod m"
proof
  assume "(a + k) mod m = a mod m"
  then have "m dvd (a + k) - a" by (metis mod_eq_dvd_iff_nat le_add1)
  then have "m dvd k" by simp
  then show False using assms by (auto dest: dvd_imp_le)
qed

lemma ring_index_ne:
  fixes r w :: uint32
  assumes m: "m dvd 2 ^ 32" and l: "unat (w - r) \<le> m" and k: "k < unat (w - r)" "unat (w - r) < m \<or> 0 < k"
  shows "unat (r + of_nat k) mod m \<noteq> unat w mod m"
proof -
  let ?n = "unat (w - r)"
  have kn: "k < 2 ^ 32" using k(1) unsigned_less [of "w - r", where ?'a = nat] by simp
  have w: "w = (r + of_nat k) + of_nat (?n - k)" using k(1) by (simp add: of_nat_diff)
  have "?n - k < 2 ^ 32" using unsigned_less [of "w - r", where ?'a = nat] by simp
  then have u: "unat (of_nat (?n - k) :: uint32) = ?n - k" by (simp add: unat_of_nat)
  have "unat w mod m = (unat (r + of_nat k) + (?n - k)) mod m"
    by (subst w) (simp only: unat_mod_add32 [OF m] u)
  moreover have "0 < ?n - k" "?n - k < m" using k l by auto
  ultimately show ?thesis using mod_add_ne by metis
qed

lemma ring_put:
  assumes m: "length d dvd 2 ^ 32" "length d < 2 ^ 32" and l: "unat (w - r) < length d"
  shows "ring (d[unat w mod length d := b]) r (w + 1) = ring d r w @ [b]"
proof -
  let ?n = "unat (w - r)"
  have "w + 1 - r = (w - r) + 1" by simp
  moreover have "unat ((w - r) + 1) = Suc ?n" using l m(2) unat_add_lem [of "w - r" 1] by simp
  ultimately have n1: "unat (w + 1 - r) = Suc ?n" by metis
  have w: "r + of_nat ?n = w" by simp
  have i: "unat w mod length d < length d" using l by (intro mod_less_divisor) linarith
  have "d[unat w mod length d := b] ! (unat (r + of_nat k) mod length d) = d ! (unat (r + of_nat k) mod length d)" if "k < ?n" for k
    using ring_index_ne [OF m(1), of w r k] that l by simp
  then show ?thesis unfolding ring_def n1 upt_Suc using w i by simp
qed

lemma ring_get:
  assumes "w \<noteq> r"
  shows "ring d r w = d ! (unat r mod length d) # ring d (r + 1) w"
proof -
  have pos: "0 < unat (w - r)" using assms by (simp add: unat_gt_0)
  have "w - (r + 1) = (w - r) - 1" by simp
  moreover have "unat ((w - r) - 1) = unat (w - r) - 1" using assms by (intro unat_minus_one) simp
  ultimately have n: "unat (w - r) = Suc (unat (w - (r + 1)))" using pos by (metis Suc_pred' One_nat_def)
  have "ring d r w = map (\<lambda>k. d ! (unat (r + of_nat k) mod length d)) (0 # map Suc [0..<unat (w - (r + 1))])"
    unfolding ring_def n by (simp only: upt_conv_Cons [of 0, simplified] map_Suc_upt zero_less_Suc)
  also have "\<dots> = d ! (unat r mod length d) # ring d (r + 1) w"
    by (simp add: ring_def comp_def add.assoc)
  finally show ?thesis .
qed

subsection \<open>Pipes\<close>

definition pipe_q :: "pipe \<Rightarrow> bytes" where
  "pipe_q p = ring (pi_data p) (pi_nread p) (pi_nwrite p)"

definition pipe_inv :: "pipe \<Rightarrow> bool" where
  "pipe_inv p \<longleftrightarrow> length (pi_data p) = PIPESIZE \<and> unat (pi_nwrite p - pi_nread p) \<le> PIPESIZE"

lemma pipe_full_iff: "pipe_inv p \<Longrightarrow> pipe_full p \<longleftrightarrow> length (pipe_q p) = PIPESIZE"
proof -
  assume "pipe_inv p"
  have "pipe_full p \<longleftrightarrow> pi_nwrite p - pi_nread p = of_nat PIPESIZE"
    by (auto simp: pipe_full_def algebra_simps)
  also have "\<dots> \<longleftrightarrow> unat (pi_nwrite p - pi_nread p) = PIPESIZE"
    unfolding word_unat_eq_iff by (simp add: PIPESIZE_def)
  finally show ?thesis by (simp add: pipe_q_def)
qed

interpretation pipe: bounded_queue pipe_q pipe_put pipe_get pipe_head pipe_inv PIPESIZE
proof
  fix p b
  assume inv: "pipe_inv p" and l: "length (pipe_q p) < PIPESIZE"
  have d: "length (pi_data p) = 512" "unat (pi_nwrite p - pi_nread p) < 512"
    using inv l by (simp_all add: pipe_inv_def pipe_q_def PIPESIZE_def)
  show q: "pipe_q (pipe_put b p) = pipe_q p @ [b]"
    using ring_put [of "pi_data p" "pi_nwrite p" "pi_nread p" b] d by (simp add: pipe_q_def pipe_put_def PIPESIZE_def)
  have "length (pipe_q (pipe_put b p)) \<le> PIPESIZE" using q l by simp
  then show "pipe_inv (pipe_put b p)" using d by (simp add: pipe_inv_def pipe_q_def pipe_put_def PIPESIZE_def)
next
  fix p
  assume inv: "pipe_inv p" and ne: "pipe_q p \<noteq> []"
  have "pi_nwrite p \<noteq> pi_nread p" using ne by (auto simp: pipe_q_def ring_def)
  then show q: "pipe_q p = pipe_head p # pipe_q (pipe_get p)"
    using ring_get [of "pi_nwrite p" "pi_nread p" "pi_data p"] inv
    by (simp add: pipe_q_def pipe_head_def pipe_get_def pipe_inv_def)
  have "length (pipe_q (pipe_get p)) \<le> PIPESIZE" using q inv by (simp add: pipe_inv_def pipe_q_def) (metis Suc_leD length_Cons length_ring)
  then show "pipe_inv (pipe_get p)" using inv by (simp add: pipe_inv_def pipe_q_def pipe_get_def)
next
  show "pipe_inv p \<Longrightarrow> length (pipe_q p) \<le> PIPESIZE" for p by (simp add: pipe_inv_def pipe_q_def)
qed

subsection \<open>The system calls on a pipe\<close>

lemma wakeup_pipes [simp]: "pipes (wakeup me c s) = pipes s"
  by (simp add: wakeup_def)

lemma on_km_pipes: "on_km f s = Ok r s' \<Longrightarrow> pipes s' = pipes s"
  for s :: "'a filest_scheme"
  by (auto simp: on_km_def on_part_eq_Ok)

lemma upd_pipe_pipes [simp]: "pipes (upd_pipe a f s) = (pipes s)(a := f (pipes s a))"
  by (simp add: upd_pipe_def)

text \<open>What a write, continued after \<open>i\<close> bytes, appends to the queue.\<close>

lemma pipewrite_from_appends:
  "pipewrite_from me a u n i s = Ok r s' \<Longrightarrow> pipe_inv (pipes s a) \<Longrightarrow> i \<le> n \<Longrightarrow>
   \<exists>bs. pipe_q (pipes s' a) = pipe_q (pipes s a) @ bs \<and> pipe_inv (pipes s' a) \<and> i + length bs \<le> n \<and>
     (\<forall>b. b \<noteq> a \<longrightarrow> pipes s' b = pipes s b) \<and>
     (case r of Inl j \<Rightarrow> j = i + length bs \<and> j < n \<and> pipe_full (pipes s' a) | Inr k \<Rightarrow> k = -1 \<or> k = int (i + length bs))"
proof (induction me a u n i s arbitrary: r s' rule: pipewrite_from.induct)
  case (1 me a u n i s)
  show ?case
  proof (cases "i < n \<and> pi_readopen (pipes s a) \<and> \<not> killed me s \<and> \<not> pipe_full (pipes s a)")
    case False
    then show ?thesis using 1(2,3,4) by (subst (asm) pipewrite_from.simps) (auto split: if_splits)
  next
    case True
    obtain v t where c: "on_km (copyin (csz (myself me s)) (cpt (myself me s)) (cpt (myself me s)) (u + of_nat i) 1) s = Ok v t"
      and rest: "(case v of (x, bs) \<Rightarrow> \<lambda>s. if x = -1 then Ok (Inr (int i)) (wakeup (Some me) (ChPipeRead a) s)
                else pipewrite_from me a u n (Suc i) (upd_pipe a (pipe_put (hd bs)) s)) t = Ok r s'"
      using 1(2) True by (subst (asm) pipewrite_from.simps) (auto simp: kbind_eq_Ok)
    obtain x bs where v: "v = (x, bs)" by (cases v)
    have tp: "pipes t = pipes s" by (rule on_km_pipes [OF c])
    show ?thesis
    proof (cases "x = -1")
      case True
      then show ?thesis using rest v tp 1(3,4) by auto
    next
      case False
      define t' where "t' = upd_pipe a (pipe_put (hd bs)) t"
      have w: "pipewrite_from me a u n (Suc i) t' = Ok r s'" using rest v False by (simp add: t'_def)
      have len: "length (pipe_q (pipes s a)) < PIPESIZE"
        using pipe_full_iff [OF 1(3)] True pipe.inv_cap [OF 1(3)] by linarith
      have p': "pipes t' a = pipe_put (hd bs) (pipes s a)" "\<And>b. b \<noteq> a \<Longrightarrow> pipes t' b = pipes s b" by (simp_all add: t'_def tp)
      have inv': "pipe_inv (pipes t' a)" unfolding p' by (rule pipe.put_inv [OF 1(3) len])
      have ih: "\<exists>bs'. pipe_q (pipes s' a) = pipe_q (pipes t' a) @ bs' \<and> pipe_inv (pipes s' a) \<and> Suc i + length bs' \<le> n \<and>
         (\<forall>b. b \<noteq> a \<longrightarrow> pipes s' b = pipes t' b) \<and>
         (case r of Inl j \<Rightarrow> j = Suc i + length bs' \<and> j < n \<and> pipe_full (pipes s' a) | Inr k \<Rightarrow> k = -1 \<or> k = int (Suc i + length bs'))"
        by (rule "1.IH" [OF _ _ _ c v [symmetric] False, where xa = t, folded t'_def, OF _ _ _ w inv'])
          (use \<open>i < n \<and> pi_readopen (pipes s a) \<and> \<not> killed me s \<and> \<not> pipe_full (pipes s a)\<close> in auto)
      then obtain bs' where "pipe_q (pipes s' a) = pipe_q (pipes t' a) @ bs'" "pipe_inv (pipes s' a)" "Suc i + length bs' \<le> n"
         "\<And>b. b \<noteq> a \<Longrightarrow> pipes s' b = pipes t' b"
         "case r of Inl j \<Rightarrow> j = Suc i + length bs' \<and> j < n \<and> pipe_full (pipes s' a) | Inr k \<Rightarrow> k = -1 \<or> k = int (Suc i + length bs')"
        by blast
      then show ?thesis using p' pipe.put_contents [OF 1(3) len]
        by (intro exI [of _ "hd bs # bs'"]) (auto split: sum.splits)
    qed
  qed
qed

text \<open>What a read removes from the queue; when it fails before the first byte it removes nothing.\<close>

lemma piperead_loop_removes:
  "piperead_loop me a u i k s = Ok r s' \<Longrightarrow> pipe_inv (pipes s a) \<Longrightarrow>
   \<exists>bs. pipe_q (pipes s a) = bs @ pipe_q (pipes s' a) \<and> pipe_inv (pipes s' a) \<and> length bs \<le> k \<and>
     (\<forall>b. b \<noteq> a \<longrightarrow> pipes s' b = pipes s b) \<and> (r = int (i + length bs) \<or> r = -1 \<and> i = 0 \<and> bs = [])"
proof (induction k arbitrary: i s r s')
  case (Suc k)
  show ?case
  proof (cases "pi_nread (pipes s a) = pi_nwrite (pipes s a)")
    case True
    then show ?thesis using Suc.prems by auto
  next
    case False
    obtain v t where c: "on_km (copyout (csz (myself me s)) (cpt (myself me s)) (cpt (myself me s)) (u + of_nat i) [pipe_head (pipes s a)]) s = Ok v t"
      and rest: "(if v = -1 then Ok (if i = 0 then -1 else int i) t else piperead_loop me a u (Suc i) k (upd_pipe a pipe_get t)) = Ok r s'"
      using Suc.prems(1) False by (auto simp: kbind_eq_Ok)
    have tp: "pipes t = pipes s" by (rule on_km_pipes [OF c])
    have ne: "pipe_q (pipes s a) \<noteq> []" using False by (auto simp: pipe_q_def ring_def unat_eq_0)
    show ?thesis
    proof (cases "v = -1")
      case True
      then show ?thesis using rest tp Suc.prems(2) by (auto split: if_splits)
    next
      case v: False
      define t' where "t' = upd_pipe a pipe_get t"
      have p': "pipes t' a = pipe_get (pipes s a)" "\<And>b. b \<noteq> a \<Longrightarrow> pipes t' b = pipes s b" by (simp_all add: t'_def tp)
      have inv': "pipe_inv (pipes t' a)" unfolding p' by (rule pipe.get_inv [OF Suc.prems(2) ne])
      have w: "piperead_loop me a u (Suc i) k t' = Ok r s'" using rest v by (simp add: t'_def)
      obtain bs where "pipe_q (pipes t' a) = bs @ pipe_q (pipes s' a)" "pipe_inv (pipes s' a)" "length bs \<le> k"
         "\<And>b. b \<noteq> a \<Longrightarrow> pipes s' b = pipes t' b" "r = int (Suc i + length bs)"
        using Suc.IH [OF w inv'] by auto
      then show ?thesis using p' pipe.get_contents [OF Suc.prems(2) ne]
        by (intro exI [of _ "pipe_head (pipes s a) # bs"]) auto
    qed
  qed
qed (auto intro: exI [of _ "[]"])

subsection \<open>Properties\<close>

text \<open>Property C12: a pipe is a first-in first-out queue of at most 512 bytes, although its array is
  reused and its counters wrap around at 32 bits: in every sequence of \<^verbatim>\<open>pipewrite\<close> and \<^verbatim>\<open>piperead\<close>
  byte steps the bytes read followed by those still in the pipe are the bytes that were in it
  followed by those written, in order.\<close>

theorem pipe_fifo:
  assumes "pipe_inv p" and "pipe.run ops p = (ins, outs, p')"
  shows "pipe_q p @ ins = outs @ pipe_q p' \<and> length (pipe_q p') \<le> PIPESIZE"
  using pipe.run_fifo [OF assms] pipe.inv_cap by blast

definition wrap_pipe :: pipe where
  "wrap_pipe = \<lparr>pi_data = replicate 512 0, pi_nread = 0xffffffff, pi_nwrite = 0xffffffff, pi_readopen = True, pi_writeopen = True\<rparr>"

theorem pipe_fifo_witness:
  "pipe_inv wrap_pipe \<and> (\<exists>p'. pipe.run [Put 1, Put 2, Get, Get] wrap_pipe = ([1, 2], [1, 2], p') \<and>
     pipe_q wrap_pipe @ [1, 2] = [1, 2] @ pipe_q p')"
proof -
  have inv: "pipe_inv wrap_pipe" by (simp add: wrap_pipe_def pipe_inv_def PIPESIZE_def)
  have q0: "pipe_q wrap_pipe = []" by (simp add: wrap_pipe_def pipe_q_def ring_def)
  have i1: "pipe_inv (pipe_put 1 wrap_pipe)" and q1: "pipe_q (pipe_put 1 wrap_pipe) = [1]"
    using pipe.put_inv [OF inv] pipe.put_contents [OF inv] q0 by (simp_all add: PIPESIZE_def)
  let ?p2 = "pipe_put 2 (pipe_put 1 wrap_pipe)"
  have i2: "pipe_inv ?p2" and q2: "pipe_q ?p2 = [1, 2]"
    using pipe.put_inv [OF i1] pipe.put_contents [OF i1] q1 by (simp_all add: PIPESIZE_def)
  have h: "pipe_head ?p2 = 1" "pipe_q (pipe_get ?p2) = [2]" "pipe_inv (pipe_get ?p2)"
    using pipe.get_contents [OF i2] pipe.get_inv [OF i2] q2 by simp_all
  have room: "0 < PIPESIZE" "Suc 0 < PIPESIZE" by (simp_all add: PIPESIZE_def)
  have "pipe_head (pipe_get ?p2) = 2" using pipe.get_contents [OF h(3)] h(2) by simp
  then have "pipe.run [Put 1, Put 2, Get, Get] wrap_pipe = ([1, 2], [1, 2], pipe_get (pipe_get ?p2))"
    using q0 q1 q2 h room by simp
  then show ?thesis using pipe_fifo [OF inv] inv by blast
qed



end
