(* ===== verification/Consin.thy ===== *)
theory Consin
  imports Ring
begin

section \<open>Console input and formatted output\<close>

text \<open>
  The input buffer of the console is a ring with three counters: \<open>r\<close> (read), \<open>w\<close> (committed lines) and
  \<open>e\<close> (the line being edited). The lemmas show that the three stay in order, that editing never
  touches committed input, and that readers get the committed bytes in order. The second part
  is about \<^verbatim>\<open>printint\<close>, the third about \<^verbatim>\<open>uartwrite\<close>.
\<close>

definition cons_q :: "'a consst_scheme \<Rightarrow> bytes" where
  "cons_q s = ring (cons_buf s) (cons_r s) (cons_e s)"

definition cons_line :: "'a consst_scheme \<Rightarrow> bytes" where
  "cons_line s = ring (cons_buf s) (cons_r s) (cons_w s)"

definition cons_inv :: "'a consst_scheme \<Rightarrow> bool" where
  "cons_inv s \<longleftrightarrow> length (cons_buf s) = INPUT_BUF_SIZE \<and> unat (cons_e s - cons_r s) \<le> INPUT_BUF_SIZE \<and>
     unat (cons_w s - cons_r s) \<le> unat (cons_e s - cons_r s)"

definition cons_put :: "uint8 \<Rightarrow> 'a consst_scheme \<Rightarrow> 'a consst_scheme" where
  "cons_put c s = s\<lparr>cons_buf := (cons_buf s)[unat (cons_e s) mod INPUT_BUF_SIZE := c], cons_e := cons_e s + 1\<rparr>"

definition cons_get :: "'a consst_scheme \<Rightarrow> 'a consst_scheme" where
  "cons_get s = s\<lparr>cons_r := cons_r s + 1\<rparr>"

definition cons_ring_inv :: "'a consst_scheme \<Rightarrow> bool" where
  "cons_ring_inv s \<longleftrightarrow> length (cons_buf s) = INPUT_BUF_SIZE \<and> unat (cons_e s - cons_r s) \<le> INPUT_BUF_SIZE"

interpretation cons: bounded_queue cons_q cons_put cons_get "\<lambda>s. cons_at (cons_r s) s" cons_ring_inv INPUT_BUF_SIZE
proof
  fix s :: "'a consst_scheme" and b
  assume inv: "cons_ring_inv s" and l: "length (cons_q s) < INPUT_BUF_SIZE"
  have d: "length (cons_buf s) = 128" "unat (cons_e s - cons_r s) < 128"
    using inv l by (simp_all add: cons_ring_inv_def cons_q_def INPUT_BUF_SIZE_def)
  show q: "cons_q (cons_put b s) = cons_q s @ [b]"
    using ring_put [of "cons_buf s" "cons_e s" "cons_r s" b] d by (simp add: cons_q_def cons_put_def INPUT_BUF_SIZE_def)
  have "length (cons_q (cons_put b s)) \<le> INPUT_BUF_SIZE" using q l by simp
  then show "cons_ring_inv (cons_put b s)" using d by (simp add: cons_ring_inv_def cons_q_def cons_put_def INPUT_BUF_SIZE_def)
next
  fix s :: "'a consst_scheme"
  assume inv: "cons_ring_inv s" and ne: "cons_q s \<noteq> []"
  have "cons_e s \<noteq> cons_r s" using ne by (auto simp: cons_q_def ring_def)
  then show q: "cons_q s = cons_at (cons_r s) s # cons_q (cons_get s)"
    using ring_get [of "cons_e s" "cons_r s" "cons_buf s"] inv
    by (simp add: cons_q_def cons_at_def cons_get_def cons_ring_inv_def)
  have "Suc (length (cons_q (cons_get s))) \<le> INPUT_BUF_SIZE" using q inv by (metis cons_ring_inv_def cons_q_def length_Cons length_ring)
  then show "cons_ring_inv (cons_get s)" using inv by (simp add: cons_ring_inv_def cons_q_def cons_get_def)
next
  show "cons_ring_inv s \<Longrightarrow> length (cons_q s) \<le> INPUT_BUF_SIZE" for s :: "'a consst_scheme"
    by (simp add: cons_ring_inv_def cons_q_def)
qed

lemma ring_take: "unat (w - r) \<le> unat (e - r) \<Longrightarrow> ring d r w = take (unat (w - r)) (ring d r e)"
  by (simp add: ring_def take_map)

lemma cons_line_take: "cons_inv s \<Longrightarrow> cons_line s = take (unat (cons_w s - cons_r s)) (cons_q s)"
  unfolding cons_line_def cons_q_def by (rule ring_take) (simp add: cons_inv_def)

lemma cons_invD: "cons_inv s \<Longrightarrow> cons_ring_inv s"
  by (simp add: cons_inv_def cons_ring_inv_def)

text \<open>Distances between counters that stay in order.\<close>

lemma dist_pred:
  fixes e w r :: uint32
  assumes "unat (w - r) \<le> unat (e - r)" "e \<noteq> w"
  shows "unat (e - 1 - r) = unat (e - r) - 1" "unat (w - r) \<le> unat (e - 1 - r)"
proof -
  have ne: "e - r \<noteq> w - r" using assms(2) by simp
  then have lt: "unat (w - r) < unat (e - r)" using assms(1) by (metis le_neq_implies_less word_unat_eq_iff)
  then have "e - r \<noteq> 0" by auto
  then have "unat ((e - r) - 1) = unat (e - r) - 1" by (rule unat_minus_one)
  moreover have "e - 1 - r = (e - r) - 1" by (simp add: algebra_simps)
  ultimately show u: "unat (e - 1 - r) = unat (e - r) - 1" by metis
  show "unat (w - r) \<le> unat (e - 1 - r)" unfolding u using lt by linarith
qed

lemma cons_erase:
  assumes "cons_inv s" "cons_e s \<noteq> cons_w s"
  shows "cons_inv (s\<lparr>cons_e := cons_e s - 1\<rparr>)"
  using dist_pred [of "cons_w s" "cons_r s" "cons_e s"] assms by (auto simp: cons_inv_def)

lemma cons_same:
  assumes "cons_e t = cons_e s" "cons_w t = cons_w s" "cons_r t = cons_r s" "cons_buf t = cons_buf s"
  shows "cons_inv t = cons_inv s" "cons_line t = cons_line s" "cons_q t = cons_q s" "cons_ring_inv t = cons_ring_inv s"
  using assms by (simp_all add: cons_inv_def cons_line_def cons_q_def cons_ring_inv_def)

lemma kill_line_keeps: "kill_line s = Ok u t \<Longrightarrow> cons_inv s \<Longrightarrow> cons_inv t \<and> cons_line t = cons_line s"
proof (induction s arbitrary: u t rule: kill_line.induct)
  case (1 s)
  show ?case
  proof (cases "cons_e s \<noteq> cons_w s \<and> cons_at (cons_e s - 1) s \<noteq> 10")
    case True
    then obtain v s1 where c: "consputc BACKSPACE (s\<lparr>cons_e := cons_e s - 1\<rparr>) = Ok v s1" "kill_line s1 = Ok u t"
      using 1(2) by (subst (asm) kill_line.simps) (auto simp: kbind_eq_Ok)
    have k: "cons_inv s1 = cons_inv (s\<lparr>cons_e := cons_e s - 1\<rparr>)" "cons_line s1 = cons_line (s\<lparr>cons_e := cons_e s - 1\<rparr>)"
      using consputc_keeps [OF c(1)] cons_same [of s1 "s\<lparr>cons_e := cons_e s - 1\<rparr>"] by simp_all
    have "cons_inv s1" using k cons_erase [OF 1(3)] True by simp
    then show ?thesis using "1.IH" [OF True c(1) c(2)] k by (simp add: cons_line_def)
  next
    case False
    then show ?thesis using 1(2,3) by (subst (asm) kill_line.simps) (auto simp: )
  qed
qed

lemma put_chars_keeps: "put_chars cs s = Ok u t \<Longrightarrow> cons_e t = cons_e s \<and> cons_w t = cons_w s \<and> cons_r t = cons_r s \<and> cons_buf t = cons_buf s"
  by (induction cs arbitrary: s) (auto simp: kbind_eq_Ok dest!: uartputc_keeps)

lemma kprintf_keeps: "kprintf f as s = Ok u t \<Longrightarrow> cons_e t = cons_e s \<and> cons_w t = cons_w s \<and> cons_r t = cons_r s \<and> cons_buf t = cons_buf s"
  by (auto simp: kprintf_def split: option.splits dest: put_chars_keeps)

lemma procdump_loop_keeps: "procdump_loop ps s = Ok u t \<Longrightarrow> cons_e t = cons_e s \<and> cons_w t = cons_w s \<and> cons_r t = cons_r s \<and> cons_buf t = cons_buf s"
proof (induction ps arbitrary: s)
  case (Cons p ps)
  then show ?case by (auto simp: kbind_eq_Ok split: if_splits dest!: kprintf_keeps Cons.IH)
qed simp

lemma store_char_keeps:
  assumes r: "store_char c me s = Ok u t" and inv: "cons_inv s"
  shows "cons_inv t \<and> (cons_line t = cons_line s \<or> cons_line t = cons_q s @ [ucast (if c = 13 then 10 else c)])"
proof (cases "c \<noteq> 0 \<and> unat (cons_e s - cons_r s) < INPUT_BUF_SIZE")
  case True
  define d where "d = (if c = 13 then 10 else c)"
  obtain v s1 where c: "consputc d s = Ok v s1"
    and t: "t = (if d = 10 \<or> d = 4 \<or> unat (cons_e (cons_put (ucast d) s1) - cons_r s1) = INPUT_BUF_SIZE
                 then wakeup me ChCons ((cons_put (ucast d) s1)\<lparr>cons_w := cons_e (cons_put (ucast d) s1)\<rparr>) else cons_put (ucast d) s1)"
    using r True by (auto simp: store_char_def d_def [symmetric] Let_def kbind_eq_Ok cons_put_def split: if_splits)
  note k = consputc_keeps [OF c] cons_same [of s1 s]
  have inv1: "cons_inv s1" "cons_q s1 = cons_q s" "cons_line s1 = cons_line s" using k inv by simp_all
  have len: "length (cons_q s1) < INPUT_BUF_SIZE" using True k by (simp add: cons_q_def)
  note ri = cons_invD [OF inv1(1)]
  have q: "cons_q (cons_put (ucast d) s1) = cons_q s @ [ucast d]" "cons_ring_inv (cons_put (ucast d) s1)"
    using cons.put_contents [OF ri len] cons.put_inv [OF ri len] inv1 by simp_all
  define p where "p = cons_put (ucast d) s1"
  have e: "unat (cons_e p - cons_r p) = Suc (unat (cons_e s1 - cons_r s1))" using arg_cong [OF q(1), of length] inv1(2)
    k by (simp add: p_def cons_q_def)
  have wr: "cons_w p = cons_w s1" "cons_r p = cons_r s1" by (simp_all add: p_def cons_put_def)
  have wle: "unat (cons_w s1 - cons_r s1) \<le> unat (cons_e s1 - cons_r s1)" using inv1(1) by (simp add: cons_inv_def)
  have invp: "cons_inv p" using q(2) e wle wr by (simp add: cons_inv_def cons_ring_inv_def p_def [symmetric])
  have linep: "cons_line p = cons_line s"
  proof -
    have "cons_line p = take (unat (cons_w s1 - cons_r s1)) (cons_q s1 @ [ucast d])"
      using cons_line_take [OF invp] q(1) inv1(2) wr by (simp add: p_def)
    also have "\<dots> = cons_line s1" using cons_line_take [OF inv1(1)] wle by (simp add: cons_q_def)
    finally show ?thesis using inv1(3) by simp
  qed
  show ?thesis
  proof (cases "d = 10 \<or> d = 4 \<or> unat (cons_e p - cons_r s1) = INPUT_BUF_SIZE")
    case True
    then have t': "t = wakeup me ChCons (p\<lparr>cons_w := cons_e p\<rparr>)" using t by (simp add: p_def)
    have "cons_inv t" using invp by (simp add: t' wakeup_def cons_inv_def)
    moreover have "cons_line t = cons_q p" by (simp add: t' wakeup_def cons_line_def cons_q_def)
    ultimately show ?thesis using q(1) by (simp add: p_def d_def)
  next
    case False
    then have "t = p" using t by (simp add: p_def)
    then show ?thesis using invp linep by simp
  qed
next
  case False
  then show ?thesis using r inv by (auto simp: store_char_def)
qed

subsection \<open>Properties of the input\<close>

text \<open>Property C14: whatever character arrives, \<^verbatim>\<open>consoleintr\<close> keeps the counters of the input buffer in
  order and within the buffer, and the committed input of before is kept: it stays as it is, or
  the edited line with the new character is added to it. In particular no editing key removes
  committed input.\<close>

theorem console_input_kept:
  assumes "cons_inv s" and "consoleintr me c s = Ok u t"
  shows "cons_inv t \<and> (\<exists>l. cons_line t = cons_line s @ l) \<and> length (cons_line t) \<le> INPUT_BUF_SIZE"
proof -
  have ext: "\<exists>l. cons_q s = cons_line s @ l" using cons_line_take [OF assms(1)] by (metis append_take_drop_id)
  have erase: "cons_inv v \<and> cons_line v = cons_line s" if "consputc BACKSPACE (s\<lparr>cons_e := cons_e s - 1\<rparr>) = Ok u' v" "cons_e s \<noteq> cons_w s" for u' v
    using consputc_keeps [OF that(1)] cons_same [of v "s\<lparr>cons_e := cons_e s - 1\<rparr>"] cons_erase [OF assms(1) that(2)]
    by (simp add: cons_line_def)
  have out: "cons_inv v \<and> cons_line v = cons_line s"
    if "cons_e v = cons_e s \<and> cons_w v = cons_w s \<and> cons_r v = cons_r s \<and> cons_buf v = cons_buf s" for v
    using that cons_same [of v s] assms(1) by simp
  have "cons_inv t \<and> (cons_line t = cons_line s \<or> (\<exists>d. cons_line t = cons_q s @ [d]))"
  proof -
    consider "c = 16" | "c = 21" | "c = 3" | "c \<noteq> 16 \<and> c \<noteq> 21 \<and> c \<noteq> 3 \<and> (c = 8 \<or> c = 0x7f)" | "c = 24"
      | "c \<noteq> 16 \<and> c \<noteq> 21 \<and> c \<noteq> 3 \<and> c \<noteq> 8 \<and> c \<noteq> 0x7f \<and> c \<noteq> 24" by blast
    then show ?thesis
    proof cases
      case 1
      then show ?thesis using assms(2) out [of t]
        by (auto simp: consoleintr_def procdump_def kbind_eq_Ok dest!: kprintf_keeps procdump_loop_keeps)
    next
      case 2
      then show ?thesis using assms(2) kill_line_keeps [OF _ assms(1)] by (auto simp: consoleintr_def)
    next
      case 3
      then show ?thesis using assms out [of t]
        by (auto simp: consoleintr_def kbind_eq_Ok setkilled_def upd_proc_def split: option.splits if_splits dest!: consputc_keeps)
    next
      case 4
      then show ?thesis using assms erase by (auto simp: consoleintr_def split: if_splits)
    next
      case 5
      then show ?thesis using assms(2) by (simp add: consoleintr_def)
    next
      case 6
      then have "store_char c me s = Ok u t" using assms(2) by (simp add: consoleintr_def)
      from store_char_keeps [OF this assms(1)] show ?thesis by blast
    qed
  qed
  then show ?thesis using ext by (auto simp: cons_line_def cons_inv_def)
qed

theorem console_input_kept_witness:
  "\<exists>t. cons_inv bss0 \<and> consoleintr None 8 bss0 = Ok () t \<and> cons_inv t \<and> length (cons_line t) \<le> INPUT_BUF_SIZE"
proof -
  have inv: "cons_inv bss0" by (simp add: cons_inv_def bss_def)
  have r: "consoleintr None 8 bss0 = Ok () bss0" by (simp add: consoleintr_def bss_def)
  show ?thesis using console_input_kept [OF inv r] r inv by blast
qed

subsection \<open>Numbers\<close>

text \<open>The number that a digit string denotes.\<close>

definition digit_val :: "uint8 \<Rightarrow> nat" where
  "digit_val c = (if c < 0x3a then unat c - 0x30 else unat c - 0x57)"

definition num_of :: "nat \<Rightarrow> bytes \<Rightarrow> nat" where
  "num_of base bs = foldl (\<lambda>a c. a * base + digit_val c) 0 bs"

definition int_of :: "bytes \<Rightarrow> int" where
  "int_of bs = (if bs \<noteq> [] \<and> hd bs = 0x2d then - int (num_of 10 (tl bs)) else int (num_of 10 bs))"

lemma num_of_snoc [simp]: "num_of base (bs @ [c]) = num_of base bs * base + digit_val c"
  by (simp add: num_of_def)

lemma unat_of_nat8: "n < 256 \<Longrightarrow> unat (of_nat n :: uint8) = n"
  by (simp add: unat_of_nat)

lemma digits_cases: "d < 16 \<Longrightarrow> digits d = of_nat (if d < 10 then 0x30 + d else 0x57 + d)"
  by (simp add: digits_def)

lemma digit_val_digits: "d < 16 \<Longrightarrow> digit_val (digits d) = d"
  by (simp add: digits_cases digit_val_def word_less_nat_alt unat_of_nat8 split: if_split)

lemma digits_not_minus: "d < 16 \<Longrightarrow> digits d \<noteq> 0x2d"
  by (simp add: digits_cases word_unat_eq_iff unat_of_nat8 split: if_split)

lemma mod_lt16: "2 \<le> base \<Longrightarrow> base \<le> 16 \<Longrightarrow> x mod base < (16 :: nat)"
  using mod_less_divisor [of base x] by linarith

lemma digit_loop_value: "2 \<le> base \<Longrightarrow> base \<le> 16 \<Longrightarrow> num_of base (rev (digit_loop base x)) = x"
proof (induction base x rule: digit_loop.induct)
  case (1 base x)
  have d: "digit_val (digits (x mod base)) = x mod base"
    by (rule digit_val_digits [OF mod_lt16 [OF 1(2,3)]])
  show ?case
  proof (cases "x div base = 0")
    case True
    then have "x mod base = x" using 1(2) by (simp add: div_eq_0_iff)
    then show ?thesis using d True by (subst digit_loop.simps) (simp add: num_of_def)
  next
    case False
    then have "num_of base (rev (digit_loop base (x div base))) = x div base" using 1 by simp
    then show ?thesis using d False 1(2) by (subst digit_loop.simps) simp
  qed
qed

lemma digit_loop_length: "2 \<le> base \<Longrightarrow> x < base ^ n \<Longrightarrow> 0 < n \<Longrightarrow> length (digit_loop base x) \<le> n"
proof (induction n arbitrary: x)
  case (Suc n)
  show ?case
  proof (cases "x div base = 0")
    case False
    have "n \<noteq> 0"
    proof
      assume "n = 0"
      then have "x < base" using Suc.prems(2) by simp
      then show False using False by simp
    qed
    moreover have "x div base < base ^ n" using Suc.prems(1,2) by (simp add: div_less_iff_less_mult mult.commute)
    ultimately have "length (digit_loop base (x div base)) \<le> n" using Suc by simp
    then show ?thesis by (subst digit_loop.simps) simp
  qed (subst digit_loop.simps, simp)
qed simp

lemma digit_loop_hd: "2 \<le> base \<Longrightarrow> base \<le> 16 \<Longrightarrow> \<forall>c \<in> set (digit_loop base x). c \<noteq> 0x2d"
proof (induction base x rule: digit_loop.induct)
  case (1 base x)
  have "x mod base < 16" by (rule mod_lt16 [OF 1(2,3)])
  then show ?case using 1 digits_not_minus by (subst digit_loop.simps) auto
qed

lemma digit_loop_ne: "digit_loop base x \<noteq> []"
  by (subst digit_loop.simps) simp


subsection \<open>Transmission\<close>

text \<open>
  A write that sleeps is resumed after each transmit interrupt, which finds the device idle and
  clears \<^verbatim>\<open>uart_tx_busy\<close>; \<open>drive k\<close> is a write that gets \<open>k\<close> interrupts.
\<close>

fun drive :: "nat \<Rightarrow> bool \<Rightarrow> bytes \<Rightarrow> 'a consst_scheme \<Rightarrow> (bool \<times> bytes + unit) \<times> 'a consst_scheme" where
  "drive 0 cr bs s = uartwrite_from cr bs s"
| "drive (Suc k) cr bs s =
     (case uartwrite_from cr bs s of
        (Inr u, t) \<Rightarrow> (Inr u, t)
      | (Inl (cr', bs'), t) \<Rightarrow> drive k cr' bs' (t\<lparr>uart_tx_busy := False\<rparr>))"

definition crlf :: "bytes \<Rightarrow> bytes" where
  "crlf bs = concat (map (\<lambda>c. if c = 10 then [13, 10] else [c]) bs)"

definition left :: "bool \<Rightarrow> bytes \<Rightarrow> bytes" where
  "left cr bs = (if cr then tl (crlf bs) else crlf bs)"

definition sent :: "bytes \<Rightarrow> (nat \<times> uint32) list" where
  "sent bs = map (\<lambda>c. (THR, ucast c)) bs"

lemma crlf_simps [simp]: "crlf [] = []" "crlf (c # cs) = (if c = 10 then 13 # 10 # crlf cs else c # crlf cs)"
  by (simp_all add: crlf_def)

lemma left_ne: "(cr \<longrightarrow> c = 10) \<Longrightarrow> left cr (c # cs) \<noteq> []"
  by (simp add: left_def)

text \<open>When the device is idle one character goes out and the rest waits.\<close>

lemma uartwrite_idle:
  assumes "\<not> uart_tx_busy s" and "cr \<longrightarrow> c = 10"
  shows "\<exists>cr' bs'. left cr (c # cs) = hd (left cr (c # cs)) # left cr' bs' \<and> (cr' \<longrightarrow> bs' \<noteq> [] \<and> hd bs' = 10) \<and>
     uartwrite_from cr (c # cs) s =
       ((if bs' = [] then Inr () else Inl (cr', bs')), s\<lparr>uart_wr := uart_wr s @ sent [hd (left cr (c # cs))], uart_tx_busy := True\<rparr>)"
proof (cases "c = 10 \<and> \<not> cr")
  case True
  then show ?thesis using assms
    by (intro exI [of _ True] exI [of _ "c # cs"]) (simp add: left_def sent_def write_reg_def)
next
  case False
  have "uartwrite_from False cs ((write_reg THR (ucast c) s)\<lparr>uart_tx_busy := True\<rparr>) =
     ((if cs = [] then Inr () else Inl (False, cs)), (write_reg THR (ucast c) s)\<lparr>uart_tx_busy := True\<rparr>)"
    by (cases cs) simp_all
  then show ?thesis using assms False
    by (intro exI [of _ False] exI [of _ cs]) (auto simp: left_def sent_def write_reg_def)
qed

lemma drive_idle:
  "\<not> uart_tx_busy s \<Longrightarrow> (cr \<longrightarrow> bs \<noteq> [] \<and> hd bs = 10) \<Longrightarrow> length (left cr bs) \<le> Suc k \<Longrightarrow>
   \<exists>t. drive k cr bs s = (Inr (), t) \<and> uart_wr t = uart_wr s @ sent (left cr bs)"
proof (induction k arbitrary: cr bs s)
  case 0
  show ?case
  proof (cases bs)
    case (Cons c cs)
    then obtain cr' bs' where u: "left cr bs = hd (left cr bs) # left cr' bs'" "cr' \<longrightarrow> bs' \<noteq> [] \<and> hd bs' = 10"
       "uartwrite_from cr bs s = ((if bs' = [] then Inr () else Inl (cr', bs')), s\<lparr>uart_wr := uart_wr s @ sent [hd (left cr bs)], uart_tx_busy := True\<rparr>)"
      using uartwrite_idle [OF 0(1), of cr c cs] 0(2) by auto
    have "left cr' bs' = []" using u(1) 0(3) by (metis Suc_le_mono le_zero_eq length_0_conv length_Cons)
    then have "bs' = []" using u(2) left_ne by (metis list.exhaust_sel)
    moreover have "left cr bs = [hd (left cr bs)]" using u(1) \<open>left cr' bs' = []\<close> by simp
    then have "sent [hd (left cr bs)] = sent (left cr bs)" by simp
    ultimately show ?thesis using u(3) by simp
  qed (use 0 in \<open>auto simp: left_def sent_def\<close>)
next
  case (Suc k)
  show ?case
  proof (cases bs)
    case (Cons c cs)
    then obtain cr' bs' where u: "left cr bs = hd (left cr bs) # left cr' bs'" "cr' \<longrightarrow> bs' \<noteq> [] \<and> hd bs' = 10"
       "uartwrite_from cr bs s = ((if bs' = [] then Inr () else Inl (cr', bs')), s\<lparr>uart_wr := uart_wr s @ sent [hd (left cr bs)], uart_tx_busy := True\<rparr>)"
      using uartwrite_idle [OF Suc.prems(1), of cr c cs] Suc.prems(2) by auto
    have len: "length (left cr' bs') \<le> Suc k" using u(1) Suc.prems(3) by (metis Suc_le_mono length_Cons)
    have s: "sent (left cr bs) = sent [hd (left cr bs)] @ sent (left cr' bs')" using u(1) by (metis append_Cons append_Nil map_append sent_def)
    show ?thesis
    proof (cases "bs' = []")
      case True
      then have "sent (left cr' bs') = []" using u(2) by (simp add: left_def sent_def)
      then show ?thesis using u(3) True s by simp
    next
      case False
      obtain t where "drive k cr' bs' (s\<lparr>uart_wr := uart_wr s @ sent [hd (left cr bs)], uart_tx_busy := False\<rparr>) = (Inr (), t)"
         "uart_wr t = (uart_wr s @ sent [hd (left cr bs)]) @ sent (left cr' bs')"
        using Suc.IH [OF _ u(2) len, of "s\<lparr>uart_wr := uart_wr s @ sent [hd (left cr bs)], uart_tx_busy := False\<rparr>"] by auto
      then show ?thesis using u(3) False s by simp
    qed
  qed (use Suc.prems in \<open>auto simp: left_def sent_def\<close>)
qed

text \<open>Property C16: a console write gets done. Whether or not the device is busy when \<^verbatim>\<open>uartwrite\<close>
  starts, after as many transmit interrupts as there are characters to send (a newline is sent
  as carriage return and newline) the call has returned, and exactly these characters were
  written to the transmit register, in order.\<close>

theorem uartwrite_completes:
  assumes "length (crlf bs) \<le> k"
  shows "\<exists>t. drive k False bs s = (Inr (), t) \<and> uart_wr t = uart_wr s @ map (\<lambda>c. (THR, ucast c)) (crlf bs)"
proof (cases "uart_tx_busy s \<and> bs \<noteq> []")
  case True
  then obtain c cs where bs: "bs = c # cs" by (cases bs) auto
  have "crlf bs \<noteq> []" using bs by simp
  then obtain k' where k: "k = Suc k'" using assms by (cases k) auto
  have u: "uartwrite_from False bs s = (Inl (False, bs), s)" using True bs by simp
  then show ?thesis using drive_idle [of "s\<lparr>uart_tx_busy := False\<rparr>" False bs k'] assms k
    by (auto simp: left_def sent_def)
next
  case False
  then consider "\<not> uart_tx_busy s" | "bs = []" by blast
  then show ?thesis
  proof cases
    case 1
    then show ?thesis using drive_idle [OF 1, of False bs k] assms by (auto simp: left_def sent_def)
  next
    case 2
    then show ?thesis by (cases k) simp_all
  qed
qed

theorem uartwrite_completes_witness:
  "\<exists>t. drive 3 False [0x41, 10] bss0 = (Inr (), t) \<and> uart_wr t = uart_wr bss0 @ [(THR, 0x41), (THR, 13), (THR, 10)]"
  using uartwrite_completes [of "[0x41, 10]" 3 bss0] by simp

end
