(* ===== verification/Sched.thy ===== *)
theory Sched
  imports Proc
begin

section \<open>Scheduling, sleep and wakeup\<close>

text \<open>
  Two transition systems for the parts of \<^verbatim>\<open>kernel/proc.c\<close> whose correctness is about
  interleavings. The first has the processors and the states of the processes; a step is what
  happens between acquiring and releasing a process's lock (the locks give that granularity, see
  the theory of locks). The second is \<^verbatim>\<open>sleep\<close> and \<^verbatim>\<open>wakeup\<close> at the granularity of their lock
  operations, for a condition that is protected by a lock, and shows that no wakeup is lost.
\<close>

subsection \<open>Processors and processes\<close>

record sched_sys =
  st :: "nat \<Rightarrow> procstate"
  cur_proc :: "nat \<Rightarrow> nat option"

inductive sched_step :: "sched_sys \<Rightarrow> sched_sys \<Rightarrow> bool" where
  pick: "cur_proc s c = None \<Longrightarrow> st s p = RUNNABLE \<Longrightarrow>
    sched_step s (s\<lparr>st := (st s)(p := RUNNING), cur_proc := (cur_proc s)(c := Some p)\<rparr>)"
| yield: "cur_proc s c = Some p \<Longrightarrow>
    sched_step s (s\<lparr>st := (st s)(p := RUNNABLE), cur_proc := (cur_proc s)(c := None)\<rparr>)"
| sleep: "cur_proc s c = Some p \<Longrightarrow>
    sched_step s (s\<lparr>st := (st s)(p := SLEEPING), cur_proc := (cur_proc s)(c := None)\<rparr>)"
| exit: "cur_proc s c = Some p \<Longrightarrow>
    sched_step s (s\<lparr>st := (st s)(p := ZOMBIE), cur_proc := (cur_proc s)(c := None)\<rparr>)"
| wake: "st s p = SLEEPING \<Longrightarrow> sched_step s (s\<lparr>st := (st s)(p := RUNNABLE)\<rparr>)"
| alloc: "st s p = UNUSED \<Longrightarrow> sched_step s (s\<lparr>st := (st s)(p := USED)\<rparr>)"
| ready: "st s p = USED \<Longrightarrow> sched_step s (s\<lparr>st := (st s)(p := RUNNABLE)\<rparr>)"
| free: "st s p = USED \<or> st s p = ZOMBIE \<Longrightarrow> sched_step s (s\<lparr>st := (st s)(p := UNUSED)\<rparr>)"

inductive_cases sched_stepE: "sched_step s t"

definition sched_start :: "sched_sys \<Rightarrow> bool" where
  "sched_start s \<longleftrightarrow> (\<forall>p. st s p = UNUSED) \<and> (\<forall>c. cur_proc s c = None)"

definition sched_inv :: "sched_sys \<Rightarrow> bool" where
  "sched_inv s \<longleftrightarrow> (\<forall>p. st s p = RUNNING \<longleftrightarrow> (\<exists>c. cur_proc s c = Some p)) \<and>
     (\<forall>c d p. cur_proc s c = Some p \<longrightarrow> cur_proc s d = Some p \<longrightarrow> c = d)"

lemma sched_invD:
  assumes "sched_inv s"
  shows "st s p = RUNNING \<longleftrightarrow> (\<exists>c. cur_proc s c = Some p)" "cur_proc s c = Some p \<Longrightarrow> cur_proc s d = Some p \<Longrightarrow> c = d"
  using assms unfolding sched_inv_def by blast+

lemma sched_leave:
  assumes inv: "sched_inv s" and c: "cur_proc s c = Some p" and q: "q \<noteq> RUNNING"
  shows "sched_inv (s\<lparr>st := (st s)(p := q), cur_proc := (cur_proc s)(c := None)\<rparr>)"
proof -
  have "\<not> (\<exists>d. ((cur_proc s)(c := None)) d = Some p)" using sched_invD(2) [OF inv c] by (metis fun_upd_apply option.distinct(1))
  moreover have "((st s)(p := q)) r = RUNNING \<longleftrightarrow> (\<exists>d. ((cur_proc s)(c := None)) d = Some r)" if "r \<noteq> p" for r
    using sched_invD(1) [OF inv, of r] c that by (metis fun_upd_apply option.inject option.distinct(1))
  ultimately show ?thesis using q inv unfolding sched_inv_def by (auto simp: fun_upd_apply)
qed

lemma sched_change:
  assumes inv: "sched_inv s" and p: "st s p \<noteq> RUNNING" and q: "q \<noteq> RUNNING"
  shows "sched_inv (s\<lparr>st := (st s)(p := q)\<rparr>)"
  using inv p q unfolding sched_inv_def by auto

lemma sched_inv_step: "sched_inv s \<Longrightarrow> sched_step s t \<Longrightarrow> sched_inv t"
proof -
  assume inv: "sched_inv s" and step: "sched_step s t"
  from step show ?thesis
  proof (cases rule: sched_step.cases)
    case (pick c p)
    then have no: "cur_proc s d \<noteq> Some p" for d using sched_invD(1) [OF inv, of p] by auto
    have "st t r = RUNNING \<longleftrightarrow> (\<exists>d. cur_proc t d = Some r)" for r
      using sched_invD(1) [OF inv, of r] pick by (cases "r = p") (auto, metis option.distinct(1))
    moreover have "d = e" if "cur_proc t d = Some r" "cur_proc t e = Some r" for d e r
      using that pick no sched_invD(2) [OF inv, of d r e] by (auto split: if_splits)
    ultimately show ?thesis unfolding sched_inv_def by blast
  qed (auto intro: sched_leave [OF inv] sched_change [OF inv])
qed

interpretation sched: invariant_system sched_start sched_step sched_inv
proof
  show "sched_start s \<Longrightarrow> sched_inv s" for s by (simp add: sched_start_def sched_inv_def)
qed (rule sched_inv_step)

subsection \<open>Sleep and wakeup\<close>

text \<open>
  Thread \<open>i\<close> sleeps on the channel until the condition holds:
  \<^verbatim>\<open>acquire(lk); while(!cond) sleep(chan, lk); ... release(lk)\<close>. Its program counter: before acquiring
  the lock, holding it and about to test, in \<^verbatim>\<open>sleep\<close> before \<^verbatim>\<open>acquire(&p->lock)\<close>, before
  \<^verbatim>\<open>release(lk)\<close>, before it marks itself as sleeping, switching away with \<^verbatim>\<open>p->lock\<close> held, off the
  processor, running again with \<^verbatim>\<open>p->lock\<close> held, before it takes the lock again, past the loop.
  Thread \<open>w\<close> makes the condition true: \<^verbatim>\<open>acquire(lk); cond = 1; wakeup(chan); release(lk)\<close>; in
  \<^verbatim>\<open>wakeup\<close> its counter holds the next process to look at. \<^verbatim>\<open>wakeup\<close> passes over the process it
  runs in, which is not asleep, so looking at it would change nothing. A thread past the loop may
  make the condition false again.
\<close>

datatype spc = Enter | Test | TakeP | DropLk | Mark | Switch | Off | Back | Retake | Past
datatype wpc = WIdle | WHold | WScan nat

record slp_sys =
  cond :: bool
  lk_holder :: "(nat + nat) option"
  plock :: "nat \<Rightarrow> bool"
  pstate :: "nat \<Rightarrow> procstate"
  pchan :: "nat \<Rightarrow> bool"
  spcs :: "nat \<Rightarrow> spc"
  wpcs :: "nat \<Rightarrow> wpc"

inductive slp_step :: "nat \<Rightarrow> slp_sys \<Rightarrow> slp_sys \<Rightarrow> bool" for N where
  s_enter: "i < N \<Longrightarrow> spcs s i = Enter \<or> spcs s i = Retake \<Longrightarrow> lk_holder s = None \<Longrightarrow>
    slp_step N s (s\<lparr>lk_holder := Some (Inl i), spcs := (spcs s)(i := Test)\<rparr>)"
| s_true: "i < N \<Longrightarrow> spcs s i = Test \<Longrightarrow> cond s \<Longrightarrow> slp_step N s (s\<lparr>spcs := (spcs s)(i := Past)\<rparr>)"
| s_false: "i < N \<Longrightarrow> spcs s i = Test \<Longrightarrow> \<not> cond s \<Longrightarrow> slp_step N s (s\<lparr>spcs := (spcs s)(i := TakeP)\<rparr>)"
| s_takep: "i < N \<Longrightarrow> spcs s i = TakeP \<Longrightarrow> \<not> plock s i \<Longrightarrow>
    slp_step N s (s\<lparr>plock := (plock s)(i := True), spcs := (spcs s)(i := DropLk)\<rparr>)"
| s_drop: "i < N \<Longrightarrow> spcs s i = DropLk \<Longrightarrow>
    slp_step N s (s\<lparr>lk_holder := None, spcs := (spcs s)(i := Mark)\<rparr>)"
| s_mark: "i < N \<Longrightarrow> spcs s i = Mark \<Longrightarrow>
    slp_step N s (s\<lparr>pchan := (pchan s)(i := True), pstate := (pstate s)(i := SLEEPING), spcs := (spcs s)(i := Switch)\<rparr>)"
| s_switch: "i < N \<Longrightarrow> spcs s i = Switch \<Longrightarrow>
    slp_step N s (s\<lparr>plock := (plock s)(i := False), spcs := (spcs s)(i := Off)\<rparr>)"
| s_resume: "i < N \<Longrightarrow> spcs s i = Off \<Longrightarrow> pstate s i = RUNNABLE \<Longrightarrow> \<not> plock s i \<Longrightarrow>
    slp_step N s (s\<lparr>plock := (plock s)(i := True), pstate := (pstate s)(i := RUNNING), spcs := (spcs s)(i := Back)\<rparr>)"
| s_back: "i < N \<Longrightarrow> spcs s i = Back \<Longrightarrow>
    slp_step N s (s\<lparr>pchan := (pchan s)(i := False), plock := (plock s)(i := False), spcs := (spcs s)(i := Retake)\<rparr>)"
| s_leave: "i < N \<Longrightarrow> spcs s i = Past \<Longrightarrow>
    slp_step N s (s\<lparr>lk_holder := None, cond := False, spcs := (spcs s)(i := Enter)\<rparr>)"
| s_leave_set: "i < N \<Longrightarrow> spcs s i = Past \<Longrightarrow>
    slp_step N s (s\<lparr>lk_holder := None, spcs := (spcs s)(i := Enter)\<rparr>)"
| w_enter: "wpcs s w = WIdle \<Longrightarrow> lk_holder s = None \<Longrightarrow>
    slp_step N s (s\<lparr>lk_holder := Some (Inr w), wpcs := (wpcs s)(w := WHold)\<rparr>)"
| w_set: "wpcs s w = WHold \<Longrightarrow> slp_step N s (s\<lparr>cond := True, wpcs := (wpcs s)(w := WScan 0)\<rparr>)"
| w_scan: "wpcs s w = WScan k \<Longrightarrow> k < N \<Longrightarrow> \<not> plock s k \<Longrightarrow>
    slp_step N s (s\<lparr>pstate := (if pstate s k = SLEEPING \<and> pchan s k then (pstate s)(k := RUNNABLE) else pstate s),
                  wpcs := (wpcs s)(w := WScan (Suc k))\<rparr>)"
| w_done: "wpcs s w = WScan N \<Longrightarrow> slp_step N s (s\<lparr>lk_holder := None, wpcs := (wpcs s)(w := WIdle)\<rparr>)"

inductive_cases slp_stepE: "slp_step N s t"

definition slp_start :: "slp_sys \<Rightarrow> bool" where
  "slp_start s \<longleftrightarrow> \<not> cond s \<and> lk_holder s = None \<and> (\<forall>i. \<not> plock s i \<and> pstate s i = RUNNING \<and> \<not> pchan s i \<and> spcs s i = Enter) \<and>
     (\<forall>w. wpcs s w = WIdle)"

definition holds_lk :: "spc \<Rightarrow> bool" where
  "holds_lk p \<longleftrightarrow> p \<in> {Test, TakeP, DropLk, Past}"

definition holds_p :: "spc \<Rightarrow> bool" where
  "holds_p p \<longleftrightarrow> p \<in> {DropLk, Mark, Switch, Back}"

text \<open>
  The invariant: the lock is held by the thread whose counter says so; a process that was found to
  need sleep tested a false condition; and a process that is asleep, or about to be, while the
  condition holds has a waker still to come.
\<close>

definition asleep :: "slp_sys \<Rightarrow> nat \<Rightarrow> bool" where
  "asleep s i \<longleftrightarrow> spcs s i \<in> {Mark, Switch} \<or> spcs s i = Off \<and> pstate s i = SLEEPING"

definition lk_ok :: "slp_sys \<Rightarrow> bool" where
  "lk_ok s \<longleftrightarrow> (\<forall>i. holds_lk (spcs s i) \<longleftrightarrow> lk_holder s = Some (Inl i)) \<and> (\<forall>w. wpcs s w \<noteq> WIdle \<longleftrightarrow> lk_holder s = Some (Inr w))"

definition p_ok1 :: "bool \<Rightarrow> procstate \<Rightarrow> bool \<Rightarrow> spc \<Rightarrow> bool" where
  "p_ok1 l q ch pc \<longleftrightarrow> (l \<longleftrightarrow> holds_p pc) \<and>
     (case pc of Switch \<Rightarrow> q = SLEEPING \<and> ch | Off \<Rightarrow> (q = SLEEPING \<or> q = RUNNABLE) \<and> ch | _ \<Rightarrow> q = RUNNING)"

definition p_ok :: "slp_sys \<Rightarrow> bool" where
  "p_ok s \<longleftrightarrow> (\<forall>i. p_ok1 (plock s i) (pstate s i) (pchan s i) (spcs s i))"

definition wake_ok :: "nat \<Rightarrow> slp_sys \<Rightarrow> bool" where
  "wake_ok N s \<longleftrightarrow> (\<forall>i. spcs s i = TakeP \<or> spcs s i = DropLk \<longrightarrow> \<not> cond s) \<and>
     (\<forall>i < N. cond s \<longrightarrow> asleep s i \<longrightarrow> (\<exists>w k. wpcs s w = WScan k \<and> k \<le> i)) \<and>
     (\<forall>i \<ge> N. spcs s i = Enter)"

definition slp_inv :: "nat \<Rightarrow> slp_sys \<Rightarrow> bool" where
  "slp_inv N s \<longleftrightarrow> lk_ok s \<and> p_ok s \<and> wake_ok N s"

lemmas slp_defs = holds_lk_def holds_p_def asleep_def

lemma holds_lk_simps [simp]:
  "\<not> holds_lk Enter" "holds_lk Test" "holds_lk TakeP" "holds_lk DropLk" "\<not> holds_lk Mark"
  "\<not> holds_lk Switch" "\<not> holds_lk Off" "\<not> holds_lk Back" "\<not> holds_lk Retake" "holds_lk Past"
  by (simp_all add: holds_lk_def)

lemma lk_okD:
  assumes "lk_ok s"
  shows "holds_lk (spcs s i) \<longleftrightarrow> lk_holder s = Some (Inl i)" "wpcs s w \<noteq> WIdle \<longleftrightarrow> lk_holder s = Some (Inr w)"
  using assms unfolding lk_ok_def by blast+

lemma lk_ok_sleeper:
  assumes "lk_ok s" "holds_lk p \<longleftrightarrow> holds_lk (spcs s i)" "spcs t = (spcs s)(i := p)" "lk_holder t = lk_holder s" "wpcs t = wpcs s"
  shows "lk_ok t"
  using assms(2-) lk_okD [OF assms(1)] unfolding lk_ok_def by simp

lemma lk_ok_drop:
  assumes "lk_ok s" "holds_lk (spcs s i)" "\<not> holds_lk p" "spcs t = (spcs s)(i := p)" "lk_holder t = None" "wpcs t = wpcs s"
  shows "lk_ok t"
  using assms(2-) lk_okD [OF assms(1)] unfolding lk_ok_def by auto

lemma lk_ok_waker:
  assumes "lk_ok s" "wpcs s w \<noteq> WIdle" "p \<noteq> WIdle" "wpcs t = (wpcs s)(w := p)" "lk_holder t = lk_holder s" "spcs t = spcs s"
  shows "lk_ok t"
  using assms(2-) lk_okD [OF assms(1)] unfolding lk_ok_def by auto

lemma lk_ok_step:
  assumes ok: "lk_ok s" and step: "slp_step N s t"
  shows "lk_ok t"
  using step
proof (cases rule: slp_step.cases)
  case (s_enter i)
  then show ?thesis using lk_okD [OF ok] unfolding lk_ok_def by auto
next
  case (w_enter w)
  then show ?thesis using lk_okD [OF ok] unfolding lk_ok_def by auto
next
  case (w_done w)
  then have "lk_holder s = Some (Inr w)" using lk_okD(2) [OF ok, of w] by simp
  moreover then have "wpcs s v = WIdle" if "v \<noteq> w" for v using lk_okD(2) [OF ok, of v] that by auto
  ultimately show ?thesis using w_done lk_okD [OF ok] unfolding lk_ok_def by auto
next
  case (s_true i)
  then show ?thesis by (intro lk_ok_sleeper [OF ok, where i = i and p = Past]) simp_all
next
  case (s_false i)
  then show ?thesis by (intro lk_ok_sleeper [OF ok, where i = i and p = TakeP]) simp_all
next
  case (s_takep i)
  then show ?thesis by (intro lk_ok_sleeper [OF ok, where i = i and p = DropLk]) simp_all
next
  case (s_drop i)
  then show ?thesis by (intro lk_ok_drop [OF ok, where i = i and p = Mark]) simp_all
next
  case (s_mark i)
  then show ?thesis by (intro lk_ok_sleeper [OF ok, where i = i and p = Switch]) simp_all
next
  case (s_switch i)
  then show ?thesis by (intro lk_ok_sleeper [OF ok, where i = i and p = Off]) simp_all
next
  case (s_resume i)
  then show ?thesis by (intro lk_ok_sleeper [OF ok, where i = i and p = Back]) simp_all
next
  case (s_back i)
  then show ?thesis by (intro lk_ok_sleeper [OF ok, where i = i and p = Retake]) simp_all
next
  case (s_leave i)
  then show ?thesis by (intro lk_ok_drop [OF ok, where i = i and p = Enter]) simp_all
next
  case (s_leave_set i)
  then show ?thesis by (intro lk_ok_drop [OF ok, where i = i and p = Enter]) simp_all
next
  case (w_set w)
  then show ?thesis by (intro lk_ok_waker [OF ok, where w = w and p = "WScan 0"]) simp_all
next
  case (w_scan w k)
  then show ?thesis by (intro lk_ok_waker [OF ok, where w = w and p = "WScan (Suc k)"]) simp_all
qed

lemma p_okD: "p_ok s \<Longrightarrow> p_ok1 (plock s i) (pstate s i) (pchan s i) (spcs s i)"
  by (simp add: p_ok_def)

lemma p_ok_change:
  assumes "p_ok s" "p_ok1 (plock t i) (pstate t i) (pchan t i) (spcs t i)"
    "\<And>j. j \<noteq> i \<Longrightarrow> plock t j = plock s j \<and> pstate t j = pstate s j \<and> pchan t j = pchan s j \<and> spcs t j = spcs s j"
  shows "p_ok t"
  unfolding p_ok_def
proof
  fix j
  show "p_ok1 (plock t j) (pstate t j) (pchan t j) (spcs t j)"
    using assms(2,3) p_okD [OF assms(1), of j] by (cases "j = i") simp_all
qed

lemma p_ok_same:
  assumes "p_ok s" "plock t = plock s" "pstate t = pstate s" "pchan t = pchan s" "spcs t = spcs s"
  shows "p_ok t"
  using assms by (simp add: p_ok_def)

lemma p_ok_step:
  assumes ok: "p_ok s" and step: "slp_step N s t"
  shows "p_ok t"
  using step
proof (cases rule: slp_step.cases)
  case (s_enter i)
  then show ?thesis using p_okD [OF ok, of i] by (intro p_ok_change [OF ok, of t i]) (auto simp: p_ok1_def holds_p_def)
next
  case (s_true i)
  then show ?thesis using p_okD [OF ok, of i] by (intro p_ok_change [OF ok, of t i]) (auto simp: p_ok1_def holds_p_def)
next
  case (s_false i)
  then show ?thesis using p_okD [OF ok, of i] by (intro p_ok_change [OF ok, of t i]) (auto simp: p_ok1_def holds_p_def)
next
  case (s_takep i)
  then show ?thesis using p_okD [OF ok, of i] by (intro p_ok_change [OF ok, of t i]) (auto simp: p_ok1_def holds_p_def)
next
  case (s_drop i)
  then show ?thesis using p_okD [OF ok, of i] by (intro p_ok_change [OF ok, of t i]) (auto simp: p_ok1_def holds_p_def)
next
  case (s_mark i)
  then show ?thesis using p_okD [OF ok, of i] by (intro p_ok_change [OF ok, of t i]) (auto simp: p_ok1_def holds_p_def)
next
  case (s_switch i)
  then show ?thesis using p_okD [OF ok, of i] by (intro p_ok_change [OF ok, of t i]) (auto simp: p_ok1_def holds_p_def)
next
  case (s_resume i)
  then show ?thesis using p_okD [OF ok, of i] by (intro p_ok_change [OF ok, of t i]) (auto simp: p_ok1_def holds_p_def)
next
  case (s_back i)
  then show ?thesis using p_okD [OF ok, of i] by (intro p_ok_change [OF ok, of t i]) (auto simp: p_ok1_def holds_p_def)
next
  case (s_leave i)
  then show ?thesis using p_okD [OF ok, of i] by (intro p_ok_change [OF ok, of t i]) (auto simp: p_ok1_def holds_p_def)
next
  case (s_leave_set i)
  then show ?thesis using p_okD [OF ok, of i] by (intro p_ok_change [OF ok, of t i]) (auto simp: p_ok1_def holds_p_def)
next
  case (w_scan w k)
  then show ?thesis using p_okD [OF ok, of k]
    by (intro p_ok_change [OF ok, of t k]) (auto simp: p_ok1_def holds_p_def split: spc.splits)
qed (simp_all add: p_ok_same [OF ok])
lemma wake_okD:
  assumes "wake_ok N s"
  shows "spcs s i = TakeP \<or> spcs s i = DropLk \<Longrightarrow> \<not> cond s"
    "i < N \<Longrightarrow> cond s \<Longrightarrow> asleep s i \<Longrightarrow> \<exists>w k. wpcs s w = WScan k \<and> k \<le> i"
    "N \<le> i \<Longrightarrow> spcs s i = Enter"
  using assms unfolding wake_ok_def by blast+

lemma wake_ok_sleeper:
  assumes ok: "wake_ok N s" and i: "i < N" and "spcs t = (spcs s)(i := p)" "wpcs t = wpcs s" "cond t \<longrightarrow> cond s"
    and p: "p = TakeP \<or> p = DropLk \<Longrightarrow> \<not> cond t"
    and same: "\<And>j. j \<noteq> i \<Longrightarrow> pstate t j = pstate s j" and a: "cond t \<Longrightarrow> asleep t i \<Longrightarrow> asleep s i"
  shows "wake_ok N t"
proof -
  have "asleep s j" if "cond t" "asleep t j" for j
    using that a assms(3) same by (cases "j = i") (auto simp: asleep_def)
  then have "\<exists>w k. wpcs t w = WScan k \<and> k \<le> j" if "j < N" "cond t" "asleep t j" for j
    using wake_okD(2) [OF ok] that assms(4,5) by simp
  moreover have "\<not> cond t" if "spcs t j = TakeP \<or> spcs t j = DropLk" for j
    using wake_okD(1) [OF ok, of j] that assms(3,5) p by (cases "j = i") auto
  moreover have "spcs t j = Enter" if "N \<le> j" for j
    using wake_okD(3) [OF ok that] i that assms(3) by simp
  ultimately show ?thesis unfolding wake_ok_def by blast
qed

lemma wake_ok_step:
  assumes lk: "lk_ok s" and p: "p_ok s" and ok: "wake_ok N s" and step: "slp_step N s t"
  shows "wake_ok N t"
  using step
proof (cases rule: slp_step.cases)
  case (w_enter w)
  then have "wpcs t v = WScan k" if "wpcs s v = WScan k" for v k using that by auto
  moreover have "asleep t i = asleep s i" "cond t = cond s" "spcs t i = spcs s i" for i
    using w_enter(1) by (simp_all add: asleep_def)
  ultimately show ?thesis using ok unfolding wake_ok_def by metis
next
  case (w_set w)
  then have "lk_holder s = Some (Inr w)" using lk_okD(2) [OF lk, of w] by simp
  then have "\<not> holds_lk (spcs s i)" for i using lk_okD(1) [OF lk] by simp
  then have "spcs s i \<noteq> TakeP" "spcs s i \<noteq> DropLk" for i by (metis holds_lk_simps)+
  then show ?thesis using w_set wake_okD(3) [OF ok] unfolding wake_ok_def by auto
next
  case (w_scan w k)
  have awake: "\<not> asleep t k"
    using w_scan p_okD [OF p, of k] by (auto simp: asleep_def p_ok1_def holds_p_def)
  have same: "asleep s i" if "asleep t i" for i
    using that w_scan(1) by (auto simp: asleep_def split: if_splits)
  have one: "v = w" if "wpcs s v = WScan j" for v j
    using that w_scan(2) lk_okD(2) [OF lk, of v] lk_okD(2) [OF lk, of w] by simp
  have "\<exists>v j. wpcs t v = WScan j \<and> j \<le> i" if i: "i < N" "cond t" "asleep t i" for i
  proof -
    have "cond s" using i(2) w_scan(1) by simp
    then obtain v j where "wpcs s v = WScan j" "j \<le> i"
      using wake_okD(2) [OF ok i(1)] same [OF i(3)] by blast
    then have "k \<le> i" using one w_scan(2) by fastforce
    then have "Suc k \<le> i" using awake i(3) by (metis le_neq_implies_less Suc_leI)
    moreover have "wpcs t w = WScan (Suc k)" using w_scan(1) by simp
    ultimately show ?thesis by blast
  qed
  then show ?thesis using w_scan(1) wake_okD(1,3) [OF ok] unfolding wake_ok_def by auto
next
  case (w_done w)
  have one: "v = w" if "wpcs s v = WScan j" for v j
    using that w_done(2) lk_okD(2) [OF lk, of v] lk_okD(2) [OF lk, of w] by simp
  have "\<not> (cond s \<and> asleep s i)" if "i < N" for i
    using wake_okD(2) [OF ok that] one w_done(2) that by fastforce
  then show ?thesis using w_done(1) wake_okD(1,3) [OF ok] unfolding wake_ok_def asleep_def by auto
next
  case (s_enter i)
  then show ?thesis
    by (intro wake_ok_sleeper [OF ok, where i = i and p = Test]) (auto simp: asleep_def)
next
  case (s_true i)
  then show ?thesis
    by (intro wake_ok_sleeper [OF ok, where i = i and p = Past]) (auto simp: asleep_def)
next
  case (s_false i)
  then show ?thesis
    by (intro wake_ok_sleeper [OF ok, where i = i and p = TakeP]) (auto simp: asleep_def)
next
  case (s_takep i)
  then show ?thesis using wake_okD(1) [OF ok, of i]
    by (intro wake_ok_sleeper [OF ok, where i = i and p = DropLk]) (auto simp: asleep_def)
next
  case (s_drop i)
  then show ?thesis using wake_okD(1) [OF ok, of i]
    by (intro wake_ok_sleeper [OF ok, where i = i and p = Mark]) (auto simp: asleep_def)
next
  case (s_mark i)
  then show ?thesis
    by (intro wake_ok_sleeper [OF ok, where i = i and p = Switch]) (auto simp: asleep_def)
next
  case (s_switch i)
  then show ?thesis
    by (intro wake_ok_sleeper [OF ok, where i = i and p = Off]) (auto simp: asleep_def)
next
  case (s_resume i)
  then show ?thesis
    by (intro wake_ok_sleeper [OF ok, where i = i and p = Back]) (auto simp: asleep_def)
next
  case (s_back i)
  then show ?thesis
    by (intro wake_ok_sleeper [OF ok, where i = i and p = Retake]) (auto simp: asleep_def)
next
  case (s_leave i)
  then show ?thesis
    by (intro wake_ok_sleeper [OF ok, where i = i and p = Enter]) (auto simp: asleep_def)
next
  case (s_leave_set i)
  then show ?thesis
    by (intro wake_ok_sleeper [OF ok, where i = i and p = Enter]) (auto simp: asleep_def)
qed

lemma slp_inv_step: "slp_inv N s \<Longrightarrow> slp_step N s t \<Longrightarrow> slp_inv N t"
  unfolding slp_inv_def using lk_ok_step p_ok_step wake_ok_step by blast

interpretation slp: invariant_system slp_start "slp_step N" "slp_inv N" for N
proof
  show "slp_start s \<Longrightarrow> slp_inv N s" for s
    by (auto simp: slp_start_def slp_inv_def lk_ok_def p_ok_def p_ok1_def wake_ok_def asleep_def holds_p_def)
qed (rule slp_inv_step)

subsection \<open>Properties\<close>



text \<open>Property C18: no wakeup is lost. Whenever the condition holds and no thread is between setting it
  and the end of its \<^verbatim>\<open>wakeup\<close>, no process is asleep on the channel or on its way to sleep there;
  however the steps of the sleepers and of the wakers interleave.\<close>

theorem no_lost_wakeup:
  assumes "slp_start s" and "(slp_step N)\<^sup>*\<^sup>* s t" and "cond t" and "lk_holder t = None" and "i < N"
  shows "\<not> asleep t i \<and> spcs t i \<notin> {TakeP, DropLk}"
proof -
  have inv: "slp_inv N t" by (rule slp.reachable_inv [OF assms(1,2)])
  then have lk: "lk_ok t" and ok: "wake_ok N t" by (simp_all add: slp_inv_def)
  have "wpcs t w = WIdle" for w using lk_okD(2) [OF lk, of w] assms(4) by simp
  then show ?thesis using wake_okD(1,2) [OF ok, of i] assms(3,5) by (metis insertE singletonD wpc.distinct(3))
qed

text \<open>One sleeper and one waker, with every other thread at its start.\<close>

definition two_threads :: "bool \<Rightarrow> (nat + nat) option \<Rightarrow> bool \<Rightarrow> procstate \<Rightarrow> bool \<Rightarrow> spc \<Rightarrow> wpc \<Rightarrow> slp_sys" where
  "two_threads c l pl q ch pc wp =
     \<lparr>cond = c, lk_holder = l, plock = (\<lambda>_. False)(0 := pl), pstate = (\<lambda>_. RUNNING)(0 := q), pchan = (\<lambda>_. False)(0 := ch),
      spcs = (\<lambda>_. Enter)(0 := pc), wpcs = (\<lambda>_. WIdle)(0 := wp)\<rparr>"

theorem no_lost_wakeup_witness:
  "let s = two_threads False None False RUNNING False Enter WIdle; t = two_threads True None False RUNNABLE True Off WIdle
   in slp_start s \<and> (slp_step 1)\<^sup>*\<^sup>* s t \<and> cond t \<and> lk_holder t = None \<and> \<not> asleep t 0"
proof -
  let ?step = "\<lambda>s t. slp_step 1 s t"
  note [simp] = two_threads_def
  have r0: "?step (two_threads False None False RUNNING False Enter WIdle) (two_threads False (Some (Inl 0)) False RUNNING False Test WIdle)"
    using s_enter [of 0 1 "two_threads False None False RUNNING False Enter WIdle"] by simp
  have r1: "?step (two_threads False (Some (Inl 0)) False RUNNING False Test WIdle) (two_threads False (Some (Inl 0)) False RUNNING False TakeP WIdle)"
    using s_false [of 0 1 "two_threads False (Some (Inl 0)) False RUNNING False Test WIdle"] by simp
  have r2: "?step (two_threads False (Some (Inl 0)) False RUNNING False TakeP WIdle) (two_threads False (Some (Inl 0)) True RUNNING False DropLk WIdle)"
    using s_takep [of 0 1 "two_threads False (Some (Inl 0)) False RUNNING False TakeP WIdle"] by simp
  have r3: "?step (two_threads False (Some (Inl 0)) True RUNNING False DropLk WIdle) (two_threads False None True RUNNING False Mark WIdle)"
    using s_drop [of 0 1 "two_threads False (Some (Inl 0)) True RUNNING False DropLk WIdle"] by simp
  have r4: "?step (two_threads False None True RUNNING False Mark WIdle) (two_threads False None True SLEEPING True Switch WIdle)"
    using s_mark [of 0 1 "two_threads False None True RUNNING False Mark WIdle"] by simp
  have r5: "?step (two_threads False None True SLEEPING True Switch WIdle) (two_threads False None False SLEEPING True Off WIdle)"
    using s_switch [of 0 1 "two_threads False None True SLEEPING True Switch WIdle"] by simp
  have r6: "?step (two_threads False None False SLEEPING True Off WIdle) (two_threads False (Some (Inr 0)) False SLEEPING True Off WHold)"
    using w_enter [of "two_threads False None False SLEEPING True Off WIdle" 0 1] by simp
  have r7: "?step (two_threads False (Some (Inr 0)) False SLEEPING True Off WHold) (two_threads True (Some (Inr 0)) False SLEEPING True Off (WScan 0))"
    using w_set [of "two_threads False (Some (Inr 0)) False SLEEPING True Off WHold" 0 1] by simp
  have r8: "?step (two_threads True (Some (Inr 0)) False SLEEPING True Off (WScan 0)) (two_threads True (Some (Inr 0)) False RUNNABLE True Off (WScan 1))"
    using w_scan [of "two_threads True (Some (Inr 0)) False SLEEPING True Off (WScan 0)" 0 0 1] by simp
  have r9: "?step (two_threads True (Some (Inr 0)) False RUNNABLE True Off (WScan 1)) (two_threads True None False RUNNABLE True Off WIdle)"
    using w_done [of "two_threads True (Some (Inr 0)) False RUNNABLE True Off (WScan 1)" 0 1] by simp
  let ?s = "two_threads False None False RUNNING False Enter WIdle" and ?t = "two_threads True None False RUNNABLE True Off WIdle"
  have run: "(slp_step 1)\<^sup>*\<^sup>* ?s ?t"
    using r0 r1 r2 r3 r4 r5 r6 r7 r8 r9 by (meson converse_rtranclp_into_rtranclp rtranclp.rtrancl_refl)
  have s: "slp_start ?s" by (simp add: slp_start_def)
  show ?thesis unfolding Let_def using no_lost_wakeup [OF s run, of 0] s run by simp
qed

end
