(* ===== verification/Frame.thy ===== *)
theory Frame
  imports Fs
begin

section \<open>What the file system leaves alone\<close>

text \<open>
  \<open>ensures P m\<close> says that the operation \<open>m\<close>, if it returns, returns a result and a state with \<open>P\<close>.

  The operations of the lower layers change only the fields of their own part of the state. An
  observation \<open>g\<close> of the state that does not look at these fields is the same after each of them. The
  laws of such an observation are the assumptions of a locale; the processes, open files and pipes
  are one.
\<close>

definition ensures :: "('b \<Rightarrow> 's \<Rightarrow> bool) \<Rightarrow> ('s, 'b) res \<Rightarrow> bool" where
  "ensures P m \<longleftrightarrow> (\<forall>r t. m = Ok r t \<longrightarrow> P r t)"

definition keeps :: "('s \<Rightarrow> 'o) \<Rightarrow> 'o \<Rightarrow> ('s, 'b) res \<Rightarrow> bool" where
  "keeps g v m \<longleftrightarrow> ensures (\<lambda>_ t. g t = v) m"

lemma ensures_simps [simp]:
  "ensures P (Ok r t) \<longleftrightarrow> P r t" "ensures P (Sleep c t)" "ensures P (Panic m)" "ensures P Diverge"
  by (simp_all add: ensures_def)

lemma ensuresD: "ensures P m \<Longrightarrow> m = Ok r t \<Longrightarrow> P r t"
  by (simp add: ensures_def)

lemma ensures_bind: "ensures Q m \<Longrightarrow> (\<And>r t. Q r t \<Longrightarrow> ensures P (f r t)) \<Longrightarrow> ensures P (kbind m f)"
  by (cases m) simp_all

lemma ensures_mono: "ensures Q m \<Longrightarrow> (\<And>r t. Q r t \<Longrightarrow> P r t) \<Longrightarrow> ensures P m"
  by (simp add: ensures_def)

lemma ensures_case_option:
  "(x = None \<Longrightarrow> ensures P a) \<Longrightarrow> (\<And>y. x = Some y \<Longrightarrow> ensures P (b y)) \<Longrightarrow> ensures P (case x of None \<Rightarrow> a | Some y \<Rightarrow> b y)"
  by (cases x) simp_all

lemma ensures_case_prod: "(\<And>a b. x = (a, b) \<Longrightarrow> ensures P (f a b)) \<Longrightarrow> ensures P (case x of (a, b) \<Rightarrow> f a b)"
  by (cases x) simp

lemma ensures_case_prod_app: "(\<And>a b. x = (a, b) \<Longrightarrow> ensures P (f a b t)) \<Longrightarrow> ensures P ((case x of (a, b) \<Rightarrow> f a b) t)"
  by (cases x) simp

lemma ensures_if: "(c \<Longrightarrow> ensures P a) \<Longrightarrow> (\<not> c \<Longrightarrow> ensures P b) \<Longrightarrow> ensures P (if c then a else b)"
  by simp

lemma ensures_let: "ensures P (f x) \<Longrightarrow> ensures P (let y = x in f y)"
  by simp

lemmas ensures_intros = ensures_case_option ensures_case_prod ensures_case_prod_app ensures_if ensures_let

lemma keeps_simps [simp]:
  "keeps g v (Ok r t) \<longleftrightarrow> g t = v" "keeps g v (Sleep c t)" "keeps g v (Panic m)" "keeps g v Diverge"
  by (simp_all add: keeps_def)

lemma keepsD: "keeps g v m \<Longrightarrow> m = Ok r t \<Longrightarrow> g t = v"
  by (simp add: keeps_def ensures_def)

lemma keeps_bind: "keeps g v m \<Longrightarrow> (\<And>r t. g t = v \<Longrightarrow> keeps g v (f r t)) \<Longrightarrow> keeps g v (kbind m f)"
  by (cases m) simp_all

lemma ensures_keeps_bind: "keeps g v m \<Longrightarrow> (\<And>r t. g t = v \<Longrightarrow> ensures P (f r t)) \<Longrightarrow> ensures P (kbind m f)"
  by (cases m) simp_all

lemma keeps_case_option:
  "(x = None \<Longrightarrow> keeps g v a) \<Longrightarrow> (\<And>y. x = Some y \<Longrightarrow> keeps g v (b y)) \<Longrightarrow> keeps g v (case x of None \<Rightarrow> a | Some y \<Rightarrow> b y)"
  by (cases x) simp_all

lemma keeps_case_prod: "(\<And>a b. x = (a, b) \<Longrightarrow> keeps g v (f a b)) \<Longrightarrow> keeps g v (case x of (a, b) \<Rightarrow> f a b)"
  by (cases x) simp

lemma keeps_case_prod_app: "(\<And>a b. x = (a, b) \<Longrightarrow> keeps g v (f a b t)) \<Longrightarrow> keeps g v ((case x of (a, b) \<Rightarrow> f a b) t)"
  by (cases x) simp

lemma keeps_if: "(c \<Longrightarrow> keeps g v a) \<Longrightarrow> (\<not> c \<Longrightarrow> keeps g v b) \<Longrightarrow> keeps g v (if c then a else b)"
  by simp

lemma keeps_let: "keeps g v (f x) \<Longrightarrow> keeps g v (let y = x in f y)"
  by simp

lemma keeps_part:
  "(\<And>k s. g (put k s) = g s) \<Longrightarrow> g s = v \<Longrightarrow> keeps g v (on_part get put f s)"
  by (simp add: on_part_def split: res.split)

lemmas keeps_intros = keeps_bind keeps_case_option keeps_case_prod keeps_case_prod_app keeps_if keeps_let

locale cache_frame =
  fixes g :: "'a fsst_scheme \<Rightarrow> 'o"
  assumes cache [simp]: "g (s\<lparr>bufs := b\<rparr>) = g s" "g (s\<lparr>lru := l\<rparr>) = g s" "g (s\<lparr>img := i\<rparr>) = g s"
      "g (s\<lparr>dwrites := d\<rparr>) = g s" "g (s\<lparr>woken := w\<rparr>) = g s"
    and log [simp]: "g (s\<lparr>lstart := a\<rparr>) = g s" "g (s\<lparr>outstanding := x\<rparr>) = g s" "g (s\<lparr>committing := c\<rparr>) = g s"
      "g (s\<lparr>ldev := e\<rparr>) = g s" "g (s\<lparr>lh_n := n\<rparr>) = g s" "g (s\<lparr>lh_block := bl\<rparr>) = g s"
begin

lemma upd_cache [simp]:
  "g (upd_buf i f s) = g s" "g (set_data i d s) = g s" "g (bpin i s) = g s" "g (bunpin i s) = g s"
  by (simp_all add: upd_buf_def set_data_def bpin_def bunpin_def)

lemma ramdisk_rw_keeps: "g s = v \<Longrightarrow> keeps g v (ramdisk_rw pid i w s)"
  by (simp add: ramdisk_rw_def Let_def)

lemma lock_buf_keeps: "g s = v \<Longrightarrow> keeps g v (lock_buf pid i s)"
  by (simp add: lock_buf_def split: res.split)

lemma bget_keeps: "g s = v \<Longrightarrow> keeps g v (bget pid dev bn s)"
  unfolding bget_def by (intro keeps_intros lock_buf_keeps) simp_all

lemma bread_keeps: "g s = v \<Longrightarrow> keeps g v (bread pid dev bn s)"
  unfolding bread_def by (intro keeps_intros bget_keeps ramdisk_rw_keeps) simp_all

lemma bwrite_keeps: "g s = v \<Longrightarrow> keeps g v (bwrite pid i s)"
  unfolding bwrite_def by (intro keeps_intros ramdisk_rw_keeps) simp_all

lemma brelse_keeps: "g s = v \<Longrightarrow> keeps g v (brelse pid i s)"
  by (simp add: brelse_def Let_def)

lemmas cache_keeps = bread_keeps bwrite_keeps brelse_keeps

lemma read_head_keeps: "g s = v \<Longrightarrow> keeps g v (read_head pid s)"
  unfolding read_head_def by (intro keeps_intros cache_keeps) simp_all

lemma write_head_keeps: "g s = v \<Longrightarrow> keeps g v (write_head pid s)"
  unfolding write_head_def by (intro keeps_intros cache_keeps) simp_all

lemma install_loop_keeps: "g s = v \<Longrightarrow> keeps g v (install_loop pid r tail k s)"
proof (induction k arbitrary: tail s)
  case (Suc k)
  show ?case unfolding install_loop.simps by (intro keeps_intros cache_keeps Suc.IH) (simp_all add: Suc.prems)
qed simp

lemma write_log_loop_keeps: "g s = v \<Longrightarrow> keeps g v (write_log_loop pid tail k s)"
proof (induction k arbitrary: tail s)
  case (Suc k)
  show ?case unfolding write_log_loop.simps by (intro keeps_intros cache_keeps Suc.IH) (simp_all add: Suc.prems)
qed simp

lemma commit_keeps: "g s = v \<Longrightarrow> keeps g v (commit pid s)"
  unfolding commit_def write_log_def install_trans_def
  by (intro keeps_intros write_head_keeps write_log_loop_keeps install_loop_keeps) simp_all

lemma initlog_keeps: "g s = v \<Longrightarrow> keeps g v (initlog pid dev st s)"
  unfolding initlog_def recover_from_log_def install_trans_def
  by (intro keeps_intros write_head_keeps read_head_keeps install_loop_keeps) simp_all

lemma begin_op_keeps: "g s = v \<Longrightarrow> keeps g v (begin_op s)"
  by (simp add: begin_op_def)

lemma end_op_keeps: "g s = v \<Longrightarrow> keeps g v (end_op pid s)"
  unfolding end_op_def by (intro keeps_intros commit_keeps) simp_all

lemma log_write_keeps: "g s = v \<Longrightarrow> keeps g v (log_write b s)"
  by (simp add: log_write_def Let_def)

lemmas log_keeps = begin_op_keeps end_op_keeps log_write_keeps

lemma bzero_keeps: "g s = v \<Longrightarrow> keeps g v (bzero pid dev bno s)"
  unfolding bzero_def by (intro keeps_intros cache_keeps log_keeps) simp_all

lemma balloc_loop_keeps: "g s = v \<Longrightarrow> keeps g v (balloc_loop pid dev n b s)"
proof (induction "n - b" arbitrary: b s rule: less_induct)
  case less
  show ?case
    by (subst balloc_loop.simps) (intro keeps_intros cache_keeps log_keeps bzero_keeps less.hyps; simp add: less.prems BPB_def BSIZE_def)
qed

lemma balloc_keeps: "g s = v \<Longrightarrow> keeps g v (balloc pid dev s)"
  unfolding balloc_def by (intro keeps_intros balloc_loop_keeps; simp)

lemma bfree_keeps: "g s = v \<Longrightarrow> keeps g v (bfree pid dev b s)"
  unfolding bfree_def by (intro keeps_intros cache_keeps log_keeps; simp)

lemmas block_keeps = cache_keeps log_keeps bzero_keeps balloc_keeps bfree_keeps

end

text \<open>An observation that may look at the identity and the reference count of an inode, but not at its contents.\<close>

locale inode_frame = cache_frame +
  assumes sb_km [simp]: "g (s\<lparr>sb := p\<rparr>) = g s" "g (s\<lparr>km := k\<rparr>) = g s"
    and inode: "(\<And>ip. i_dev (h ip) = i_dev ip \<and> i_inum (h ip) = i_inum ip \<and> i_ref (h ip) = i_ref ip) \<Longrightarrow> g (upd_inode i h s) = g s"
begin

lemma upd_contents [simp]:
  "g (upd_inode i (\<lambda>ip. ip\<lparr>i_lock := l ip\<rparr>) s) = g s" "g (upd_inode i (\<lambda>ip. ip\<lparr>i_valid := b\<rparr>) s) = g s"
  "g (upd_inode i (get_dinode d off) s) = g s" "g (upd_inode i (\<lambda>ip. ip\<lparr>i_addrs := as ip\<rparr>) s) = g s"
  "g (upd_inode i (\<lambda>ip. ip\<lparr>i_size := n\<rparr>) s) = g s" "g (upd_inode i (\<lambda>ip. ip\<lparr>i_type := ty\<rparr>) s) = g s" "g (unlock_inode i s) = g s"
  by (simp_all add: inode get_dinode_def unlock_inode_def)

lemma on_km_keeps: "g s = v \<Longrightarrow> keeps g v (on_part km (\<lambda>k s. s\<lparr>km := k\<rparr>) f s)"
  by (rule keeps_part) simp_all

lemma iupdate_keeps: "g s = v \<Longrightarrow> keeps g v (iupdate pid i s)"
  unfolding iupdate_def by (intro keeps_intros block_keeps; simp)

lemma lock_inode_keeps: "g s = v \<Longrightarrow> keeps g v (lock_inode pid i s)"
  by (simp add: lock_inode_def split: res.split)

lemma ilock_keeps: "g s = v \<Longrightarrow> keeps g v (ilock pid i s)"
  unfolding ilock_def by (intro keeps_intros block_keeps lock_inode_keeps; simp)

lemma iunlock_keeps: "g s = v \<Longrightarrow> keeps g v (iunlock pid i s)"
  by (simp add: iunlock_def)

lemma trunc_direct_keeps: "g s = v \<Longrightarrow> keeps g v (trunc_direct pid i k c s)"
proof (induction c arbitrary: k s)
  case (Suc c)
  show ?case unfolding trunc_direct.simps by (intro keeps_intros block_keeps Suc.IH; simp add: Suc.prems)
qed simp

lemma trunc_indirect_keeps: "g s = v \<Longrightarrow> keeps g v (trunc_indirect pid i bp j c s)"
proof (induction c arbitrary: j s)
  case (Suc c)
  show ?case unfolding trunc_indirect.simps by (intro keeps_intros block_keeps Suc.IH; simp add: Suc.prems)
qed simp

lemma itrunc_keeps: "g s = v \<Longrightarrow> keeps g v (itrunc pid i s)"
  unfolding itrunc_def by (intro keeps_intros block_keeps trunc_direct_keeps trunc_indirect_keeps iupdate_keeps; simp)

lemma bmap_keeps: "g s = v \<Longrightarrow> keeps g v (bmap pid i bn s)"
  unfolding bmap_def by (intro keeps_intros block_keeps; simp)

lemma copy_to_keeps: "g s = v \<Longrightarrow> keeps g v (copy_to p d tot bs s)"
  by (cases d) (simp_all add: copy_to_def on_km_keeps)

lemma copy_from_keeps: "g s = v \<Longrightarrow> keeps g v (copy_from p d tot m s)"
  by (cases d) (simp_all add: copy_from_def on_km_keeps)

lemma readi_loop_keeps: "g s = v \<Longrightarrow> keeps g v (readi_loop p i d off n tot acc s)"
proof (induction "n - tot" arbitrary: off tot acc s rule: less_induct)
  case less
  show ?case
    by (subst readi_loop.simps) (intro keeps_intros block_keeps bmap_keeps copy_to_keeps less.hyps; simp add: less.prems BSIZE_def)
qed

lemma readi_keeps: "g s = v \<Longrightarrow> keeps g v (readi p i d off n s)"
  unfolding readi_def by (intro keeps_intros readi_loop_keeps; simp)

lemma writei_loop_keeps: "g s = v \<Longrightarrow> keeps g v (writei_loop p i d off n tot s)"
proof (induction "n - tot" arbitrary: off tot s rule: less_induct)
  case less
  show ?case
    by (subst writei_loop.simps) (intro keeps_intros block_keeps bmap_keeps copy_from_keeps less.hyps; simp add: less.prems BSIZE_def)
qed

lemma writei_keeps: "g s = v \<Longrightarrow> keeps g v (writei p i d off n s)"
  unfolding writei_def by (intro keeps_intros writei_loop_keeps iupdate_keeps; simp)

end

locale fs_frame = cache_frame +
  assumes fs [simp]: "g (s\<lparr>sb := p\<rparr>) = g s" "g (s\<lparr>itable := t\<rparr>) = g s" "g (s\<lparr>km := k\<rparr>) = g s"
begin

lemma upd [simp]: "g (upd_inode i h s) = g s"
  by (simp add: upd_inode_def)

end

sublocale fs_frame \<subseteq> inode_frame
  by unfold_locales simp_all

context fs_frame begin

lemma iget_keeps: "g s = v \<Longrightarrow> keeps g v (iget dev inum s)"
  unfolding iget_def by (intro keeps_intros; simp)

lemma ialloc_loop_keeps: "g s = v \<Longrightarrow> keeps g v (ialloc_loop pid dev ty n inum s)"
proof (induction "n - inum" arbitrary: inum s rule: less_induct)
  case less
  show ?case
    by (subst ialloc_loop.simps) (intro keeps_intros block_keeps iget_keeps less.hyps; simp add: less.prems)
qed

lemma ialloc_keeps: "g s = v \<Longrightarrow> keeps g v (ialloc pid dev ty s)"
  unfolding ialloc_def by (intro keeps_intros ialloc_loop_keeps; simp)

lemma idup_keeps: "g s = v \<Longrightarrow> keeps g v (idup i s)"
  by (simp add: idup_def)

lemma iput_keeps: "g s = v \<Longrightarrow> keeps g v (iput pid i s)"
  unfolding iput_def by (intro keeps_intros lock_inode_keeps itrunc_keeps iupdate_keeps; simp)

lemma iunlockput_keeps: "g s = v \<Longrightarrow> keeps g v (iunlockput pid i s)"
  unfolding iunlockput_def by (intro keeps_intros iunlock_keeps iput_keeps; simp)

lemmas inode_keeps = iget_keeps ialloc_keeps iupdate_keeps idup_keeps ilock_keeps iunlock_keeps itrunc_keeps iput_keeps iunlockput_keeps

lemma ireclaim_loop_keeps: "g s = v \<Longrightarrow> keeps g v (ireclaim_loop pid dev n inum s)"
proof (induction "n - inum" arbitrary: inum s rule: less_induct)
  case less
  show ?case
    by (subst ireclaim_loop.simps) (intro keeps_intros block_keeps inode_keeps less.hyps; simp add: less.prems)
qed

lemma fsinit_keeps: "g s = v \<Longrightarrow> keeps g v (fsinit pid dev s)"
  unfolding fsinit_def readsb_def ireclaim_def by (intro keeps_intros block_keeps initlog_keeps ireclaim_loop_keeps; simp)

lemma dirlookup_loop_keeps: "g s = v \<Longrightarrow> keeps g v (dirlookup_loop p dp name sz off s)"
proof (induction "sz - off" arbitrary: off s rule: less_induct)
  case less
  show ?case
    by (subst dirlookup_loop.simps) (intro keeps_intros readi_keeps iget_keeps less.hyps; simp add: less.prems)
qed

lemma dirlookup_keeps: "g s = v \<Longrightarrow> keeps g v (dirlookup p dp name s)"
  unfolding dirlookup_def by (intro keeps_intros dirlookup_loop_keeps; simp)

lemma empty_dirent_keeps: "g s = v \<Longrightarrow> keeps g v (empty_dirent p dp sz off de s)"
proof (induction "sz - off" arbitrary: off de s rule: less_induct)
  case less
  show ?case
    by (subst empty_dirent.simps) (intro keeps_intros readi_keeps less.hyps; simp add: less.prems)
qed

lemma dirlink_keeps: "g s = v \<Longrightarrow> keeps g v (dirlink p de0 dp name inum s)"
  unfolding dirlink_def by (intro keeps_intros dirlookup_keeps empty_dirent_keeps writei_keeps iput_keeps; simp)

lemma namex_loop_keeps: "g s = v \<Longrightarrow> keeps g v (namex_loop p path np name ip s)"
proof (induction "length path" arbitrary: path name ip s rule: less_induct)
  case less
  show ?case
    by (subst namex_loop.simps) (intro keeps_intros inode_keeps dirlookup_keeps less.hyps; simp add: less.prems skipelem_shorter)
qed

lemma namex_keeps: "g s = v \<Longrightarrow> keeps g v (namex p cwd path np name s)"
  unfolding namex_def by (intro keeps_intros inode_keeps namex_loop_keeps; simp)

lemma namei_keeps: "g s = v \<Longrightarrow> keeps g v (namei p cwd name0 path s)"
  unfolding namei_def by (intro keeps_intros namex_keeps; simp)

lemma nameiparent_keeps: "g s = v \<Longrightarrow> keeps g v (nameiparent p cwd path name s)"
  unfolding nameiparent_def by (intro keeps_intros namex_keeps; simp)

lemmas fs_keeps = log_keeps inode_keeps readi_keeps writei_keeps dirlookup_keeps dirlink_keeps namei_keeps nameiparent_keeps
  ialloc_keeps on_km_keeps fsinit_keeps

end

end
