(* ===== verification/Exec.thy ===== *)
theory Exec
  imports File
begin

section \<open>Creating, replacing and ending processes\<close>

text \<open>
  The rest of \<^verbatim>\<open>kernel/proc.c\<close> (\<^verbatim>\<open>kfork\<close>, \<^verbatim>\<open>kexit\<close>, \<^verbatim>\<open>userinit\<close>, \<^verbatim>\<open>prepare_return\<close>, \<^verbatim>\<open>forkret\<close>) and
  \<^verbatim>\<open>kernel/exec.c\<close>. Uninitialised local arrays that the code passes on (\<^verbatim>\<open>name\<close> in \<^verbatim>\<open>namei\<close>) are the
  argument \<open>name0\<close>.
\<close>

subsection \<open>Fork\<close>

fun dup_files :: "nat \<Rightarrow> nat \<Rightarrow> nat \<Rightarrow> nat \<Rightarrow> 'a filest_scheme \<Rightarrow> ('a filest_scheme, unit) res" where
  "dup_files me np i 0 s = Ok () s"
| "dup_files me np i (Suc k) s =
     (case p_ofile (procs s ! me) ! i of
        None \<Rightarrow> dup_files me np (Suc i) k s
      | Some f \<Rightarrow> kbind (filedup f s) (\<lambda>f s.
          dup_files me np (Suc i) k (upd_proc np (\<lambda>p. p\<lparr>p_ofile := (p_ofile p)[i := Some f]\<rparr>) s)))"

text \<open>A null \<^verbatim>\<open>cwd\<close> would be dereferenced.\<close>

definition kfork :: "nat \<Rightarrow> 'a filest_scheme \<Rightarrow> ('a filest_scheme, int) res" where
  "kfork me s =
     kbind (allocproc s) (\<lambda>r s.
       case r of
         None \<Rightarrow> Ok (-1) s
       | Some np \<Rightarrow>
           let p = procs s ! me
           in kbind (on_km (uvmcopy (p_pagetable p) (p_pagetable (procs s ! np)) (p_sz p)) s) (\<lambda>r s.
              if r < 0 then kbind (freeproc np s) (\<lambda>_ s. Ok (-1) s)
              else
                let s = upd_proc np (\<lambda>q. q\<lparr>p_sz := p_sz p\<rparr>) s;
                    s = s\<lparr>km := (km s)\<lparr>mem := memmove (mem (km s)) (p_trapframe (procs s ! np)) (p_trapframe p) (of_nat TF_SIZE)\<rparr>\<rparr>;
                    s = tf_put np TF_A0 0 s
                in kbind (dup_files me np 0 NOFILE s) (\<lambda>_ s.
                   case p_cwd p of
                     None \<Rightarrow> Panic ''undefined''
                   | Some cwd \<Rightarrow> kbind (idup cwd s) (\<lambda>cwd s.
                       case safestrcpy (p_name (procs s ! np)) (p_name p) 16 of
                         None \<Rightarrow> Panic ''undefined''
                       | Some nm \<Rightarrow>
                           let s = upd_proc np (\<lambda>q. q\<lparr>p_cwd := Some cwd, p_name := nm\<rparr>) s;
                               pid = p_pid (procs s ! np);
                               s = upd_proc np (\<lambda>q. q\<lparr>p_parent := Some me\<rparr>) s
                           in Ok pid (upd_proc np (\<lambda>q. q\<lparr>p_state := RUNNABLE\<rparr>) s)))))"

subsection \<open>Exit\<close>

fun close_files :: "nat \<Rightarrow> nat \<Rightarrow> nat \<Rightarrow> 'a filest_scheme \<Rightarrow> ('a filest_scheme, unit) res" where
  "close_files me i 0 s = Ok () s"
| "close_files me i (Suc k) s =
     (case p_ofile (procs s ! me) ! i of
        None \<Rightarrow> close_files me (Suc i) k s
      | Some f \<Rightarrow> kbind (fileclose me f s) (\<lambda>_ s.
          close_files me (Suc i) k (upd_proc me (\<lambda>p. p\<lparr>p_ofile := (p_ofile p)[i := None]\<rparr>) s)))"

text \<open>The state in which \<^verbatim>\<open>kexit\<close> enters the scheduler for the last time.\<close>

definition kexit :: "nat \<Rightarrow> uint32 \<Rightarrow> 'a filest_scheme \<Rightarrow> ('a filest_scheme, unit) res" where
  "kexit me status s =
     (if Some me = initproc s then Panic ''init exiting''
      else let pid = p_pid (procs s ! me)
      in kbind (close_files me 0 NOFILE s) (\<lambda>_ s.
         kbind (blocking me (begin_op s)) (\<lambda>_ s.
         case p_cwd (procs s ! me) of
           None \<Rightarrow> Panic ''undefined''
         | Some cwd \<Rightarrow>
             kbind (blocking me (iput pid cwd s)) (\<lambda>_ s.
             kbind (blocking me (end_op pid s)) (\<lambda>_ s.
             let s = upd_proc me (\<lambda>p. p\<lparr>p_cwd := None\<rparr>) s;
                 s = reparent me s;
                 s = (case p_parent (procs s ! me) of Some pp \<Rightarrow> wakeup (Some me) (ChProc pp) s | None \<Rightarrow> s)
             in Ok () (upd_proc me (\<lambda>p. p\<lparr>p_xstate := status, p_state := ZOMBIE\<rparr>) s))))))"

subsection \<open>Loading a program\<close>

record elfhdr =
  e_magic :: uint32
  e_entry :: uint64
  e_phoff :: uint64
  e_phnum :: uint16

record proghdr =
  ph_type :: uint32
  ph_flags :: uint32
  ph_off :: uint64
  ph_vaddr :: uint64
  ph_filesz :: uint64
  ph_memsz :: uint64

definition ELF_MAGIC :: uint32 where "ELF_MAGIC = 0x464C457F"
definition ELF_PROG_LOAD :: uint32 where "ELF_PROG_LOAD = 1"

definition rd64 :: "bytes \<Rightarrow> nat \<Rightarrow> uint64" where "rd64 d off = of_nat (rd 8 d off)"

definition get_elfhdr :: "bytes \<Rightarrow> elfhdr" where
  "get_elfhdr d = \<lparr>e_magic = rd32 d 0, e_entry = rd64 d 24, e_phoff = rd64 d 32, e_phnum = rd16 d 56\<rparr>"

definition get_proghdr :: "bytes \<Rightarrow> proghdr" where
  "get_proghdr d = \<lparr>ph_type = rd32 d 0, ph_flags = rd32 d 4, ph_off = rd64 d 8, ph_vaddr = rd64 d 16,
                    ph_filesz = rd64 d 32, ph_memsz = rd64 d 40\<rparr>"

definition flags2perm :: "uint32 \<Rightarrow> uint64" where
  "flags2perm flags =
     (let perm = (if flags AND 1 \<noteq> 0 then PTE_X else 0) in if flags AND 2 \<noteq> 0 then perm OR PTE_W else perm)"

function loadseg_loop :: "curp \<Rightarrow> addr \<Rightarrow> uint64 \<Rightarrow> nat \<Rightarrow> uint32 \<Rightarrow> nat \<Rightarrow> nat \<Rightarrow> 'a filest_scheme \<Rightarrow> ('a filest_scheme, int) res" where
  "loadseg_loop p pagetable va ip offset sz i s =
     (if i < sz
      then kbind (on_km (walkaddr pagetable (va + of_nat i)) s) (\<lambda>pa s.
             if pa = 0 then Panic ''loadseg: address should exist''
             else let off_in_page = unat (va + of_nat i) mod 4096;
                      n = min (sz - i) (4096 - off_in_page)
                  in kbind (readi p ip (Kern (pa + of_nat off_in_page)) (offset + of_nat i) (of_nat n) s) (\<lambda>(r, _) s.
                     if r \<noteq> int n then Ok (-1) s else loadseg_loop p pagetable va ip offset sz (i + n) s))
      else Ok 0 s)"
  by pat_completeness auto
termination by (relation "measure (\<lambda>(p, pt, va, ip, offset, sz, i, s). sz - i)") auto

declare loadseg_loop.simps [simp del]

definition loadseg :: "curp \<Rightarrow> addr \<Rightarrow> uint64 \<Rightarrow> nat \<Rightarrow> uint32 \<Rightarrow> uint32 \<Rightarrow> 'a filest_scheme \<Rightarrow> ('a filest_scheme, int) res" where
  "loadseg p pagetable va ip offset sz s = loadseg_loop p pagetable va ip offset (unat sz) 0 s"

text \<open>
  The loop over the program headers. The result is the size reached and whether every segment
  was loaded (\<open>False\<close>: jump to \<^verbatim>\<open>bad\<close>).
\<close>

fun load_segments :: "curp \<Rightarrow> nat \<Rightarrow> addr \<Rightarrow> uint32 \<Rightarrow> nat \<Rightarrow> uint64 \<Rightarrow> 'a filest_scheme \<Rightarrow> ('a filest_scheme, uint64 \<times> bool) res" where
  "load_segments p ip pagetable off 0 sz s = Ok (sz, True) s"
| "load_segments p ip pagetable off (Suc k) sz s =
     kbind (readi p ip Local off 56 s) (\<lambda>(r, d) s.
       if r \<noteq> 56 then Ok (sz, False) s
       else let ph = get_proghdr d
            in if ph_type ph \<noteq> ELF_PROG_LOAD then load_segments p ip pagetable (off + 56) k sz s
               else if ph_memsz ph < ph_filesz ph then Ok (sz, False) s
               else if ph_vaddr ph + ph_memsz ph < ph_vaddr ph then Ok (sz, False) s
               else kbind (on_km (uvmalloc pagetable sz (ph_vaddr ph + ph_memsz ph) (flags2perm (ph_flags ph))) s) (\<lambda>sz1 s.
                    if sz1 = 0 then Ok (sz, False) s
                    else kbind (loadseg p pagetable (ph_vaddr ph) ip (ucast (ph_off ph)) (ucast (ph_filesz ph)) s) (\<lambda>r s.
                         if r < 0 then Ok (sz1, False) s
                         else load_segments p ip pagetable (off + 56) k sz1 s)))"

text \<open>
  The argument strings, each with its terminator, are pushed below \<open>sp\<close>. The result is the new \<open>sp\<close>
  and the addresses, or \<open>None\<close> for the jump to \<^verbatim>\<open>bad\<close>.
\<close>

fun push_args :: "curp \<Rightarrow> addr \<Rightarrow> uint64 \<Rightarrow> bytes list \<Rightarrow> nat \<Rightarrow> uint64 \<Rightarrow> uint64 list \<Rightarrow> 'a filest_scheme \<Rightarrow> ('a filest_scheme, (uint64 \<times> uint64 list) option) res" where
  "push_args p pagetable stackbase [] argc sp ustack s = Ok (Some (sp, ustack)) s"
| "push_args p pagetable stackbase (a # as) argc sp ustack s =
     (if argc \<ge> MAXARG then Ok None s
      else let sp = sp - of_nat (length a + 1); sp = sp - sp mod 16
           in if sp < stackbase then Ok None s
              else kbind (on_km (copyout (csz p) (cpt p) pagetable sp (a @ [0])) s) (\<lambda>r s.
                   if r < 0 then Ok None s
                   else push_args p pagetable stackbase as (Suc argc) sp (ustack @ [sp]) s))"

definition words_bytes :: "uint64 list \<Rightarrow> bytes" where
  "words_bytes ws = concat (map (\<lambda>w. map (\<lambda>i. of_nat (unat w div 256 ^ i)) [0..<8]) ws)"

definition last_elem :: "bytes \<Rightarrow> bytes" where
  "last_elem path = rev (takeWhile (\<lambda>c. c \<noteq> slash) (rev path))"

text \<open>The label \<^verbatim>\<open>bad\<close>: free the new page table, release the inode if it is still held.\<close>

definition exec_bad :: "curp \<Rightarrow> addr \<Rightarrow> uint64 \<Rightarrow> nat option \<Rightarrow> 'a filest_scheme \<Rightarrow> ('a filest_scheme, int) res" where
  "exec_bad p pagetable sz ip s =
     kbind (if pagetable \<noteq> 0 then on_km (proc_freepagetable pagetable sz) s else Ok () s) (\<lambda>_ s.
       case ip of
         None \<Rightarrow> Ok (-1) s
       | Some ip \<Rightarrow> kbind (iunlockput (cpid p) ip s) (\<lambda>_ s. kbind (end_op (cpid p) s) (\<lambda>_ s. Ok (-1) s)))"

text \<open>The second half of \<^verbatim>\<open>kexec\<close>: the user stack, the arguments and the switch to the new image.\<close>

definition exec_commit :: "nat \<Rightarrow> bytes \<Rightarrow> bytes list \<Rightarrow> elfhdr \<Rightarrow> addr \<Rightarrow> uint64 \<Rightarrow> 'a filest_scheme \<Rightarrow> ('a filest_scheme, int) res" where
  "exec_commit me path argv elf pagetable sz s =
     (let p = myself me s; oldsz = csz p; sz = PGROUNDUP sz; extra = (USERSTACK + 1) * PGSIZE
      in kbind (on_km (uvmalloc pagetable sz (sz + extra) PTE_W) s) (\<lambda>sz1 s.
         if sz1 = 0 then exec_bad p pagetable sz None s
         else let sz = sz1
         in kbind (on_km (uvmclear pagetable (sz - extra)) s) (\<lambda>_ s.
            let stackbase = sz - USERSTACK * PGSIZE
            in kbind (push_args p pagetable stackbase argv 0 sz [] s) (\<lambda>r s.
               case r of
                 None \<Rightarrow> exec_bad p pagetable sz None s
               | Some (sp, ustack) \<Rightarrow>
                   let argc = length ustack;
                       sp = sp - of_nat ((argc + 1) * 8);
                       sp = sp - sp mod 16
                   in if sp < stackbase then exec_bad p pagetable sz None s
                      else kbind (on_km (copyout (csz p) (cpt p) pagetable sp (words_bytes (ustack @ [0]))) s) (\<lambda>r s.
                        if r < 0 then exec_bad p pagetable sz None s
                        else let s = tf_put me TF_A1 sp s
                        in case safestrcpy (p_name (procs s ! me)) (last_elem path @ [0]) 16 of
                             None \<Rightarrow> Panic ''undefined''
                           | Some nm \<Rightarrow>
                               let oldpagetable = p_pagetable (procs s ! me);
                                   s = upd_proc me (\<lambda>q. q\<lparr>p_name := nm, p_pagetable := pagetable, p_sz := sz\<rparr>) s;
                                   s = tf_put me TF_EPC (e_entry elf) s;
                                   s = tf_put me TF_SP sp s
                               in kbind (on_km (proc_freepagetable oldpagetable oldsz) s) (\<lambda>_ s. Ok (int argc) s))))))"

definition kexec :: "nat \<Rightarrow> bytes \<Rightarrow> bytes \<Rightarrow> bytes list \<Rightarrow> 'a filest_scheme \<Rightarrow> ('a filest_scheme, int) res" where
  "kexec me name0 path argv s =
     (let p = myself me s
      in kbind (begin_op s) (\<lambda>_ s.
         case p_cwd (procs s ! me) of
           None \<Rightarrow> Panic ''undefined''
         | Some cwd \<Rightarrow>
         kbind (namei p cwd name0 path s) (\<lambda>r s.
           case r of
             None \<Rightarrow> kbind (end_op (cpid p) s) (\<lambda>_ s. Ok (-1) s)
           | Some ip \<Rightarrow>
               kbind (ilock (cpid p) ip s) (\<lambda>_ s.
               kbind (readi p ip Local 0 64 s) (\<lambda>(r, d) s.
                 let elf = get_elfhdr d
                 in if r \<noteq> 64 then exec_bad p 0 0 (Some ip) s
                    else if e_magic elf \<noteq> ELF_MAGIC then exec_bad p 0 0 (Some ip) s
                    else kbind (on_km (proc_pagetable (k_trampoline s) (p_trapframe (procs s ! me))) s) (\<lambda>pagetable s.
                      if pagetable = 0 then exec_bad p 0 0 (Some ip) s
                      else kbind (load_segments p ip pagetable (ucast (e_phoff elf)) (unat (e_phnum elf)) 0 s) (\<lambda>(sz, ok) s.
                        if \<not> ok then exec_bad p pagetable sz (Some ip) s
                        else kbind (iunlockput (cpid p) ip s) (\<lambda>_ s.
                             kbind (end_op (cpid p) s) (\<lambda>_ s.
                             exec_commit me path argv elf pagetable sz s)))))))))"

subsection \<open>Entering user space\<close>

text \<open>
  The control registers that \<^verbatim>\<open>prepare_return\<close> reads (\<^verbatim>\<open>satp\<close>, \<^verbatim>\<open>tp\<close>, \<^verbatim>\<open>sstatus\<close>) and writes, and the
  addresses of \<^verbatim>\<open>uservec\<close> and \<^verbatim>\<open>usertrap\<close>.
\<close>

record csrs =
  c_satp :: uint64
  c_tp :: uint64
  c_sstatus :: uint64
  c_stvec :: uint64
  c_sepc :: uint64
  c_uservec :: uint64
  c_usertrap :: uint64

definition SSTATUS_SPP :: uint64 where "SSTATUS_SPP = 0x100"
definition SSTATUS_SPIE :: uint64 where "SSTATUS_SPIE = 0x20"
definition SSTATUS_SIE :: uint64 where "SSTATUS_SIE = 2"

definition prepare_return :: "nat \<Rightarrow> csrs \<Rightarrow> 'a filest_scheme \<Rightarrow> csrs \<times> 'a filest_scheme" where
  "prepare_return me c s =
     (let c = c\<lparr>c_sstatus := c_sstatus c AND NOT SSTATUS_SIE, c_stvec := TRAMPOLINE + (c_uservec c - k_trampoline s)\<rparr>;
          s = tf_put me TF_KERNEL_SATP (c_satp c) s;
          s = tf_put me TF_KERNEL_SP (p_kstack (procs s ! me) + PGSIZE) s;
          s = tf_put me TF_KERNEL_TRAP (c_usertrap c) s;
          s = tf_put me TF_KERNEL_HARTID (c_tp c) s
      in (c\<lparr>c_sstatus := (c_sstatus c AND NOT SSTATUS_SPP) OR SSTATUS_SPIE, c_sepc := tf_get me TF_EPC s\<rparr>, s))"

text \<open>\<open>init_path\<close> is \<^verbatim>\<open>"/init"\<close>; the first process to run initialises the file system and executes it.\<close>

abbreviation init_path :: bytes where "init_path \<equiv> [0x2f, 0x69, 0x6e, 0x69, 0x74]"

definition forkret :: "nat \<Rightarrow> bool \<Rightarrow> bytes \<Rightarrow> csrs \<Rightarrow> 'a filest_scheme \<Rightarrow> ('a filest_scheme, uint64 \<times> csrs) res" where
  "forkret me first name0 c s =
     kbind (if first
            then kbind (fsinit (p_pid (procs s ! me)) ROOTDEV s) (\<lambda>_ s.
                 kbind (kexec me name0 init_path [init_path] s) (\<lambda>r s.
                 let s = tf_put me TF_A0 (of_int r) s
                 in if tf_get me TF_A0 s = - 1 then Panic ''exec'' else Ok () s))
            else Ok () s) (\<lambda>_ s.
       let (c, s) = prepare_return me c s
       in Ok (MAKE_SATP (p_pagetable (procs s ! me)), c) s)"

text \<open>\<^verbatim>\<open>userinit\<close> does not test the result of \<^verbatim>\<open>allocproc\<close>; a null pointer would be dereferenced.\<close>

definition userinit :: "bytes \<Rightarrow> 'a filest_scheme \<Rightarrow> ('a filest_scheme, unit) res" where
  "userinit name0 s =
     kbind (allocproc s) (\<lambda>r s.
       case r of
         None \<Rightarrow> Panic ''undefined''
       | Some i \<Rightarrow>
           let s = s\<lparr>initproc := Some i\<rparr>
           in case safestrcpy (p_name (procs s ! i)) [0x69, 0x6e, 0x69, 0x74, 0] 16 of
                None \<Rightarrow> Panic ''undefined''
              | Some nm \<Rightarrow>
                  kbind (namei (myself i s) 0 name0 [slash] (upd_proc i (\<lambda>p. p\<lparr>p_name := nm\<rparr>) s)) (\<lambda>r s.
                    Ok () (upd_proc i (\<lambda>p. p\<lparr>p_cwd := r, p_sz := 0, p_state := RUNNABLE\<rparr>) s)))"

end
