(* ===== verification/Sysfile.thy ===== *)
theory Sysfile
  imports Exec
begin

section \<open>System calls\<close>

text \<open>
  \<^verbatim>\<open>kernel/syscall.c\<close>, \<^verbatim>\<open>kernel/sysfile.c\<close> and \<^verbatim>\<open>kernel/sysproc.c\<close>: fetching arguments from the trap
  frame and user memory, the handler of every system call, and the dispatch. Local arrays that are
  not initialised (\<^verbatim>\<open>name\<close>, \<^verbatim>\<open>de\<close>, the padding of \<^verbatim>\<open>struct stat\<close>) are the fields of the argument \<open>lc\<close>.
  The value of a handler is the integer that the C function returns; the dispatch stores its 64-bit
  representation in \<^verbatim>\<open>a0\<close>.
\<close>

record locals =
  l_name :: bytes
  l_de :: bytes
  l_pad :: bytes

definition MAXPATHL :: uint64 where "MAXPATHL = 128"

definition O_RDONLY :: uint32 where "O_RDONLY = 0"
definition O_WRONLY :: uint32 where "O_WRONLY = 1"
definition O_RDWR :: uint32 where "O_RDWR = 2"
definition O_CREATE :: uint32 where "O_CREATE = 0x200"
definition O_TRUNC :: uint32 where "O_TRUNC = 0x400"

subsection \<open>Arguments\<close>

definition argraw :: "nat \<Rightarrow> nat \<Rightarrow> 'a filest_scheme \<Rightarrow> uint64" where
  "argraw me n s =
     tf_get me (if n = 0 then TF_A0 else if n = 1 then TF_A1 else if n = 2 then TF_A2
                else if n = 3 then TF_A3 else if n = 4 then TF_A4 else TF_A5) s"

definition argint :: "nat \<Rightarrow> nat \<Rightarrow> 'a filest_scheme \<Rightarrow> uint32" where
  "argint me n s = ucast (argraw me n s)"

definition argaddr :: "nat \<Rightarrow> nat \<Rightarrow> 'a filest_scheme \<Rightarrow> uint64" where
  "argaddr me n s = argraw me n s"

text \<open>The word fetched, or \<open>None\<close> for the result -1.\<close>

definition fetchaddr :: "nat \<Rightarrow> uint64 \<Rightarrow> 'a filest_scheme \<Rightarrow> ('a filest_scheme, uint64 option) res" where
  "fetchaddr me a s =
     (let p = myself me s
      in if a \<ge> csz p \<or> a + 8 > csz p then Ok None s
         else kbind (on_km (copyin (csz p) (cpt p) (cpt p) a 8) s) (\<lambda>(r, bs) s.
              if r \<noteq> 0 then Ok None s else Ok (Some (rd64 bs 0)) s))"

text \<open>The string before its terminator (its length is the result of the C function), or \<open>None\<close> for -1.\<close>

definition fetchstr :: "nat \<Rightarrow> uint64 \<Rightarrow> uint64 \<Rightarrow> 'a filest_scheme \<Rightarrow> ('a filest_scheme, bytes option) res" where
  "fetchstr me a mx s =
     kbind (on_km (copyinstr (cpt (myself me s)) a mx) s) (\<lambda>(r, bs) s.
       if r < 0 then Ok None s else Ok (Some (cstr bs)) s)"

definition argstr :: "nat \<Rightarrow> nat \<Rightarrow> uint64 \<Rightarrow> 'a filest_scheme \<Rightarrow> ('a filest_scheme, bytes option) res" where
  "argstr me n mx s = fetchstr me (argaddr me n s) mx s"

definition argfd :: "nat \<Rightarrow> nat \<Rightarrow> 'a filest_scheme \<Rightarrow> (nat \<times> nat) option" where
  "argfd me n s =
     (let fd = sint (argint me n s)
      in if fd < 0 \<or> fd \<ge> int NOFILE then None
         else map_option (\<lambda>f. (nat fd, f)) (p_ofile (procs s ! me) ! nat fd))"

definition fdalloc :: "nat \<Rightarrow> nat \<Rightarrow> 'a filest_scheme \<Rightarrow> int \<times> 'a filest_scheme" where
  "fdalloc me f s =
     (case find_slot (\<lambda>x. x = None) (p_ofile (procs s ! me)) 0 of
        None \<Rightarrow> (-1, s)
      | Some fd \<Rightarrow> (int fd, upd_proc me (\<lambda>p. p\<lparr>p_ofile := (p_ofile p)[fd := Some f]\<rparr>) s))"

definition clear_fd :: "nat \<Rightarrow> nat \<Rightarrow> 'a filest_scheme \<Rightarrow> 'a filest_scheme" where
  "clear_fd me fd s = upd_proc me (\<lambda>p. p\<lparr>p_ofile := (p_ofile p)[fd := None]\<rparr>) s"

subsection \<open>File descriptors\<close>

definition sys_dup :: "nat \<Rightarrow> 'a filest_scheme \<Rightarrow> ('a filest_scheme, int) res" where
  "sys_dup me s =
     (case argfd me 0 s of
        None \<Rightarrow> Ok (-1) s
      | Some (_, f) \<Rightarrow>
          (let (fd, s) = fdalloc me f s
           in if fd < 0 then Ok (-1) s else kbind (filedup f s) (\<lambda>_ s. Ok fd s)))"

definition sys_read :: "nat \<Rightarrow> 'a filest_scheme \<Rightarrow> ('a filest_scheme, int) res" where
  "sys_read me s =
     (case argfd me 0 s of
        None \<Rightarrow> Ok (-1) s
      | Some (_, f) \<Rightarrow> fileread me f (argaddr me 1 s) (sint (argint me 2 s)) s)"

definition sys_write :: "nat \<Rightarrow> 'a filest_scheme \<Rightarrow> ('a filest_scheme, int) res" where
  "sys_write me s =
     (case argfd me 0 s of
        None \<Rightarrow> Ok (-1) s
      | Some (_, f) \<Rightarrow> filewrite me f (argaddr me 1 s) (sint (argint me 2 s)) s)"

definition sys_close :: "nat \<Rightarrow> 'a filest_scheme \<Rightarrow> ('a filest_scheme, int) res" where
  "sys_close me s =
     (case argfd me 0 s of
        None \<Rightarrow> Ok (-1) s
      | Some (fd, f) \<Rightarrow> kbind (fileclose me f (clear_fd me fd s)) (\<lambda>_ s. Ok 0 s))"

definition sys_fstat :: "nat \<Rightarrow> locals \<Rightarrow> 'a filest_scheme \<Rightarrow> ('a filest_scheme, int) res" where
  "sys_fstat me lc s =
     (case argfd me 0 s of
        None \<Rightarrow> Ok (-1) s
      | Some (_, f) \<Rightarrow> filestat me (l_pad lc) f (argaddr me 1 s) s)"

subsection \<open>Links\<close>

definition my_cwd :: "nat \<Rightarrow> 'a filest_scheme \<Rightarrow> nat" where
  "my_cwd me s = the (p_cwd (procs s ! me))"

definition link_bad :: "int \<Rightarrow> nat \<Rightarrow> 'a filest_scheme \<Rightarrow> ('a filest_scheme, int) res" where
  "link_bad pid ip s =
     kbind (ilock pid ip s) (\<lambda>_ s.
     kbind (iupdate pid ip (upd_inode ip (\<lambda>n. n\<lparr>i_nlink := i_nlink n - 1\<rparr>) s)) (\<lambda>_ s.
     kbind (iunlockput pid ip s) (\<lambda>_ s.
     kbind (end_op pid s) (\<lambda>_ s. Ok (-1) s))))"

definition sys_link :: "nat \<Rightarrow> locals \<Rightarrow> 'a filest_scheme \<Rightarrow> ('a filest_scheme, int) res" where
  "sys_link me lc s =
     (let p = myself me s; pid = cpid p
      in kbind (argstr me 0 MAXPATHL s) (\<lambda>old s.
         case old of None \<Rightarrow> Ok (-1) s | Some old \<Rightarrow>
         kbind (argstr me 1 MAXPATHL s) (\<lambda>new s.
         case new of None \<Rightarrow> Ok (-1) s | Some new \<Rightarrow>
         kbind (begin_op s) (\<lambda>_ s.
         kbind (namei p (my_cwd me s) (l_name lc) old s) (\<lambda>r s.
         case r of
           None \<Rightarrow> kbind (end_op pid s) (\<lambda>_ s. Ok (-1) s)
         | Some ip \<Rightarrow>
             kbind (ilock pid ip s) (\<lambda>_ s.
             if i_type (itable s ! ip) = T_DIR
             then kbind (iunlockput pid ip s) (\<lambda>_ s. kbind (end_op pid s) (\<lambda>_ s. Ok (-1) s))
             else kbind (iupdate pid ip (upd_inode ip (\<lambda>n. n\<lparr>i_nlink := i_nlink n + 1\<rparr>) s)) (\<lambda>_ s.
                  kbind (iunlock pid ip s) (\<lambda>_ s.
                  kbind (nameiparent p (my_cwd me s) new (l_name lc) s) (\<lambda>(dp, name) s.
                  case dp of
                    None \<Rightarrow> link_bad pid ip s
                  | Some dp \<Rightarrow>
                      kbind (ilock pid dp s) (\<lambda>_ s.
                      kbind (if i_dev (itable s ! dp) \<noteq> i_dev (itable s ! ip) then Ok (-1) s
                             else dirlink p (l_de lc) dp name (i_inum (itable s ! ip)) s) (\<lambda>r s.
                      kbind (iunlockput pid dp s) (\<lambda>_ s.
                      if r < 0 then link_bad pid ip s
                      else kbind (iput pid ip s) (\<lambda>_ s.
                           kbind (end_op pid s) (\<lambda>_ s. Ok 0 s))))))))))))))"

function isdirempty_loop :: "curp \<Rightarrow> nat \<Rightarrow> nat \<Rightarrow> nat \<Rightarrow> 'a filest_scheme \<Rightarrow> ('a filest_scheme, bool) res" where
  "isdirempty_loop p dp sz off s =
     (if off < sz
      then kbind (readi p dp Local (of_nat off) 16 s) (\<lambda>(r, de) s.
             if r \<noteq> 16 then Panic ''isdirempty: readi''
             else if de_inum de \<noteq> 0 then Ok False s
             else isdirempty_loop p dp sz (off + 16) s)
      else Ok True s)"
  by pat_completeness auto
termination by (relation "measure (\<lambda>(p, dp, sz, off, s). sz - off)") auto

declare isdirempty_loop.simps [simp del]

definition isdirempty :: "curp \<Rightarrow> nat \<Rightarrow> 'a filest_scheme \<Rightarrow> ('a filest_scheme, bool) res" where
  "isdirempty p dp s = isdirempty_loop p dp (unat (i_size (itable s ! dp))) 32 s"

definition unlink_bad :: "int \<Rightarrow> nat \<Rightarrow> 'a filest_scheme \<Rightarrow> ('a filest_scheme, int) res" where
  "unlink_bad pid dp s = kbind (iunlockput pid dp s) (\<lambda>_ s. kbind (end_op pid s) (\<lambda>_ s. Ok (-1) s))"

definition dot :: bytes where "dot = [0x2e, 0]"
definition dotdot :: bytes where "dotdot = [0x2e, 0x2e, 0]"

definition sys_unlink :: "nat \<Rightarrow> locals \<Rightarrow> 'a filest_scheme \<Rightarrow> ('a filest_scheme, int) res" where
  "sys_unlink me lc s =
     (let p = myself me s; pid = cpid p
      in kbind (argstr me 0 MAXPATHL s) (\<lambda>path s.
         case path of None \<Rightarrow> Ok (-1) s | Some path \<Rightarrow>
         kbind (begin_op s) (\<lambda>_ s.
         kbind (nameiparent p (my_cwd me s) path (l_name lc) s) (\<lambda>(dp, name) s.
         case dp of
           None \<Rightarrow> kbind (end_op pid s) (\<lambda>_ s. Ok (-1) s)
         | Some dp \<Rightarrow>
             kbind (ilock pid dp s) (\<lambda>_ s.
             if namecmp name dot = Some 0 \<or> namecmp name dotdot = Some 0 then unlink_bad pid dp s
             else kbind (dirlookup p dp name s) (\<lambda>found s.
             case found of
               None \<Rightarrow> unlink_bad pid dp s
             | Some (ip, off) \<Rightarrow>
                 kbind (ilock pid ip s) (\<lambda>_ s.
                 if sint (i_nlink (itable s ! ip)) < 1 then Panic ''unlink: nlink < 1''
                 else kbind (if i_type (itable s ! ip) = T_DIR then isdirempty p ip s else Ok True s) (\<lambda>empty s.
                 if \<not> empty then kbind (iunlockput pid ip s) (\<lambda>_ s. unlink_bad pid dp s)
                 else kbind (writei p dp (From (replicate 16 0)) (of_nat off) 16 s) (\<lambda>r s.
                      if r \<noteq> 16 then Panic ''unlink: writei''
                      else kbind (if i_type (itable s ! ip) = T_DIR
                                  then iupdate pid dp (upd_inode dp (\<lambda>n. n\<lparr>i_nlink := i_nlink n - 1\<rparr>) s)
                                  else Ok () s) (\<lambda>_ s.
                           kbind (iunlockput pid dp s) (\<lambda>_ s.
                           kbind (iupdate pid ip (upd_inode ip (\<lambda>n. n\<lparr>i_nlink := i_nlink n - 1\<rparr>) s)) (\<lambda>_ s.
                           kbind (iunlockput pid ip s) (\<lambda>_ s.
                           kbind (end_op pid s) (\<lambda>_ s. Ok 0 s))))))))))))))"

subsection \<open>Creating files\<close>

definition create_fail :: "int \<Rightarrow> nat \<Rightarrow> nat \<Rightarrow> 'a filest_scheme \<Rightarrow> ('a filest_scheme, nat option) res" where
  "create_fail pid ip dp s =
     kbind (iupdate pid ip (upd_inode ip (\<lambda>n. n\<lparr>i_nlink := 0\<rparr>) s)) (\<lambda>_ s.
     kbind (iunlockput pid ip s) (\<lambda>_ s.
     kbind (iunlockput pid dp s) (\<lambda>_ s. Ok None s)))"

text \<open>The entries \<^verbatim>\<open>.\<close> and \<^verbatim>\<open>..\<close> of a new directory; whether both were written.\<close>

definition link_dots :: "curp \<Rightarrow> locals \<Rightarrow> uint16 \<Rightarrow> nat \<Rightarrow> nat \<Rightarrow> 'a filest_scheme \<Rightarrow> ('a filest_scheme, bool) res" where
  "link_dots p lc type ip dp s =
     (if type \<noteq> T_DIR then Ok True s
      else kbind (dirlink p (l_de lc) ip dot (i_inum (itable s ! ip)) s) (\<lambda>r s.
           if r < 0 then Ok False s
           else kbind (dirlink p (l_de lc) ip dotdot (i_inum (itable s ! dp)) s) (\<lambda>r s. Ok (\<not> r < 0) s)))"

definition create :: "nat \<Rightarrow> locals \<Rightarrow> bytes \<Rightarrow> uint16 \<Rightarrow> uint16 \<Rightarrow> uint16 \<Rightarrow> 'a filest_scheme \<Rightarrow> ('a filest_scheme, nat option) res" where
  "create me lc path type major minor s =
     (let p = myself me s; pid = cpid p
      in kbind (nameiparent p (my_cwd me s) path (l_name lc) s) (\<lambda>(dp, name) s.
         case dp of
           None \<Rightarrow> Ok None s
         | Some dp \<Rightarrow>
             kbind (ilock pid dp s) (\<lambda>_ s.
             kbind (dirlookup p dp name s) (\<lambda>found s.
             case found of
               Some (ip, _) \<Rightarrow>
                 kbind (iunlockput pid dp s) (\<lambda>_ s.
                 kbind (ilock pid ip s) (\<lambda>_ s.
                 if type = T_FILE \<and> (i_type (itable s ! ip) = T_FILE \<or> i_type (itable s ! ip) = T_DEVICE)
                 then Ok (Some ip) s
                 else kbind (iunlockput pid ip s) (\<lambda>_ s. Ok None s)))
             | None \<Rightarrow>
                 kbind (ialloc pid (i_dev (itable s ! dp)) type s) (\<lambda>r s.
                 case r of
                   None \<Rightarrow> kbind (iunlockput pid dp s) (\<lambda>_ s. Ok None s)
                 | Some ip \<Rightarrow>
                     kbind (ilock pid ip s) (\<lambda>_ s.
                     kbind (iupdate pid ip (upd_inode ip (\<lambda>n. n\<lparr>i_major := major, i_minor := minor, i_nlink := 1\<rparr>) s)) (\<lambda>_ s.
                     kbind (link_dots p lc type ip dp s) (\<lambda>ok s.
                     if \<not> ok then create_fail pid ip dp s
                     else kbind (dirlink p (l_de lc) dp name (i_inum (itable s ! ip)) s) (\<lambda>r s.
                     if r < 0 then create_fail pid ip dp s
                     else kbind (if type = T_DIR
                                 then iupdate pid dp (upd_inode dp (\<lambda>n. n\<lparr>i_nlink := i_nlink n + 1\<rparr>) s)
                                 else Ok () s) (\<lambda>_ s.
                          kbind (iunlockput pid dp s) (\<lambda>_ s. Ok (Some ip) s)))))))))))"

text \<open>The common tail of the failures of \<^verbatim>\<open>sys_open\<close> that hold the inode.\<close>

definition open_bad :: "int \<Rightarrow> nat \<Rightarrow> 'a filest_scheme \<Rightarrow> ('a filest_scheme, int) res" where
  "open_bad pid ip s = kbind (iunlockput pid ip s) (\<lambda>_ s. kbind (end_op pid s) (\<lambda>_ s. Ok (-1) s))"

text \<open>The part of \<^verbatim>\<open>sys_open\<close> that runs with the locked inode.\<close>

definition open_inode :: "nat \<Rightarrow> uint32 \<Rightarrow> nat \<Rightarrow> 'a filest_scheme \<Rightarrow> ('a filest_scheme, int) res" where
  "open_inode me omode ip s =
     (let pid = cpid (myself me s); n = itable s ! ip
      in if i_type n = T_DEVICE \<and> (sint (i_major n) < 0 \<or> sint (i_major n) \<ge> int NDEV) then open_bad pid ip s
         else kbind (filealloc s) (\<lambda>fo s.
         case fo of
           None \<Rightarrow> open_bad pid ip s
         | Some f \<Rightarrow>
             (let (fd, s) = fdalloc me f s
              in if fd < 0 then kbind (fileclose me f s) (\<lambda>_ s. open_bad pid ip s)
                 else let s = upd_file f (\<lambda>f. if i_type n = T_DEVICE then f\<lparr>f_type := FD_DEVICE, f_major := i_major n\<rparr>
                                              else f\<lparr>f_type := FD_INODE, f_off := 0\<rparr>) s;
                          s = upd_file f (\<lambda>f. f\<lparr>f_ip := ip, f_readable := (omode AND O_WRONLY = 0),
                                f_writable := (omode AND O_WRONLY \<noteq> 0 \<or> omode AND O_RDWR \<noteq> 0)\<rparr>) s
                      in kbind (if omode AND O_TRUNC \<noteq> 0 \<and> i_type n = T_FILE then itrunc pid ip s else Ok () s) (\<lambda>_ s.
                         kbind (iunlock pid ip s) (\<lambda>_ s.
                         kbind (end_op pid s) (\<lambda>_ s. Ok fd s))))))"

definition sys_open :: "nat \<Rightarrow> locals \<Rightarrow> 'a filest_scheme \<Rightarrow> ('a filest_scheme, int) res" where
  "sys_open me lc s =
     (let p = myself me s; pid = cpid p; omode = argint me 1 s
      in kbind (argstr me 0 MAXPATHL s) (\<lambda>path s.
         case path of None \<Rightarrow> Ok (-1) s | Some path \<Rightarrow>
         kbind (begin_op s) (\<lambda>_ s.
         if omode AND O_CREATE \<noteq> 0
         then kbind (create me lc path T_FILE 0 0 s) (\<lambda>r s.
              case r of
                None \<Rightarrow> kbind (end_op pid s) (\<lambda>_ s. Ok (-1) s)
              | Some ip \<Rightarrow> open_inode me omode ip s)
         else kbind (namei p (my_cwd me s) (l_name lc) path s) (\<lambda>r s.
              case r of
                None \<Rightarrow> kbind (end_op pid s) (\<lambda>_ s. Ok (-1) s)
              | Some ip \<Rightarrow>
                  kbind (ilock pid ip s) (\<lambda>_ s.
                  if i_type (itable s ! ip) = T_DIR \<and> omode \<noteq> O_RDONLY then open_bad pid ip s
                  else open_inode me omode ip s)))))"

definition sys_mkdir :: "nat \<Rightarrow> locals \<Rightarrow> 'a filest_scheme \<Rightarrow> ('a filest_scheme, int) res" where
  "sys_mkdir me lc s =
     (let pid = cpid (myself me s)
      in kbind (begin_op s) (\<lambda>_ s.
         kbind (argstr me 0 MAXPATHL s) (\<lambda>path s.
         kbind (case path of None \<Rightarrow> Ok None s | Some path \<Rightarrow> create me lc path T_DIR 0 0 s) (\<lambda>r s.
         case r of
           None \<Rightarrow> kbind (end_op pid s) (\<lambda>_ s. Ok (-1) s)
         | Some ip \<Rightarrow> kbind (iunlockput pid ip s) (\<lambda>_ s. kbind (end_op pid s) (\<lambda>_ s. Ok 0 s))))))"

definition sys_mknod :: "nat \<Rightarrow> locals \<Rightarrow> 'a filest_scheme \<Rightarrow> ('a filest_scheme, int) res" where
  "sys_mknod me lc s =
     (let pid = cpid (myself me s)
      in kbind (begin_op s) (\<lambda>_ s.
         let major = ucast (argint me 1 s); minor = ucast (argint me 2 s)
         in kbind (argstr me 0 MAXPATHL s) (\<lambda>path s.
            kbind (case path of None \<Rightarrow> Ok None s | Some path \<Rightarrow> create me lc path T_DEVICE major minor s) (\<lambda>r s.
            case r of
              None \<Rightarrow> kbind (end_op pid s) (\<lambda>_ s. Ok (-1) s)
            | Some ip \<Rightarrow> kbind (iunlockput pid ip s) (\<lambda>_ s. kbind (end_op pid s) (\<lambda>_ s. Ok 0 s))))))"

definition sys_chdir :: "nat \<Rightarrow> locals \<Rightarrow> 'a filest_scheme \<Rightarrow> ('a filest_scheme, int) res" where
  "sys_chdir me lc s =
     (let p = myself me s; pid = cpid p
      in kbind (begin_op s) (\<lambda>_ s.
         kbind (argstr me 0 MAXPATHL s) (\<lambda>path s.
         kbind (case path of None \<Rightarrow> Ok None s | Some path \<Rightarrow> namei p (my_cwd me s) (l_name lc) path s) (\<lambda>r s.
         case r of
           None \<Rightarrow> kbind (end_op pid s) (\<lambda>_ s. Ok (-1) s)
         | Some ip \<Rightarrow>
             kbind (ilock pid ip s) (\<lambda>_ s.
             if i_type (itable s ! ip) \<noteq> T_DIR
             then kbind (iunlockput pid ip s) (\<lambda>_ s. kbind (end_op pid s) (\<lambda>_ s. Ok (-1) s))
             else kbind (iunlock pid ip s) (\<lambda>_ s.
                  kbind (iput pid (my_cwd me s) s) (\<lambda>_ s.
                  kbind (end_op pid s) (\<lambda>_ s.
                  Ok 0 (upd_proc me (\<lambda>q. q\<lparr>p_cwd := Some ip\<rparr>) s))))))))) "

end
