(* ===== verification/Syscall.thy ===== *)
theory Syscall
  imports Sysfile
begin

section \<open>System calls on processes, dispatch and traps\<close>

text \<open>
  \<^verbatim>\<open>sys_exec\<close> and \<^verbatim>\<open>sys_pipe\<close> of \<^verbatim>\<open>kernel/sysfile.c\<close>, \<^verbatim>\<open>kernel/sysproc.c\<close>, the dispatch of
  \<^verbatim>\<open>kernel/syscall.c\<close> and the trap handlers of \<^verbatim>\<open>kernel/trap.c\<close>.
\<close>

subsection \<open>Exec and pipe\<close>

fun free_args :: "addr list \<Rightarrow> 'a filest_scheme \<Rightarrow> ('a filest_scheme, unit) res" where
  "free_args [] s = Ok () s"
| "free_args (a # as) s = kbind (on_km (kfree a) s) (\<lambda>_ s. free_args as s)"

text \<open>
  The loop that fetches the arguments: the pages allocated so far and the strings in them. The
  result \<open>None\<close> is the jump to \<^verbatim>\<open>bad\<close>. Slot \<open>i\<close> counts up to \<open>MAXARG\<close>; the argument \<open>k\<close> is
  \<open>MAXARG - i\<close>.
\<close>

fun fetch_args :: "nat \<Rightarrow> uint64 \<Rightarrow> nat \<Rightarrow> nat \<Rightarrow> addr list \<Rightarrow> bytes list \<Rightarrow> 'a filest_scheme \<Rightarrow> ('a filest_scheme, addr list \<times> bytes list option) res" where
  "fetch_args me uargv i 0 pgs strs s = Ok (pgs, None) s"
| "fetch_args me uargv i (Suc k) pgs strs s =
     kbind (fetchaddr me (uargv + 8 * of_nat i) s) (\<lambda>uarg s.
       case uarg of
         None \<Rightarrow> Ok (pgs, None) s
       | Some uarg \<Rightarrow>
           if uarg = 0 then Ok (pgs, Some strs) s
           else kbind (on_km kalloc s) (\<lambda>a s.
                if a = 0 then Ok (pgs, None) s
                else kbind (fetchstr me uarg PGSIZE s) (\<lambda>str s.
                     case str of
                       None \<Rightarrow> Ok (pgs @ [a], None) s
                     | Some str \<Rightarrow>
                         fetch_args me uargv (Suc i) k (pgs @ [a]) (strs @ [str])
                           (s\<lparr>km := (km s)\<lparr>mem := put_bytes (mem (km s)) a (str @ [0])\<rparr>\<rparr>))))"

definition sys_exec :: "nat \<Rightarrow> locals \<Rightarrow> 'a filest_scheme \<Rightarrow> ('a filest_scheme, int) res" where
  "sys_exec me lc s =
     (let uargv = argaddr me 1 s
      in kbind (argstr me 0 MAXPATHL s) (\<lambda>path s.
         case path of None \<Rightarrow> Ok (-1) s | Some path \<Rightarrow>
         kbind (fetch_args me uargv 0 MAXARG [] [] s) (\<lambda>(pgs, r) s.
         case r of
           None \<Rightarrow> kbind (free_args pgs s) (\<lambda>_ s. Ok (-1) s)
         | Some argv \<Rightarrow>
             kbind (kexec me (l_name lc) path argv s) (\<lambda>ret s.
             kbind (free_args pgs s) (\<lambda>_ s. Ok ret s)))))"

definition int_bytes :: "int \<Rightarrow> bytes" where
  "int_bytes v = wr32 (replicate 4 0) 0 (of_int v)"

definition sys_pipe :: "nat \<Rightarrow> 'a filest_scheme \<Rightarrow> ('a filest_scheme, int) res" where
  "sys_pipe me s =
     (let fdarray = argaddr me 0 s; p = myself me s
      in kbind (pipealloc me s) (\<lambda>r s.
         case r of
           None \<Rightarrow> Ok (-1) s
         | Some (rfl, wfl) \<Rightarrow>
             (let (fd0, s) = fdalloc me rfl s
              in if fd0 < 0 then kbind (fileclose me rfl s) (\<lambda>_ s. kbind (fileclose me wfl s) (\<lambda>_ s. Ok (-1) s))
                 else let (fd1, s) = fdalloc me wfl s
                 in if fd1 < 0
                    then kbind (fileclose me rfl (clear_fd me (nat fd0) s)) (\<lambda>_ s. kbind (fileclose me wfl s) (\<lambda>_ s. Ok (-1) s))
                    else kbind (on_km (copyout (csz p) (cpt p) (cpt p) fdarray (int_bytes fd0)) s) (\<lambda>r s.
                         kbind (if r < 0 then Ok r s
                                else on_km (copyout (csz p) (cpt p) (cpt p) (fdarray + 4) (int_bytes fd1)) s) (\<lambda>r s.
                         if r < 0
                         then kbind (fileclose me rfl (clear_fd me (nat fd1) (clear_fd me (nat fd0) s))) (\<lambda>_ s.
                              kbind (fileclose me wfl s) (\<lambda>_ s. Ok (-1) s))
                         else Ok 0 s)))))"

subsection \<open>Processes\<close>

definition SBRK_EAGER :: uint32 where "SBRK_EAGER = 1"

definition sys_fork :: "nat \<Rightarrow> 'a filest_scheme \<Rightarrow> ('a filest_scheme, int) res" where
  "sys_fork me s = kfork me s"

definition sys_exit :: "nat \<Rightarrow> 'a filest_scheme \<Rightarrow> ('a filest_scheme, int) res" where
  "sys_exit me s = kbind (kexit me (argint me 0 s) s) (\<lambda>_ s. Sleep (ChProc me) s)"

definition sys_getpid :: "nat \<Rightarrow> 'a filest_scheme \<Rightarrow> ('a filest_scheme, int) res" where
  "sys_getpid me s = Ok (p_pid (procs s ! me)) s"

definition sys_wait :: "nat \<Rightarrow> 'a filest_scheme \<Rightarrow> ('a filest_scheme, int) res" where
  "sys_wait me s = kwait me (argaddr me 0 s) s"

definition sys_sbrk :: "nat \<Rightarrow> 'a filest_scheme \<Rightarrow> ('a filest_scheme, int) res" where
  "sys_sbrk me s =
     (let n = argint me 0 s; t = argint me 1 s; a = p_sz (procs s ! me); nn = (scast n :: uint64)
      in if t = SBRK_EAGER \<or> sint n < 0
         then kbind (growproc me n s) (\<lambda>r s. if r < 0 then Ok (-1) s else Ok (uint a) s)
         else if a + nn < a then Ok (-1) s
         else if a + nn > TRAPFRAME then Ok (-1) s
         else Ok (uint a) (upd_proc me (\<lambda>p. p\<lparr>p_sz := p_sz p + nn\<rparr>) s))"

text \<open>
  One test of the loop of \<^verbatim>\<open>sys_pause\<close>, which started at \<open>ticks0\<close>; the subtraction and the comparison
  are unsigned.
\<close>

definition pause_from :: "nat \<Rightarrow> uint32 \<Rightarrow> uint32 \<Rightarrow> 'a filest_scheme \<Rightarrow> ('a filest_scheme, int) res" where
  "pause_from me ticks0 n s =
     (if kticks s - ticks0 < n
      then if killed me s then Ok (-1) s else Sleep ChTicks (sleep_on me ChTicks s)
      else Ok 0 s)"

definition sys_pause :: "nat \<Rightarrow> 'a filest_scheme \<Rightarrow> ('a filest_scheme, int) res" where
  "sys_pause me s =
     (let n = argint me 0 s; n = (if sint n < 0 then 0 else n) in pause_from me (kticks s) n s)"

definition sys_kill :: "nat \<Rightarrow> 'a filest_scheme \<Rightarrow> ('a filest_scheme, int) res" where
  "sys_kill me s = kkill (sint (argint me 0 s)) s"

definition sys_uptime :: "nat \<Rightarrow> 'a filest_scheme \<Rightarrow> ('a filest_scheme, int) res" where
  "sys_uptime me s = Ok (uint (kticks s)) s"

subsection \<open>Dispatch\<close>

text \<open>The table \<^verbatim>\<open>syscalls\<close>, indexed by the numbers of \<^verbatim>\<open>syscall.h\<close>.\<close>

definition syscall_table :: "nat \<Rightarrow> locals \<Rightarrow> ('a filest_scheme \<Rightarrow> ('a filest_scheme, int) res) option list" where
  "syscall_table me lc =
     [None, Some (sys_fork me), Some (sys_exit me), Some (sys_wait me), Some (sys_pipe me), Some (sys_read me),
      Some (sys_kill me), Some (sys_exec me lc), Some (sys_fstat me lc), Some (sys_chdir me lc), Some (sys_dup me),
      Some (sys_getpid me), Some (sys_sbrk me), Some (sys_pause me), Some (sys_uptime me), Some (sys_open me lc),
      Some (sys_write me), Some (sys_mknod me lc), Some (sys_unlink me lc), Some (sys_link me lc), Some (sys_mkdir me lc),
      Some (sys_close me)]"

text \<open>\<^verbatim>\<open>"%d %s: unknown sys call %d\n"\<close>\<close>

abbreviation unknown_fmt :: bytes where
  "unknown_fmt \<equiv> [0x25, 0x64, 0x20, 0x25, 0x73, 0x3a, 0x20, 0x75, 0x6e, 0x6b, 0x6e, 0x6f, 0x77, 0x6e, 0x20, 0x73, 0x79, 0x73,
                  0x20, 0x63, 0x61, 0x6c, 0x6c, 0x20, 0x25, 0x64, 10]"

definition syscall :: "nat \<Rightarrow> locals \<Rightarrow> 'a filest_scheme \<Rightarrow> ('a filest_scheme, unit) res" where
  "syscall me lc s =
     (let num = (ucast (tf_get me TF_A7 s) :: uint32); tab = syscall_table me lc
      in case (if sint num > 0 \<and> sint num < int (length tab) then tab ! nat (sint num) else None) of
           Some f \<Rightarrow> kbind (f s) (\<lambda>r s. Ok () (tf_put me TF_A0 (of_int r) s))
         | None \<Rightarrow>
             kbind (kprintf unknown_fmt [AInt (of_int (p_pid (procs s ! me))), AStr (Some (cstr (p_name (procs s ! me)))), AInt num] s)
               (\<lambda>_ s. Ok () (tf_put me TF_A0 (- 1) s)))"

subsection \<open>Traps\<close>

text \<open>
  The registers a trap handler reads: the cause, the faulting address and program counter, the
  status, the timer, and the interrupt number that the interrupt controller gives.
\<close>

record trapregs =
  t_scause :: uint64
  t_stval :: uint64
  t_sepc :: uint64
  t_sstatus :: uint64
  t_time :: uint64
  t_irq :: int
  t_hart :: nat

definition CLOCK_INTERVAL :: uint64 where "CLOCK_INTERVAL = 270000"
definition UART0_IRQ :: int where "UART0_IRQ = 16"

text \<open>What the handler does to the devices: the next timer interrupt set, the interrupts completed.\<close>

record trapout =
  o_timecmp :: "uint64 option"
  o_complete :: "int option"

definition external_irq :: "nat option \<Rightarrow> trapregs \<Rightarrow> bytes \<Rightarrow> 'a filest_scheme \<Rightarrow> ('a filest_scheme, int option) res" where
  "external_irq me t msg s =
     kbind (if t_irq t = UART0_IRQ then uartintr me s
            else if t_irq t \<noteq> 0 then kprintf msg [AInt (of_int (t_irq t))] s
            else Ok () s) (\<lambda>_ s. Ok (if t_irq t \<noteq> 0 then Some (t_irq t) else None) s)"

definition clock_tick :: "nat option \<Rightarrow> 'a filest_scheme \<Rightarrow> 'a filest_scheme" where
  "clock_tick me s = wakeup me ChTicks (s\<lparr>kticks := kticks s + 1\<rparr>)"

text \<open>
  \<^verbatim>\<open>kerneltrap\<close>. An exception in the kernel reboots the board (\<open>Panic\<close>). The result says what was
  done to the devices; the state has the process as \<open>RUNNABLE\<close> when it gave up the processor.
  \<open>kmsg\<close> is the format of the message on an unexpected interrupt.
\<close>

definition kerneltrap :: "nat option \<Rightarrow> trapregs \<Rightarrow> bytes \<Rightarrow> bytes \<Rightarrow> 'a filest_scheme \<Rightarrow> ('a filest_scheme, trapout) res" where
  "kerneltrap me t kmsg umsg s =
     (if t_sstatus t AND SSTATUS_SPP = 0 then Panic ''kerneltrap: not from supervisor mode''
      else if t_sstatus t AND SSTATUS_SIE \<noteq> 0 then Panic ''kerneltrap: interrupts enabled''
      else if t_scause t AND 0x8000000000000000 = 0 then Panic ''KERNEL PANIC: EXCEPTION''
      else let which_int = t_scause t AND 0xff
      in if which_int = 5
         then let s = (if t_hart t = 0 then clock_tick me s else s);
                  s = (case me of Some i \<Rightarrow> if p_state (procs s ! i) = RUNNING then yield i s else s | None \<Rightarrow> s)
              in Ok \<lparr>o_timecmp = Some (t_time t + CLOCK_INTERVAL), o_complete = None\<rparr> s
         else if which_int = 9
         then kbind (external_irq me t kmsg s) (\<lambda>c s. Ok \<lparr>o_timecmp = None, o_complete = c\<rparr> s)
         else kbind (kprintf umsg [ALong (t_scause t)] s) (\<lambda>_ s. Ok \<lparr>o_timecmp = None, o_complete = None\<rparr> s))"

text \<open>
  The part of \<^verbatim>\<open>usertrap\<close> that depends on the cause: what was done to the devices and whether it was
  a timer interrupt. \<open>msgs\<close> are the three formats of the messages it may print.
\<close>

definition handle_trap :: "nat \<Rightarrow> locals \<Rightarrow> trapregs \<Rightarrow> bytes \<times> bytes \<times> bytes \<Rightarrow> 'a filest_scheme \<Rightarrow> ('a filest_scheme, trapout \<times> bool) res" where
  "handle_trap me lc t msgs s =
     (let none = \<lparr>o_timecmp = None, o_complete = None\<rparr>; p = myself me s; (imsg, fmsg, xmsg) = msgs
      in if t_scause t = 8
         then if killed me s then kbind (kexit me (- 1) s) (\<lambda>_ s. Sleep (ChProc me) s)
              else kbind (syscall me lc (tf_put me TF_EPC (tf_get me TF_EPC s + 4) s)) (\<lambda>_ s. Ok (none, False) s)
         else if t_scause t = 0x8000000000000005
         then Ok (none\<lparr>o_timecmp := Some (t_time t + CLOCK_INTERVAL)\<rparr>, True) s
         else if t_scause t = 0x8000000000000009
         then kbind (external_irq (Some me) t imsg s) (\<lambda>c s. Ok (none\<lparr>o_complete := c\<rparr>, False) s)
         else if t_scause t = 15 \<or> t_scause t = 13
         then kbind (on_km (vmfault (csz p) (cpt p) (cpt p) (t_stval t)) s) (\<lambda>r s.
              if r \<noteq> 0 then Ok (none, False) s
              else kbind (kprintf fmsg [AInt (of_int (cpid p)), ALong (t_scause t), ALong (t_stval t)] s) (\<lambda>_ s.
                   Ok (none, False) (setkilled me s)))
         else kbind (kprintf xmsg [ALong (t_scause t), AInt (of_int (cpid p)), ALong (t_sepc t), ALong (t_stval t)] s) (\<lambda>_ s.
              Ok (none, False) (setkilled me s)))"

definition usertrap :: "nat \<Rightarrow> locals \<Rightarrow> trapregs \<Rightarrow> bytes \<times> bytes \<times> bytes \<Rightarrow> csrs \<Rightarrow> 'a filest_scheme \<Rightarrow>
    ('a filest_scheme, uint64 \<times> csrs \<times> trapout) res" where
  "usertrap me lc t msgs c s =
     (if t_sstatus t AND SSTATUS_SPP \<noteq> 0 then Panic ''usertrap: not from user''
      else kbind (handle_trap me lc t msgs (tf_put me TF_EPC (t_sepc t) s)) (\<lambda>(out, timer) s.
        if killed me s then kbind (kexit me (- 1) s) (\<lambda>_ s. Sleep (ChProc me) s)
        else let s = (if timer then yield me s else s);
                 (c, s) = prepare_return me c s
             in Ok (MAKE_SATP (p_pagetable (procs s ! me)), c, out) s))"

end
