(* ===== verification/Quiet.thy ===== *)
theory Quiet
  imports Frame Syscall
begin

section \<open>What the rest of the kernel leaves alone\<close>

text \<open>
  The contract of the previous theory for the operations on the console, on open files and on
  processes: an observation that does not look at the console, the memory, the contents of pipes
  and inodes, nor at anything of a process but its descriptors, its identity, its parent and
  whether it exists, is the same after all of them that do not create, end or rename such things.
\<close>

definition dead :: "proc \<Rightarrow> bool" where
  "dead p \<longleftrightarrow> p_state p = UNUSED \<or> p_state p = ZOMBIE"

definition same_proc :: "proc \<Rightarrow> proc \<Rightarrow> bool" where
  "same_proc p q \<longleftrightarrow> p_ofile q = p_ofile p \<and> p_pid q = p_pid p \<and> p_parent q = p_parent p \<and>
     (p_state q = UNUSED \<longleftrightarrow> p_state p = UNUSED) \<and> (p_state q = ZOMBIE \<longleftrightarrow> p_state p = ZOMBIE)"

lemma keeps_blocking: "keeps g v m \<Longrightarrow> keeps g v (blocking me m)"
  by (cases m) (simp_all add: blocking_def)

lemma syscall_ensures:
  fixes s :: "'a filest_scheme"
  assumes f: "\<And>f. Some f \<in> set (syscall_table me lc) \<Longrightarrow> ensures (\<lambda>_. I) (f s)"
    and put: "\<And>x t. I t \<Longrightarrow> I (tf_put me TF_A0 x t)" and out: "\<And>u a. ensures (\<lambda>_. I) (kprintf u a s)"
  shows "ensures (\<lambda>_. I) (syscall me lc s)"
  unfolding syscall_def Let_def
proof (rule ensures_case_option)
  show "ensures (\<lambda>_. I) (kbind (kprintf u a s) (\<lambda>_ s. Ok () (tf_put me TF_A0 (- 1) s)))" for u a
    by (rule ensures_bind [OF out]) (simp add: put)
  fix f :: "'a filest_scheme \<Rightarrow> ('a filest_scheme, int) res"
  let ?num = "sint (ucast (tf_get me TF_A7 s) :: 32 word)" and ?tab = "syscall_table me lc :: ('a filest_scheme \<Rightarrow> ('a filest_scheme, int) res) option list"
  assume "(if 0 < ?num \<and> ?num < int (length ?tab) then ?tab ! nat ?num else None) = Some f"
  then have "?tab ! nat ?num = Some f" "nat ?num < length ?tab" by (simp_all add: nat_less_iff split: if_splits)
  then have "Some f \<in> set ?tab" by (metis nth_mem)
  from f [OF this] show "ensures (\<lambda>_. I) (kbind (f s) (\<lambda>r s. Ok () (tf_put me TF_A0 (of_int r) s)))"
    by (rule ensures_bind) (simp add: put)
qed

locale quiet_frame = fs_frame g for g :: "'a filest_scheme \<Rightarrow> 'o" +
  assumes proc_kept: "(\<And>p. same_proc p (h p)) \<Longrightarrow> g (upd_proc i h s) = g s"
    and file_kept: "(\<And>f. f_ref (k f) = f_ref f) \<Longrightarrow> g (upd_file i k s) = g s"
    and woken_up [simp]: "g (wakeup me c s) = g s"
    and pipe [simp]: "g (upd_pipe a q s) = g s"
    and console [simp]: "g (s\<lparr>cons_r := r\<rparr>) = g s" "g (s\<lparr>uart_wr := w\<rparr>) = g s" "g (s\<lparr>uart_tx_busy := b\<rparr>) = g s" "g (s\<lparr>lsr_in := l\<rparr>) = g s"
begin

lemma frame_put [simp]: "g (tf_put i f x s) = g s"
  by (simp add: tf_put_def)

lemma on_km_quiet: "g s = v \<Longrightarrow> keeps g v (on_km f s)"
  unfolding on_km_def by (rule on_km_keeps)

lemma uartwrite_quiet: "g s = v \<Longrightarrow> keeps g v (uartwrite bs s)"
proof -
  have "g (snd (uartwrite_from cr bs s)) = g s" for cr
    by (induction cr bs s rule: uartwrite_from.induct) (simp_all add: write_reg_def)
  then show "g s = v \<Longrightarrow> keeps g v (uartwrite bs s)" by (simp add: uartwrite_def split_beta)
qed

lemma put_chars_quiet: "g s = v \<Longrightarrow> keeps g v (put_chars cs s)"
proof (induction cs arbitrary: s)
  case (Cons c cs)
  have "keeps g v (uartputc_sync (ucast c) s)"
    using Cons.prems unfolding uartputc_sync_def wait_idle_def write_reg_def by (intro keeps_intros; simp split: option.splits)
  then show ?case unfolding put_chars.simps by (intro keeps_intros Cons.IH)
qed simp

lemma kprintf_quiet: "g s = v \<Longrightarrow> keeps g v (kprintf f as s)"
  unfolding kprintf_def by (intro keeps_intros put_chars_quiet; simp)

lemma consoleread_from_quiet: "g s = v \<Longrightarrow> keeps g v (consoleread_from me u dst n target s)"
proof (induction n arbitrary: dst s rule: less_induct)
  case (less n)
  show ?case
    by (subst consoleread_from.simps) (intro keeps_intros on_km_quiet less.IH; simp add: less.prems)
qed

lemma consolewrite_from_quiet: "g s = v \<Longrightarrow> keeps g v (consolewrite_from me u src n i s)"
proof (induction "n - i" arbitrary: i s rule: less_induct)
  case less
  show ?case
    by (subst consolewrite_from.simps) (intro keeps_intros on_km_quiet uartwrite_quiet; simp add: less split: sum.split)
qed

lemmas quiet_rules = on_km_quiet keeps_blocking fs_keeps kprintf_quiet

lemma pipewrite_from_quiet: "g s = v \<Longrightarrow> keeps g v (pipewrite_from me a u n i s)"
proof (induction "n - i" arbitrary: i s rule: less_induct)
  case less
  show ?case
    by (subst pipewrite_from.simps) (intro keeps_intros on_km_quiet less.hyps; simp add: less.prems)
qed

lemma piperead_loop_quiet: "g s = v \<Longrightarrow> keeps g v (piperead_loop me a u i k s)"
proof (induction k arbitrary: i s)
  case (Suc k)
  show ?case unfolding piperead_loop.simps by (intro keeps_intros on_km_quiet Suc.IH; simp add: Suc.prems)
qed simp

lemma filewrite_loop_quiet: "g s = v \<Longrightarrow> keeps g v (filewrite_loop k me i a n d s)"
proof (induction k arbitrary: d s)
  case (Suc k)
  show ?case unfolding filewrite_loop.simps by (intro keeps_intros quiet_rules Suc.IH; simp add: Suc.prems file_kept)
qed simp

lemma fileread_quiet: "g s = v \<Longrightarrow> keeps g v (fileread me i a n s)"
  unfolding fileread_def piperead_def consoleread_def
  by (cases "f_type (ftable s ! i)"; simp only: Let_def fdtype.case)
     (intro keeps_intros quiet_rules piperead_loop_quiet consoleread_from_quiet; simp add: file_kept split: sum.split)+

lemma filewrite_quiet: "g s = v \<Longrightarrow> keeps g v (filewrite me i a n s)"
  unfolding filewrite_def pipewrite_def consolewrite_def
  by (cases "f_type (ftable s ! i)"; simp only: Let_def fdtype.case)
     (intro keeps_intros quiet_rules pipewrite_from_quiet consolewrite_from_quiet filewrite_loop_quiet; simp add: file_kept split: sum.split)+

lemma filestat_quiet: "g s = v \<Longrightarrow> keeps g v (filestat me pad i a s)"
  unfolding filestat_def by (intro keeps_intros quiet_rules; simp)

lemma argstr_quiet: "g s = v \<Longrightarrow> keeps g v (argstr me n mx s)"
  unfolding argstr_def fetchstr_def by (intro keeps_intros quiet_rules; simp)

lemma fetchaddr_quiet: "g s = v \<Longrightarrow> keeps g v (fetchaddr me a s)"
  unfolding fetchaddr_def by (intro keeps_intros quiet_rules; simp)

lemma link_bad_quiet: "g s = v \<Longrightarrow> keeps g v (link_bad pid ip s)"
  unfolding link_bad_def by (intro keeps_intros quiet_rules; simp)

lemma sys_link_quiet: "g s = v \<Longrightarrow> keeps g v (sys_link me lc s)"
  unfolding sys_link_def by (intro keeps_intros quiet_rules argstr_quiet link_bad_quiet; simp)

lemma isdirempty_loop_quiet: "g s = v \<Longrightarrow> keeps g v (isdirempty_loop p dp sz off s)"
proof (induction "sz - off" arbitrary: off s rule: less_induct)
  case less
  show ?case
    by (subst isdirempty_loop.simps) (intro keeps_intros quiet_rules less.hyps; simp add: less.prems)
qed

lemma sys_unlink_quiet: "g s = v \<Longrightarrow> keeps g v (sys_unlink me lc s)"
  unfolding sys_unlink_def unlink_bad_def isdirempty_def by (intro keeps_intros quiet_rules argstr_quiet isdirempty_loop_quiet; simp)

lemma create_quiet: "g s = v \<Longrightarrow> keeps g v (create me lc path ty mj mn s)"
  unfolding create_def create_fail_def link_dots_def by (intro keeps_intros quiet_rules; simp)

lemma sys_mkdir_quiet: "g s = v \<Longrightarrow> keeps g v (sys_mkdir me lc s)"
  unfolding sys_mkdir_def by (intro keeps_intros quiet_rules argstr_quiet create_quiet; simp)

lemma sys_mknod_quiet: "g s = v \<Longrightarrow> keeps g v (sys_mknod me lc s)"
  unfolding sys_mknod_def by (intro keeps_intros quiet_rules argstr_quiet create_quiet; simp)

lemma sys_chdir_quiet: "g s = v \<Longrightarrow> keeps g v (sys_chdir me lc s)"
  unfolding sys_chdir_def by (intro keeps_intros quiet_rules argstr_quiet; simp add: proc_kept same_proc_def dead_def)

lemma loadseg_loop_quiet: "g s = v \<Longrightarrow> keeps g v (loadseg_loop p pt va ip off sz i s)"
proof (induction "sz - i" arbitrary: i s rule: less_induct)
  case less
  have step: "i < sz \<Longrightarrow> sz - (i + min (sz - i) (4096 - k mod 4096)) < sz - i" for k
    using mod_less_divisor [of 4096 k] by linarith
  show ?case
    by (subst loadseg_loop.simps) (intro keeps_intros quiet_rules less.hyps; simp add: less.prems step)
qed

lemma load_segments_quiet: "g s = v \<Longrightarrow> keeps g v (load_segments p ip pt off k sz s)"
proof (induction k arbitrary: off sz s)
  case (Suc k)
  show ?case unfolding load_segments.simps loadseg_def by (intro keeps_intros quiet_rules loadseg_loop_quiet Suc.IH; simp add: Suc.prems)
qed simp

lemma push_args_quiet: "g s = v \<Longrightarrow> keeps g v (push_args p pt base as argc sp us s)"
proof (induction as arbitrary: argc sp us s)
  case (Cons a as)
  show ?case unfolding push_args.simps by (intro keeps_intros quiet_rules Cons.IH; simp add: Cons.prems)
qed simp

lemma exec_bad_quiet: "g s = v \<Longrightarrow> keeps g v (exec_bad p pt sz ip s)"
  unfolding exec_bad_def by (intro keeps_intros quiet_rules; simp)

lemma exec_commit_quiet: "g s = v \<Longrightarrow> keeps g v (exec_commit me path argv elf pt sz s)"
  unfolding exec_commit_def by (intro keeps_intros quiet_rules push_args_quiet exec_bad_quiet; simp add: proc_kept same_proc_def dead_def)

lemma kexec_quiet: "g s = v \<Longrightarrow> keeps g v (kexec me name0 path argv s)"
  unfolding kexec_def by (intro keeps_intros quiet_rules load_segments_quiet exec_bad_quiet exec_commit_quiet; simp)

lemma free_args_quiet: "g s = v \<Longrightarrow> keeps g v (free_args as s)"
proof (induction as arbitrary: s)
  case (Cons a as)
  show ?case unfolding free_args.simps by (intro keeps_intros quiet_rules Cons.IH; simp add: Cons.prems)
qed simp

lemma fetch_args_quiet: "g s = v \<Longrightarrow> keeps g v (fetch_args me ua i k pgs strs s)"
proof (induction k arbitrary: i pgs strs s)
  case (Suc k)
  show ?case unfolding fetch_args.simps fetchstr_def by (intro keeps_intros quiet_rules fetchaddr_quiet Suc.IH; simp add: Suc.prems)
qed simp

lemma sys_exec_quiet: "g s = v \<Longrightarrow> keeps g v (sys_exec me lc s)"
  unfolding sys_exec_def by (intro keeps_intros argstr_quiet fetch_args_quiet free_args_quiet kexec_quiet; simp)

lemma growproc_quiet: "g s = v \<Longrightarrow> keeps g v (growproc me n s)"
  unfolding growproc_def by (intro keeps_intros quiet_rules; simp add: proc_kept same_proc_def dead_def)

lemma sys_sbrk_quiet: "g s = v \<Longrightarrow> keeps g v (sys_sbrk me s)"
  unfolding sys_sbrk_def by (intro keeps_intros growproc_quiet; simp add: proc_kept same_proc_def dead_def)

lemma kkill_quiet: "g s = v \<Longrightarrow> keeps g v (kkill pid s)"
  unfolding kkill_def by (intro keeps_intros; simp add: proc_kept same_proc_def dead_def)

end

end
