(* ===== verification/Fdref.thy ===== *)
theory Fdref
  imports Quiet Bss "HOL-Library.Multiset"
begin

section \<open>Open files and descriptors\<close>

text \<open>
  The reference count of an open file is the number of descriptors that name it, in the tables of
  all processes. An operation in progress may hold further references, a multiset \<open>E\<close>. The
  observation \<open>fobs\<close> is all that the invariant depends on; most operations do not change it.
\<close>

definition fds :: "'a filest_scheme \<Rightarrow> (nat option list \<times> bool) list" where
  "fds s = map (\<lambda>p. (p_ofile p, dead p)) (procs s)"

definition frefs :: "'a filest_scheme \<Rightarrow> int list" where
  "frefs s = map f_ref (ftable s)"

definition fobs :: "'a filest_scheme \<Rightarrow> (nat option list \<times> bool) list \<times> int list" where
  "fobs s = (fds s, frefs s)"

definition refs_good :: "nat multiset \<Rightarrow> (nat option list \<times> bool) list \<Rightarrow> int list \<Rightarrow> bool" where
  "refs_good E ps rs \<longleftrightarrow>
     (\<forall>f < length rs. rs ! f = int ((\<Sum>p\<leftarrow>ps. count_list (fst p) (Some f)) + count E f)) \<and>
     (\<forall>p \<in> set ps. length (fst p) = NOFILE \<and> (\<forall>f. Some f \<in> set (fst p) \<longrightarrow> f < length rs) \<and> (snd p \<longrightarrow> set (fst p) \<subseteq> {None})) \<and>
     (\<forall>f \<in># E. f < length rs)"

definition fd_inv :: "nat multiset \<Rightarrow> 'a filest_scheme \<Rightarrow> bool" where
  "fd_inv E s \<longleftrightarrow> refs_good E (fds s) (frefs s)"

lemma fd_inv_obs: "fobs t = fobs s \<Longrightarrow> fd_inv E t = fd_inv E s"
  by (simp add: fd_inv_def fobs_def)

lemma count_list_update:
  "i < length xs \<Longrightarrow> count_list (xs[i := y]) x + (if xs ! i = x then 1 else 0) = count_list xs x + (if y = x then 1 else 0)"
proof (induction xs arbitrary: i)
  case (Cons a xs)
  show ?case
  proof (cases i)
    case (Suc j)
    then show ?thesis using Cons.IH [of j] Cons.prems by (simp split: if_splits)
  qed simp
qed simp

lemma sum_list_map_update:
  fixes h :: "'b \<Rightarrow> nat"
  shows "i < length ps \<Longrightarrow> (\<Sum>p\<leftarrow>ps[i := q]. h p) + h (ps ! i) = (\<Sum>p\<leftarrow>ps. h p) + h q"
proof (induction ps arbitrary: i)
  case (Cons a ps)
  then show ?case using Cons.IH [of "i - 1"] by (cases i) simp_all
qed simp

subsection \<open>Changes of a descriptor and of a count\<close>

definition slot_ref :: "nat option \<Rightarrow> nat \<Rightarrow> nat" where
  "slot_ref y k = (if y = Some k then 1 else 0)"

lemma refs_goodD:
  assumes "refs_good E ps rs"
  shows "f < length rs \<Longrightarrow> rs ! f = int ((\<Sum>p\<leftarrow>ps. count_list (fst p) (Some f)) + count E f)"
    "i < length ps \<Longrightarrow> length (fst (ps ! i)) = NOFILE"
    "i < length ps \<Longrightarrow> Some f \<in> set (fst (ps ! i)) \<Longrightarrow> f < length rs"
    "i < length ps \<Longrightarrow> snd (ps ! i) \<Longrightarrow> set (fst (ps ! i)) \<subseteq> {None}"
    "f \<in># E \<Longrightarrow> f < length rs"
  using assms nth_mem [of i ps] by (auto simp: refs_good_def)

lemma refs_slot:
  assumes g: "refs_good E ps rs" and i: "i < length ps" and fd: "fd < NOFILE"
    and y: "\<And>f. y = Some f \<Longrightarrow> f < length rs"
    and E: "\<And>k. count E' k + slot_ref y k = count E k + slot_ref (fst (ps ! i) ! fd) k" "\<And>f. f \<in># E' \<Longrightarrow> f < length rs"
  shows "refs_good E' (ps[i := ((fst (ps ! i))[fd := y], False)]) rs"
proof -
  let ?o = "fst (ps ! i)" and ?q = "((fst (ps ! i))[fd := y], False)"
  have l: "length ?o = NOFILE" using refs_goodD(2) [OF g i] .
  have "rs ! k = int ((\<Sum>p\<leftarrow>ps[i := ?q]. count_list (fst p) (Some k)) + count E' k)" if "k < length rs" for k
    using refs_goodD(1) [OF g that] sum_list_map_update [OF i, of "\<lambda>p. count_list (fst p) (Some k)" ?q]
      count_list_update [of fd ?o y "Some k"] E(1) [of k] fd l by (simp add: slot_ref_def)
  moreover have "length (fst p) = NOFILE \<and> (\<forall>f. Some f \<in> set (fst p) \<longrightarrow> f < length rs) \<and> (snd p \<longrightarrow> set (fst p) \<subseteq> {None})"
    if "p \<in> set (ps[i := ?q])" for p
  proof -
    from that consider "p \<in> set ps" | "p = ?q" using set_update_subset_insert [of ps i ?q] by blast
    then show ?thesis
    proof cases
      case 2
      have "f < length rs" if "Some f \<in> set (?o[fd := y])" for f
        using that set_update_subset_insert [of ?o fd y] refs_goodD(3) [OF g i, of f] y by blast
      then show ?thesis using 2 l by simp
    qed (use g in \<open>simp add: refs_good_def\<close>)
  qed
  ultimately show ?thesis using E(2) unfolding refs_good_def by blast
qed

lemma refs_fill:
  assumes "refs_good (add_mset f E) ps rs" "i < length ps" "fd < NOFILE" "fst (ps ! i) ! fd = None"
  shows "refs_good E (ps[i := ((fst (ps ! i))[fd := Some f], False)]) rs"
  using refs_goodD(5) [OF assms(1)] assms(4) by (intro refs_slot [OF assms(1-3)]) (auto simp: slot_ref_def)

lemma refs_clear:
  assumes "refs_good E ps rs" "i < length ps" "fd < NOFILE" "fst (ps ! i) ! fd = Some f"
  shows "refs_good (add_mset f E) (ps[i := ((fst (ps ! i))[fd := None], False)]) rs"
proof -
  have "Some f \<in> set (fst (ps ! i))" using assms(3,4) refs_goodD(2) [OF assms(1,2)] by (metis nth_mem)
  then have "f < length rs" by (rule refs_goodD(3) [OF assms(1,2)])
  then show ?thesis using refs_goodD(5) [OF assms(1)] assms(4) by (intro refs_slot [OF assms(1-3)]) (auto simp: slot_ref_def)
qed

lemma refs_inc: "refs_good E ps rs \<Longrightarrow> f < length rs \<Longrightarrow> refs_good (add_mset f E) ps (rs[f := rs ! f + 1])"
  by (auto simp: refs_good_def nth_list_update)

lemma refs_dec:
  assumes "refs_good (add_mset f E) ps rs"
  shows "refs_good E ps (rs[f := rs ! f - 1])"
  using assms by (auto simp: refs_good_def nth_list_update)

lemma refs_held: "refs_good (add_mset f E) ps rs \<Longrightarrow> 1 \<le> rs ! f \<and> f < length rs"
  using refs_goodD(1) [of "add_mset f E" ps rs f] refs_goodD(5) [of "add_mset f E" ps rs f] by simp


subsection \<open>Operations that leave the descriptors alone\<close>

subsection \<open>Operations that leave the descriptors alone\<close>

lemma fobs_proc: "(\<And>p. p_ofile (h p) = p_ofile p \<and> dead (h p) = dead p) \<Longrightarrow> fobs (upd_proc i h s) = fobs s"
  by (cases "i < length (procs s)")
     (simp_all add: fobs_def fds_def frefs_def upd_proc_def map_update list_update_same_conv list_update_beyond)

lemma fobs_file: "(\<And>f. f_ref (h f) = f_ref f) \<Longrightarrow> fobs (upd_file i h s) = fobs s"
  by (cases "i < length (ftable s)")
     (simp_all add: fobs_def fds_def frefs_def upd_file_def map_update list_update_same_conv list_update_beyond)

lemma wakeup_loop_fds: "map (\<lambda>p. (p_ofile p, dead p)) (wakeup_loop me c i ps) = map (\<lambda>p. (p_ofile p, dead p)) ps"
  by (induction ps arbitrary: i) (auto simp: dead_def)

lemma fobs_simps [simp]:
  "fobs (wakeup me c s) = fobs s" "fobs (upd_pipe a h s) = fobs s" "fobs (setkilled i s) = fobs s" "fobs (tf_put i f v s) = fobs s"
  "fobs (s\<lparr>km := k\<rparr>) = fobs s" "fobs (s\<lparr>initproc := ip\<rparr>) = fobs s" "fobs (s\<lparr>nextpid := n\<rparr>) = fobs s"
  "fobs (s\<lparr>cons_r := r\<rparr>) = fobs s" "fobs (s\<lparr>uart_wr := w\<rparr>) = fobs s" "fobs (s\<lparr>uart_tx_busy := b\<rparr>) = fobs s" "fobs (s\<lparr>lsr_in := l\<rparr>) = fobs s"
  by (simp_all add: fobs_def fds_def frefs_def wakeup_def wakeup_loop_fds upd_pipe_def tf_put_def)
     (use fobs_proc [of "\<lambda>p. p\<lparr>p_killed := True\<rparr>" i s] in \<open>simp add: fobs_def fds_def frefs_def setkilled_def dead_def\<close>)

interpretation fd: quiet_frame fobs
  by unfold_locales (simp_all add: fobs_proc fobs_file same_proc_def dead_def, simp_all add: fobs_def fds_def frefs_def)

lemmas quiet = fd.quiet_rules

subsection \<open>Operations on descriptors\<close>

lemma fds_upd_proc:
  "fds (upd_proc i h s) = (if i < length (procs s) then (fds s)[i := (p_ofile (h (procs s ! i)), dead (h (procs s ! i)))] else fds s)"
  by (simp add: fds_def upd_proc_def map_update list_update_beyond)

lemma frefs_upd [simp]: "frefs (upd_proc i h s) = frefs s" "fds (upd_file i k s) = fds s"
  by (simp_all add: fds_def frefs_def upd_proc_def upd_file_def)

lemma frefs_upd_file: "i < length (ftable s) \<Longrightarrow> frefs (upd_file i k s) = (frefs s)[i := f_ref (k (ftable s ! i))]"
  by (simp add: frefs_def upd_file_def map_update)

lemma fds_simps [simp]: "length (fds s) = length (procs s)" "length (frefs s) = length (ftable s)"
  "i < length (procs s) \<Longrightarrow> fds s ! i = (p_ofile (procs s ! i), dead (procs s ! i))"
  "i < length (ftable s) \<Longrightarrow> frefs s ! i = f_ref (ftable s ! i)"
  by (simp_all add: fds_def frefs_def)

lemma filealloc_refs:
  assumes "fd_inv E s"
  shows "ensures (\<lambda>r t. fds t = fds s \<and> fd_inv (case r of None \<Rightarrow> E | Some f \<Rightarrow> add_mset f E) t) (filealloc s)"
proof (cases "find_slot (\<lambda>f. f_ref f = 0) (ftable s) 0")
  case (Some i)
  then have i: "i < length (ftable s)" "f_ref (ftable s ! i) = 0" using find_slot_0 by auto
  then have "refs_good (add_mset i E) (fds s) ((frefs s)[i := frefs s ! i + 1])"
    using assms by (intro refs_inc) (simp_all add: fd_inv_def)
  then show ?thesis using Some i by (simp add: filealloc_def fd_inv_def frefs_upd_file)
qed (use assms in \<open>simp add: filealloc_def\<close>)

lemma filedup_refs:
  assumes "f < length (ftable s)"
  shows "ensures (\<lambda>r t. r = f \<and> fds t = fds s \<and> frefs t = (frefs s)[f := frefs s ! f + 1]) (filedup f s)"
  using assms by (simp add: filedup_def frefs_upd_file)

text \<open>Closing drops one reference and touches no descriptor.\<close>

lemma fileclose_refs:
  assumes "f < length (ftable s)"
  shows "ensures (\<lambda>_ t. fds t = fds s \<and> frefs t = (frefs s)[f := frefs s ! f - 1]) (fileclose me f s)"
proof -
  let ?v = "(fds s, (frefs s)[f := frefs s ! f - 1])"
  have "keeps fobs ?v (fileclose me f s)"
  proof (cases "f_ref (ftable s ! f) - 1 > 0")
    case True
    then show ?thesis using assms by (simp add: fileclose_def Let_def fobs_def frefs_upd_file)
  next
    case False
    let ?s = "upd_file f (\<lambda>f. f\<lparr>f_ref := 0, f_type := FD_NONE\<rparr>) s"
    have "f_ref (ftable s ! f) < 1 \<or> f_ref (ftable s ! f) = 1" using False by linarith
    moreover have "fobs ?s = ?v" if "f_ref (ftable s ! f) = 1" using that assms by (simp add: fobs_def frefs_upd_file)
    ultimately show ?thesis using False
      by (cases "f_type (ftable s ! f)")
         (auto simp: fileclose_def Let_def pipeclose_def intro!: keeps_intros quiet)
  qed
  then show ?thesis by (auto simp: keeps_def ensures_def fobs_def)
qed

lemma fileclose_inv:
  assumes "fd_inv (add_mset f E) s"
  shows "ensures (\<lambda>_ t. fds t = fds s \<and> fd_inv E t) (fileclose me f s)"
proof -
  have f: "f < length (ftable s)" using refs_held [of f E "fds s" "frefs s"] assms by (simp add: fd_inv_def)
  show ?thesis using refs_dec [of f E "fds s" "frefs s"] assms
    by (intro ensures_mono [OF fileclose_refs [OF f]]) (simp add: fd_inv_def)
qed

definition live :: "nat \<Rightarrow> 'a filest_scheme \<Rightarrow> bool" where
  "live me s \<longleftrightarrow> me < length (procs s) \<and> \<not> dead (procs s ! me)"

lemma live_fds: "live me s \<longleftrightarrow> me < length (fds s) \<and> \<not> snd (fds s ! me)"
  by (auto simp: live_def)

lemma live_cong: "fds t = fds s \<Longrightarrow> live me t = live me s"
  by (simp only: live_fds)

lemma fdalloc_refs:
  assumes "live me s" "fdalloc me f s = (r, t)" "fd_inv E s"
  shows "(r = -1 \<and> t = s) \<or>
    (0 \<le> r \<and> nat r < NOFILE \<and> fst (fds s ! me) ! nat r = None \<and> frefs t = frefs s \<and> fds t = (fds s)[me := ((fst (fds s ! me))[nat r := Some f], False)])"
proof (cases "find_slot (\<lambda>x. x = None) (p_ofile (procs s ! me)) 0")
  case (Some fd)
  have l: "length (p_ofile (procs s ! me)) = NOFILE" using assms(1,3) refs_goodD(2) [of E "fds s" "frefs s" me] by (simp add: live_def fd_inv_def)
  have "fd < NOFILE" "p_ofile (procs s ! me) ! fd = None" using find_slot_0 [OF Some] l by auto
  then show ?thesis using Some assms(1,2) by (auto simp: fdalloc_def live_def fds_upd_proc dead_def)
qed (use assms in \<open>simp add: fdalloc_def\<close>)

lemma fdalloc_inv:
  assumes "live me s" "fdalloc me f s = (r, t)" "fd_inv (add_mset f E) s"
  shows "(r = -1 \<and> t = s) \<or> (0 \<le> r \<and> fd_inv E t \<and> live me t \<and> nat r < NOFILE \<and>
      fds t = (fds s)[me := ((fst (fds s ! me))[nat r := Some f], False)])"
proof -
  have "fd_inv E t \<and> live me t" if "nat r < NOFILE" "fst (fds s ! me) ! nat r = None" "frefs t = frefs s"
      "fds t = (fds s)[me := ((fst (fds s ! me))[nat r := Some f], False)]"
    unfolding fd_inv_def live_fds that(3,4) using refs_fill [of f E "fds s" "frefs s" me "nat r"] that(1,2) assms(1,3)
    by (simp add: fd_inv_def live_def)
  then show ?thesis using fdalloc_refs [OF assms] by (elim disjE conjE) simp_all
qed

lemma clear_fd_inv:
  assumes "fd_inv E s" "live me s" "fd < NOFILE" "fst (fds s ! me) ! fd = Some f"
  shows "fd_inv (add_mset f E) (clear_fd me fd s)" "live me (clear_fd me fd s)"
    "fds (clear_fd me fd s) = (fds s)[me := ((fst (fds s ! me))[fd := None], False)]"
proof -
  show c: "fds (clear_fd me fd s) = (fds s)[me := ((fst (fds s ! me))[fd := None], False)]"
    using assms(2) by (simp add: clear_fd_def live_def fds_upd_proc dead_def)
  have "refs_good (add_mset f E) ((fds s)[me := ((fst (fds s ! me))[fd := None], False)]) (frefs s)"
    using assms by (intro refs_clear) (simp_all add: fd_inv_def live_fds)
  then show "fd_inv (add_mset f E) (clear_fd me fd s)" unfolding fd_inv_def c by (simp add: clear_fd_def)
  show "live me (clear_fd me fd s)" using assms(2) unfolding live_fds c by simp
qed

lemma argfd_ok:
  assumes "argfd me n s = Some (fd, f)" "fd_inv E s" "live me s"
  shows "fd < NOFILE" "fst (fds s ! me) ! fd = Some f" "f < length (ftable s)"
proof -
  show fd: "fd < NOFILE" "fst (fds s ! me) ! fd = Some f"
    using assms(1,3) by (auto simp: argfd_def Let_def live_def split: if_splits)
  have "length (fst (fds s ! me)) = NOFILE" using assms(2,3) by (intro refs_goodD(2)) (simp_all add: fd_inv_def live_fds)
  then have "Some f \<in> set (fst (fds s ! me))" using fd by (metis nth_mem)
  then show "f < length (ftable s)" using refs_goodD(3) [of E "fds s" "frefs s" me f] assms(2,3) by (simp add: fd_inv_def live_fds)
qed

lemma sys_dup_inv:
  assumes inv: "fd_inv {#} s" and me: "live me s"
  shows "ensures (\<lambda>_. fd_inv {#}) (sys_dup me s)"
proof (cases "argfd me 0 s")
  case (Some a)
  obtain fd0 f r t where a: "a = (fd0, f)" and r: "fdalloc me f s = (r, t)" by (metis surj_pair)
  note f = argfd_ok(3) [OF Some [unfolded a] inv me]
  show ?thesis
  proof (cases "r < 0")
    case True
    then show ?thesis using Some a r fdalloc_refs [OF me r inv] inv by (auto simp: sys_dup_def)
  next
    case False
    then have t: "frefs t = frefs s" "fst (fds s ! me) ! nat r = None" "nat r < NOFILE"
        "fds t = (fds s)[me := ((fst (fds s ! me))[nat r := Some f], False)]" using fdalloc_refs [OF me r inv] by auto
    have "refs_good {#f#} (fds s) ((frefs s)[f := frefs s ! f + 1])" using inv f by (intro refs_inc) (simp_all add: fd_inv_def)
    then have "refs_good {#} (fds t) ((frefs t)[f := frefs t ! f + 1])" unfolding t using me t(2,3) by (intro refs_fill) (simp_all add: live_fds)
    moreover have "f < length (ftable t)" using f t(1) by (metis fds_simps(2))
    ultimately have "ensures (\<lambda>_. fd_inv {#}) (filedup f t)"
      by (intro ensures_mono [OF filedup_refs]) (simp_all add: fd_inv_def)
    then show ?thesis using Some a r False by (auto simp: sys_dup_def intro: ensures_bind)
  qed
qed (use inv in \<open>simp add: sys_dup_def\<close>)

lemma sys_close_inv:
  assumes inv: "fd_inv {#} s" and me: "live me s"
  shows "ensures (\<lambda>_. fd_inv {#}) (sys_close me s)"
proof (cases "argfd me 0 s")
  case (Some a)
  obtain fd f where a: "a = (fd, f)" by (cases a)
  note f = argfd_ok [OF Some [unfolded a] inv me]
  have "ensures (\<lambda>_. fd_inv {#}) (fileclose me f (clear_fd me fd s))"
    by (rule ensures_mono [OF fileclose_inv [OF clear_fd_inv(1) [OF inv me f(1,2)]]]) simp
  then show ?thesis using Some a by (auto simp: sys_close_def intro: ensures_bind)
qed (use inv in \<open>simp add: sys_close_def\<close>)

text \<open>Several files are closed in a row on the error paths.\<close>

lemma keeps_inv: "fd_inv E s \<Longrightarrow> (\<And>v. fobs s = v \<Longrightarrow> keeps fobs v m) \<Longrightarrow> ensures (\<lambda>_. fd_inv E) m"
  by (auto simp: keeps_def ensures_def dest: fd_inv_obs)

lemma close_then:
  assumes "fd_inv (add_mset f E) s" and "\<And>t. fds t = fds s \<Longrightarrow> fd_inv E t \<Longrightarrow> ensures P (m () t)"
  shows "ensures P (kbind (fileclose me f s) m)"
  by (rule ensures_bind [OF fileclose_inv [OF assms(1)]]) (simp add: assms(2))

definition at_rest :: "nat \<Rightarrow> 'a filest_scheme \<Rightarrow> bool" where
  "at_rest me s \<longleftrightarrow> fd_inv {#} s \<and> live me s"

lemma at_rest_obs: "fobs t = fobs s \<Longrightarrow> at_rest me t = at_rest me s"
  unfolding at_rest_def fd_inv_def live_fds fobs_def by (elim Pair_inject) (simp only:)

lemma rest_bind:
  assumes "at_rest me s" and "\<And>v. fobs s = v \<Longrightarrow> keeps fobs v m" and "\<And>r t. at_rest me t \<Longrightarrow> ensures P (f r t)"
  shows "ensures P (kbind m f)"
  using assms(1,3) at_rest_obs by (intro ensures_keeps_bind [OF assms(2) [OF refl]]) blast

lemma rest_end: "at_rest me s \<Longrightarrow> (\<And>v. fobs s = v \<Longrightarrow> keeps fobs v m) \<Longrightarrow> ensures (\<lambda>_. fd_inv {#}) m"
  by (rule keeps_inv [of "{#}" s]) (simp_all add: at_rest_def)

lemma open_inode_inv:
  fixes s :: "'a filest_scheme"
  assumes inv: "fd_inv {#} s" and me: "live me s"
  shows "ensures (\<lambda>_. fd_inv {#}) (open_inode me omode ip s)"
proof -
  have bad: "ensures (\<lambda>_. fd_inv {#}) (open_bad pid ip t)" if "fd_inv {#} t" for pid and t :: "'a filest_scheme"
    unfolding open_bad_def by (intro keeps_inv [OF that] keeps_intros quiet) simp_all
  have got: "ensures (\<lambda>_. fd_inv {#}) (let (fd, s) = fdalloc me f t
              in if fd < 0 then kbind (fileclose me f s) (\<lambda>_ s. open_bad pid ip s)
                 else let s = upd_file f h s; s = upd_file f k s
                      in kbind (if c then itrunc pid ip s else Ok () s) (\<lambda>_ s. kbind (iunlock pid ip s) (\<lambda>_ s. kbind (end_op pid s) (\<lambda>_ s. Ok fd s))))"
    if f: "fd_inv {#f#} t" "fds t = fds s" and hk: "\<And>x. f_ref (h x) = f_ref x" "\<And>x. f_ref (k x) = f_ref x"
    for f pid h k c and t :: "'a filest_scheme"
  proof -
    have lt: "live me t" using me live_cong [OF f(2)] by blast
    obtain r u where r: "fdalloc me f t = (r, u)" by (cases "fdalloc me f t")
    show ?thesis
    proof (cases "r < 0")
      case True
      then have "u = t" using fdalloc_inv [OF lt r f(1)] by auto
      then show ?thesis using True r f(1) bad by (auto intro!: close_then)
    next
      case False
      then have "fd_inv {#} u" using fdalloc_inv [OF lt r f(1)] by auto
      moreover have "fobs (upd_file f k (upd_file f h u)) = fobs u" using hk by (simp add: fobs_file)
      ultimately have "fd_inv {#} (upd_file f k (upd_file f h u))" using fd_inv_obs by blast
      then have "ensures (\<lambda>_. fd_inv {#}) (kbind (if c then itrunc pid ip (upd_file f k (upd_file f h u)) else Ok () (upd_file f k (upd_file f h u)))
          (\<lambda>_ s. kbind (iunlock pid ip s) (\<lambda>_ s. kbind (end_op pid s) (\<lambda>_ s. Ok r s))))"
        by (rule keeps_inv) (intro keeps_intros quiet; simp)
      then show ?thesis using False r by (simp add: Let_def)
    qed
  qed
  show ?thesis unfolding open_inode_def Let_def
    apply (intro ensures_if bad inv ensures_bind [OF filealloc_refs [OF inv]])
    subgoal for r t by (cases r) (auto intro!: bad got [unfolded Let_def])
    done
qed

lemma sys_open_inv:
  assumes "at_rest me s"
  shows "ensures (\<lambda>_. fd_inv {#}) (sys_open me lc s)"
proof -
  have ok: "at_rest me t \<Longrightarrow> ensures (\<lambda>_. fd_inv {#}) (open_inode me m ip t)" for m ip t
    using open_inode_inv [of t me] by (simp add: at_rest_def)
  have bad: "at_rest me t \<Longrightarrow> ensures (\<lambda>_. fd_inv {#}) (kbind (end_op pid t) (\<lambda>_ s. Ok (- 1) s))"
      "at_rest me t \<Longrightarrow> ensures (\<lambda>_. fd_inv {#}) (open_bad pid ip t)" for pid ip t
    unfolding open_bad_def by (erule rest_end, intro keeps_intros quiet; simp)+
  show ?thesis unfolding sys_open_def Let_def
    by (intro ensures_intros ok bad rest_bind [OF _ fd.argstr_quiet] rest_bind [OF _ fd.begin_op_keeps] rest_bind [OF _ fd.create_quiet]
          rest_bind [OF _ fd.namei_keeps] rest_bind [OF _ fd.ilock_keeps]; (rule assms | assumption | simp add: at_rest_def))
qed

lemma filealloc_bind:
  fixes s :: "'a filest_scheme"
  assumes "fd_inv E s" and "\<And>t. fds t = fds s \<Longrightarrow> fd_inv E t \<Longrightarrow> ensures P (f None t)"
    and "\<And>i t. fds t = fds s \<Longrightarrow> fd_inv (add_mset i E) t \<Longrightarrow> ensures P (f (Some i) t)"
  shows "ensures P (kbind (filealloc s) f)"
proof (rule ensures_bind [OF filealloc_refs [OF assms(1)]])
  fix r and t :: "'a filest_scheme"
  assume "fds t = fds s \<and> fd_inv (case r of None \<Rightarrow> E | Some f \<Rightarrow> add_mset f E) t"
  then show "ensures P (f r t)" using assms(2,3) by (cases r) simp_all
qed

lemma pipealloc_inv:
  fixes s :: "'a filest_scheme"
  assumes inv: "fd_inv {#} s"
  shows "ensures (\<lambda>r t. fds t = fds s \<and> fd_inv (case r of None \<Rightarrow> {#} | Some (f, g) \<Rightarrow> {#f, g#}) t) (pipealloc me s)"
    (is "ensures ?P _")
proof -
  have page: "ensures ?P (kbind (on_km kalloc t) (\<lambda>a s.
             if a = 0
             then kbind (fileclose me r s) (\<lambda>_ s. kbind (fileclose me w s) (\<lambda>_ s. Ok None s))
             else Ok (Some (r, w))
               (upd_file w (\<lambda>f. f\<lparr>f_type := FD_PIPE, f_readable := False, f_writable := True, f_pipe := a\<rparr>)
               (upd_file r (\<lambda>f. f\<lparr>f_type := FD_PIPE, f_readable := True, f_writable := False, f_pipe := a\<rparr>)
               (upd_pipe a (\<lambda>p. p\<lparr>pi_readopen := True, pi_writeopen := True, pi_nwrite := 0, pi_nread := 0\<rparr>) s)))))"
    if "fds t = fds s" "fd_inv {#r, w#} t" for r w and t :: "'a filest_scheme"
  proof (rule ensures_keeps_bind [OF fd.on_km_quiet [OF refl]])
    fix a and u :: "'a filest_scheme"
    assume u: "fobs u = fobs t"
    then have i: "fd_inv {#r, w#} u" "fds u = fds s" using that fd_inv_obs by (blast, simp add: fobs_def)
    let ?u = "upd_file w (\<lambda>f. f\<lparr>f_type := FD_PIPE, f_readable := False, f_writable := True, f_pipe := a\<rparr>)
               (upd_file r (\<lambda>f. f\<lparr>f_type := FD_PIPE, f_readable := True, f_writable := False, f_pipe := a\<rparr>)
               (upd_pipe a (\<lambda>p. p\<lparr>pi_readopen := True, pi_writeopen := True, pi_nwrite := 0, pi_nread := 0\<rparr>) u))"
    have "fobs ?u = fobs u" by (simp add: fobs_file)
    then have "fd_inv {#r, w#} ?u" "fds ?u = fds s" using i fd_inv_obs by (blast, simp add: fobs_def)
    moreover have "ensures ?P (kbind (fileclose me r u) (\<lambda>_ s. kbind (fileclose me w s) (\<lambda>_ s. Ok None s)))"
      using i by (intro close_then) (simp_all add: add_mset_commute)
    ultimately show "ensures ?P (if a = 0 then kbind (fileclose me r u) (\<lambda>_ s. kbind (fileclose me w s) (\<lambda>_ s. Ok None s)) else Ok (Some (r, w)) ?u)"
      by simp
  qed
  have close: "ensures ?P (kbind (close_opt me (Some r) t) (\<lambda>_ s. kbind (close_opt me None s) (\<lambda>_ s. Ok None s)))"
    if "fds t = fds s" "fd_inv {#r#} t" for r and t :: "'a filest_scheme"
    using that by (auto simp: close_opt_def intro!: close_then)
  show ?thesis unfolding pipealloc_def
  proof (rule filealloc_bind [OF inv], goal_cases)
    case (2 r t)
    then show ?case
      using page [of _ r] close by (auto simp: add_mset_commute intro!: filealloc_bind)
  qed (simp add: close_opt_def)
qed

lemma close_two:
  assumes "fd_inv {#f, g#} s"
  shows "ensures (\<lambda>_. fd_inv {#}) (kbind (fileclose me f s) (\<lambda>_ s. kbind (fileclose me g s) (\<lambda>_ s. Ok r s)))"
  using assms by (auto intro!: close_then)

lemma clear_two:
  assumes inv: "fd_inv {#} s" "live me s" "fst (fds s ! me) ! a = Some f" "fst (fds s ! me) ! b = Some g" "a < NOFILE" "b < NOFILE" "a \<noteq> b"
  shows "fd_inv {#f, g#} (clear_fd me b (clear_fd me a s))"
proof -
  note c = clear_fd_inv [OF inv(1,2,5,3)]
  have "fst (fds (clear_fd me a s) ! me) ! b = Some g" unfolding c(3) using inv by (simp add: live_def)
  then show ?thesis using clear_fd_inv(1) [OF c(1,2) inv(6)] by (simp add: add_mset_commute)
qed

lemma slot_filled:
  assumes "fd_inv E t" "live me t" "n < NOFILE" "fds u = (fds t)[me := ((fst (fds t ! me))[n := Some f], False)]"
  shows "fst (fds u ! me) ! n = Some f"
proof -
  have "length (fst (fds t ! me)) = NOFILE" "me < length (fds t)"
    using assms(1,2) refs_goodD(2) [of E "fds t" "frefs t" me] by (simp_all add: fd_inv_def live_def)
  then show ?thesis using assms(3) unfolding assms(4) by simp
qed

text \<open>The end of \<^verbatim>\<open>sys_pipe\<close>: the descriptors are stored in user memory, or given back.\<close>

lemma store_fds_inv:
  assumes inv: "fd_inv {#} s" "live me s" "fst (fds s ! me) ! a = Some f" "fst (fds s ! me) ! b = Some g" "a < NOFILE" "b < NOFILE" "a \<noteq> b"
  shows "ensures (\<lambda>_. fd_inv {#}) (kbind (on_km c s) (\<lambda>r s. kbind (if r < 0 then Ok r s else on_km (d s) s) (\<lambda>r s.
       if r < (0 :: int) then kbind (fileclose me f (clear_fd me b (clear_fd me a s))) (\<lambda>_ s. kbind (fileclose me g s) (\<lambda>_ s. Ok (-1) s)) else Ok (0 :: int) s)))"
proof -
  let ?Q = "\<lambda>_ t. fobs t = fobs s"
  have q: "keeps fobs (fobs s) m \<Longrightarrow> ensures ?Q m" for m by (simp add: keeps_def)
  have fin: "ensures (\<lambda>_. fd_inv {#}) (if r < 0 then kbind (fileclose me f (clear_fd me b (clear_fd me a t))) (\<lambda>_ s. kbind (fileclose me g s) (\<lambda>_ s. Ok (-1) s)) else Ok 0 t)"
    if "fobs t = fobs s" for t and r :: int
  proof -
    have "fd_inv {#} t" "live me t" "fds t = fds s" using that inv(1,2) fd_inv_obs live_cong by (blast, metis fobs_def prod.inject, simp add: fobs_def)
    then show ?thesis using clear_two [of t me a f b g] inv by (auto intro: close_two)
  qed
  show ?thesis
    by (intro ensures_bind [where Q = ?Q] q keeps_intros fd.on_km_quiet fin) simp_all
qed

lemma sys_pipe_inv:
  assumes rest: "at_rest me s"
  shows "ensures (\<lambda>_. fd_inv {#}) (sys_pipe me s)"
  unfolding sys_pipe_def Let_def
proof (rule ensures_bind [OF pipealloc_inv], goal_cases)
  case 1
  then show ?case using rest by (simp add: at_rest_def)
next
  case (2 r t)
  show ?case
  proof (cases r)
    case (Some fg)
    obtain f g where fg: "fg = (f, g)" by (cases fg)
    have inv: "fd_inv {#f, g#} t" and lt: "live me t" using 2 Some fg rest live_cong by (simp, auto simp: at_rest_def)
    obtain fd0 u where u: "fdalloc me f t = (fd0, u)" by (cases "fdalloc me f t")
    obtain fd1 w where w: "fdalloc me g u = (fd1, w)" by (cases "fdalloc me g u")
    show ?thesis
    proof (cases "fd0 < 0")
      case True
      then show ?thesis using fdalloc_inv [OF lt u inv] Some fg u inv by (auto intro: close_two)
    next
      case False
      then have u': "fd_inv {#g#} u" "live me u" "nat fd0 < NOFILE" "fds u = (fds t)[me := ((fst (fds t ! me))[nat fd0 := Some f], False)]"
        using fdalloc_inv [OF lt u inv] by auto
      note s0 = slot_filled [OF inv lt u'(3,4)]
      show ?thesis
      proof (cases "fd1 < 0")
        case True
        then have "w = u" using fdalloc_inv [OF u'(2) w u'(1)] by auto
        then show ?thesis using True False Some fg u w clear_fd_inv(1) [OF u'(1,2,3) s0] by (auto intro: close_two)
      next
        case False
        then have w': "fd_inv {#} w" "live me w" "nat fd1 < NOFILE" "fds w = (fds u)[me := ((fst (fds u ! me))[nat fd1 := Some g], False)]"
          using fdalloc_inv [OF u'(2) w u'(1)] by auto
        have ne: "nat fd0 \<noteq> nat fd1" using fdalloc_refs [OF u'(2) w u'(1)] False s0 by auto
        have "fst (fds w ! me) ! nat fd0 = Some f" using s0 ne u'(2) unfolding w'(4) by (simp add: live_def)
        then have "ensures (\<lambda>_. fd_inv {#}) (kbind (on_km c w) (\<lambda>r s. kbind (if r < 0 then Ok r s else on_km (d s) s) (\<lambda>r s.
           if r < (0 :: int) then kbind (fileclose me f (clear_fd me (nat fd1) (clear_fd me (nat fd0) s))) (\<lambda>_ s. kbind (fileclose me g s) (\<lambda>_ s. Ok (-1) s)) else Ok (0 :: int) s)))" for c d
          by (intro store_fds_inv [OF w'(1,2) _ slot_filled [OF u'(1,2) w'(3,4)] u'(3) w'(3) ne])
        then show ?thesis using False \<open>\<not> fd0 < 0\<close> Some fg u w by simp
      qed
    qed
  qed (use 2 in simp)
qed

subsection \<open>Creation and end of processes\<close>

lemma refs_flag:
  assumes g: "refs_good E ps rs" and i: "i < length ps" and b: "b \<Longrightarrow> set (fst (ps ! i)) \<subseteq> {None}"
  shows "refs_good E (ps[i := (fst (ps ! i), b)]) rs"
proof -
  let ?q = "(fst (ps ! i), b)"
  have "(\<Sum>p\<leftarrow>ps[i := ?q]. count_list (fst p) (Some k)) = (\<Sum>p\<leftarrow>ps. count_list (fst p) (Some k))" for k
    using sum_list_map_update [OF i, of "\<lambda>p. count_list (fst p) (Some k)" ?q] by simp
  then have "rs ! f = int ((\<Sum>p\<leftarrow>ps[i := ?q]. count_list (fst p) (Some f)) + count E f)" if "f < length rs" for f
    using refs_goodD(1) [OF g that] by simp
  moreover have "length (fst p) = NOFILE \<and> (\<forall>f. Some f \<in> set (fst p) \<longrightarrow> f < length rs) \<and> (snd p \<longrightarrow> set (fst p) \<subseteq> {None})"
    if "p \<in> set (ps[i := ?q])" for p
  proof -
    from that consider "p \<in> set ps" | "p = ?q" using set_update_subset_insert [of ps i ?q] by blast
    then show ?thesis using refs_goodD(2,3) [OF g i] b g by cases (simp_all add: refs_good_def)
  qed
  ultimately show ?thesis using refs_goodD(5) [OF g] unfolding refs_good_def by blast
qed

lemma fobs_live: "live i s \<Longrightarrow> (\<And>p. p_ofile (h p) = p_ofile p) \<Longrightarrow> \<not> dead (h (procs s ! i)) \<Longrightarrow> fobs (upd_proc i h s) = fobs s"
  by (simp add: fobs_def fds_upd_proc live_def list_update_same_conv)

lemma freeproc_fds:
  fixes s :: "'a filest_scheme"
  shows "ensures (\<lambda>_ t. frefs t = frefs s \<and> fds t = (if i < length (procs s) then (fds s)[i := (fst (fds s ! i), True)] else fds s)) (freeproc i s)"
proof -
  let ?Q = "\<lambda>_ t. fobs t = fobs s"
  have q: "keeps fobs (fobs s) m \<Longrightarrow> ensures ?Q m" for m :: "('a filest_scheme, unit) res" by (simp add: keeps_def)
  have fin: "frefs (upd_proc i h t) = frefs s \<and> fds (upd_proc i h t) = (if i < length (procs s) then (fds s)[i := (fst (fds s ! i), True)] else fds s)"
    if "fobs t = fobs s" "\<And>p. p_ofile (h p) = p_ofile p \<and> p_state (h p) = UNUSED" for h and t :: "'a filest_scheme"
  proof -
    have e: "fds t = fds s" "frefs t = frefs s" using that(1) by (simp_all add: fobs_def)
    then have "length (procs t) = length (procs s)" by (metis fds_simps(1))
    then show ?thesis using e that(2) fds_simps(3) [of i t] by (auto simp: fds_upd_proc dead_def)
  qed
  have obs: "fobs (upd_proc i (\<lambda>p. p\<lparr>p_trapframe := x\<rparr>) t) = fobs s" if "fobs t = fobs s" for x and t :: "'a filest_scheme"
    using that by (simp add: fobs_proc dead_def)
  show ?thesis unfolding freeproc_def Let_def
    by (intro ensures_bind [where Q = ?Q] q keeps_intros fd.on_km_quiet obs; (simp only: ensures_simps, intro fin)?; simp add: obs)
qed

lemma allocproc_fds:
  fixes s :: "'a filest_scheme"
  shows "ensures (\<lambda>r t. frefs t = frefs s \<and> (case r of None \<Rightarrow> fds t = fds s
      | Some i \<Rightarrow> i < length (procs s) \<and> snd (fds s ! i) \<and> fds t = (fds s)[i := (fst (fds s ! i), False)])) (allocproc s)"
    (is "ensures ?P _")
proof (cases "find_slot (\<lambda>p. p_state p = UNUSED) (procs s) 0")
  case (Some i)
  then have i: "i < length (procs s)" "dead (procs s ! i)" using find_slot_0 by (auto simp: dead_def)
  let ?ps = "(fds s)[i := (fst (fds s ! i), False)]"
  let ?v = "(?ps, frefs s)" and ?Q = "\<lambda>_ t. fobs t = (?ps, frefs s)"
  have q: "keeps fobs ?v m \<Longrightarrow> ensures ?Q m" for m :: "('a filest_scheme, 64 word) res" by (simp add: keeps_def)
  have claim: "fobs (claim_proc i s) = ?v" using i
    by (simp add: claim_proc_def allocpid_def fobs_def fds_def frefs_def upd_proc_def map_update dead_def)
  have obs: "fobs (upd_proc i h t) = ?v" if "fobs t = ?v" "\<And>p. p_ofile (h p) = p_ofile p \<and> dead (h p) = dead p" for h and t :: "'a filest_scheme"
    using that fobs_proc by metis
  have fail: "ensures ?P (kbind (freeproc i t) (\<lambda>_ s. Ok None s))" if "fobs t = ?v" for t :: "'a filest_scheme"
  proof -
    have e: "fds t = ?ps" "frefs t = frefs s" using that by (simp_all add: fobs_def)
    then have l: "length (procs t) = length (procs s)" by (metis fds_simps(1) length_list_update)
    then have "(fds t)[i := (fst (fds t ! i), True)] = fds s"
      unfolding e using i by (simp add: list_update_same_conv)
    then have "ensures (\<lambda>_ t. frefs t = frefs s \<and> fds t = fds s) (freeproc i t)" using e l i by (intro ensures_mono [OF freeproc_fds]) simp
    then show ?thesis by (rule ensures_bind) simp
  qed
  have good: "?P (Some i) t" if "fobs t = ?v" for t :: "'a filest_scheme" using that i by (simp add: fobs_def)
  show ?thesis unfolding allocproc_def Some option.case Let_def
    by (rule ensures_bind [where Q = ?Q, OF q [OF fd.on_km_quiet [OF claim]]], rule ensures_if, (intro fail obs; simp add: dead_def),
        rule ensures_bind [where Q = ?Q, OF q [OF fd.on_km_quiet]], (intro obs; simp add: dead_def), rule ensures_if, (intro fail obs; simp add: dead_def),
        simp only: ensures_simps, intro good obs) (simp_all add: dead_def)
qed (simp add: allocproc_def)

lemma dup_files_inv:
  fixes s :: "'a filest_scheme"
  assumes "i + k = NOFILE" "fd_inv {#} s" "live me s" "live np s" "me \<noteq> np" "\<And>j. i \<le> j \<Longrightarrow> j < NOFILE \<Longrightarrow> fst (fds s ! np) ! j = None"
  shows "ensures (\<lambda>_ t. fd_inv {#} t \<and> live np t) (dup_files me np i k s)"
  using assms
proof (induction k arbitrary: i s)
  case (Suc k)
  have i: "i < NOFILE" using Suc.prems(1) by simp
  show ?case
  proof (cases "p_ofile (procs s ! me) ! i")
    case None
    then show ?thesis using Suc.IH [of "Suc i" s] Suc.prems by simp
  next
    case (Some f)
    have me: "me < length (fds s)" "np < length (fds s)" "fst (fds s ! me) ! i = Some f" using Suc.prems(3,4) Some by (simp_all add: live_def)
    then have "Some f \<in> set (fst (fds s ! me))" using refs_goodD(2) [of "{#}" "fds s" "frefs s" me] Suc.prems(2) i by (metis fd_inv_def nth_mem)
    then have f: "f < length (ftable s)" using refs_goodD(3) [of "{#}" "fds s" "frefs s" me f] Suc.prems(2) me by (simp add: fd_inv_def)
    let ?h = "\<lambda>f p. p\<lparr>p_ofile := (p_ofile p)[i := Some f]\<rparr>"
    have step: "ensures (\<lambda>_ t. fd_inv {#} t \<and> live np t) (dup_files me np (Suc i) k (upd_proc np (?h f) t))"
      if t: "fds t = fds s" "frefs t = (frefs s)[f := frefs s ! f + 1]" for t :: "'a filest_scheme"
    proof -
      let ?t = "upd_proc np (?h f) t"
      have l: "length (procs t) = length (procs s)" using t(1) by (metis fds_simps(1))
      have o: "p_ofile (procs t ! np) = fst (fds s ! np)" "\<not> dead (procs t ! np)"
        using t(1) fds_simps(3) [of np t] me(2) l Suc.prems(4) by (auto simp: live_def)
      have e: "fds ?t = (fds s)[np := ((fst (fds s ! np))[i := Some f], False)]" using t(1) o l me(2) by (simp add: fds_upd_proc dead_def)
      have "refs_good {#f#} (fds s) (frefs t)" unfolding t(2) using f Suc.prems(2) by (intro refs_inc) (simp_all add: fd_inv_def)
      then have "refs_good {#} (fds ?t) (frefs ?t)" unfolding e frefs_upd using me(2) i Suc.prems(6) [of i] by (intro refs_fill) simp_all
      then have inv: "fd_inv {#} ?t" by (simp add: fd_inv_def)
      have lv: "live me ?t" "live np ?t" unfolding live_fds e using Suc.prems(3,4,5) me by (simp_all add: live_def)
      show ?thesis
      proof (rule Suc.IH [OF _ inv lv Suc.prems(5)])
        show "fst (fds ?t ! np) ! j = None" if "Suc i \<le> j" "j < NOFILE" for j
          unfolding e using that me(2) Suc.prems(6) [of j] by simp
      qed (use Suc.prems(1) in simp)
    qed
    show ?thesis unfolding dup_files.simps Some option.case
      by (rule ensures_bind [OF filedup_refs [OF f]]) (use step in blast)
  qed
qed simp

lemma fd_inv_flag:
  assumes "fd_inv E s" "i < length (procs s)" "b \<Longrightarrow> set (fst (fds s ! i)) \<subseteq> {None}"
    "frefs t = frefs s" "fds t = (fds s)[i := (fst (fds s ! i), b)]"
  shows "fd_inv E t"
  unfolding fd_inv_def assms(4,5) using assms(1-3) by (intro refs_flag) (simp_all add: fd_inv_def)

lemma kfork_inv:
  fixes s :: "'a filest_scheme"
  assumes rest: "at_rest me s"
  shows "ensures (\<lambda>_. fd_inv {#}) (kfork me s)"
  unfolding kfork_def
proof (rule ensures_bind [OF allocproc_fds], goal_cases)
  case (1 r t)
  have inv: "fd_inv {#} s" and me: "live me s" using rest by (simp_all add: at_rest_def)
  show ?case
  proof (cases r)
    case None
    then show ?thesis using 1 inv by (simp add: fd_inv_def)
  next
    case (Some np)
    have np: "np < length (procs s)" "snd (fds s ! np)" "fds t = (fds s)[np := (fst (fds s ! np), False)]" "frefs t = frefs s"
      using 1 unfolding Some option.case by blast+
    have none: "set (fst (fds s ! np)) \<subseteq> {None}" using refs_goodD(4) [of "{#}" "fds s" "frefs s" np] inv np by (simp add: fd_inv_def)
    have ne: "me \<noteq> np" using me np(2) by (auto simp: live_fds)
    have lt: "length (procs t) = length (procs s)" using np(3) by (metis fds_simps(1) length_list_update)
    have t: "fd_inv {#} t" "live me t" "live np t" "fst (fds t ! np) = fst (fds s ! np)"
      using fd_inv_flag [OF inv np(1) _ np(4,3)] me ne np(1) lt unfolding live_fds np(3) by auto
    have same: "fd_inv {#} u \<and> live me u \<and> live np u \<and> fst (fds u ! np) = fst (fds s ! np)" if "fobs u = fobs t" for u :: "'a filest_scheme"
      using that t fd_inv_obs [OF that] live_cong [of u t] by (simp add: fobs_def)
    have undo: "ensures (\<lambda>_. fd_inv {#}) (kbind (freeproc np u) (\<lambda>_ s. Ok (- 1) s))" if "fobs u = fobs t" for u :: "'a filest_scheme"
    proof (rule ensures_bind [OF freeproc_fds], goal_cases)
      case (1 _ w)
      note u = same [OF that]
      then have "np < length (procs u)" by (simp add: live_def)
      then show ?case using 1 u none fd_inv_flag [of "{#}" u np True w] by simp
    qed
    have last: "ensures (\<lambda>_. fd_inv {#}) (case c of None \<Rightarrow> Panic ''undefined'' | Some cwd \<Rightarrow> kbind (idup cwd u) (\<lambda>cwd s.
                       case n s of None \<Rightarrow> Panic ''undefined'' | Some nm \<Rightarrow>
                           let s = upd_proc np (\<lambda>q. q\<lparr>p_cwd := Some cwd, p_name := nm\<rparr>) s; pid = p_pid (procs s ! np);
                               s = upd_proc np (\<lambda>q. q\<lparr>p_parent := Some me\<rparr>) s
                           in Ok pid (upd_proc np (\<lambda>q. q\<lparr>p_state := RUNNABLE\<rparr>) s)))"
      if u: "fd_inv {#} u" "live np u" for c n and u :: "'a filest_scheme"
    proof (intro ensures_case_option ensures_keeps_bind [OF fd.idup_keeps [OF refl]]; simp add: Let_def)
      fix cwd nm and w :: "'a filest_scheme"
      assume w: "fobs w = fobs u"
      let ?w = "upd_proc np (\<lambda>q. q\<lparr>p_parent := Some me\<rparr>) (upd_proc np (\<lambda>q. q\<lparr>p_cwd := Some cwd, p_name := nm\<rparr>) w)"
      have w2: "fobs ?w = fobs u" using w by (simp add: fobs_proc dead_def)
      then have "live np ?w" using u(2) live_cong [of ?w u] by (simp add: fobs_def)
      then have "fobs (upd_proc np (\<lambda>q. q\<lparr>p_state := RUNNABLE\<rparr>) ?w) = fobs u" using w2 by (simp add: fobs_live dead_def)
      then show "fd_inv {#} (upd_proc np (\<lambda>q. q\<lparr>p_state := RUNNABLE\<rparr>) ?w)" using u(1) fd_inv_obs by blast
    qed
    have files: "ensures (\<lambda>_ w. fd_inv {#} w \<and> live np w) (dup_files me np 0 NOFILE u)" if "fobs u = fobs t" for u :: "'a filest_scheme"
    proof (rule dup_files_inv)
      fix j assume "j < NOFILE"
      then have "j < length (fst (fds s ! np))" using refs_goodD(2) [of "{#}" "fds s" "frefs s" np] inv np(1) by (simp add: fd_inv_def)
      then have "fst (fds s ! np) ! j \<in> {None}" using none nth_mem by blast
      then show "fst (fds u ! np) ! j = None" using same [OF that] by simp
    qed (use same [OF that] ne in simp_all)
    show ?thesis unfolding Some option.case Let_def
      by (rule ensures_keeps_bind [OF fd.on_km_quiet [OF refl]], rule ensures_if, (rule undo, assumption),
          rule ensures_bind [OF files], simp add: fobs_proc dead_def, elim conjE, rule last [unfolded Let_def])
  qed
qed

lemma close_files_inv:
  fixes s :: "'a filest_scheme"
  assumes "i + k = NOFILE" "at_rest me s" "\<And>j. j < i \<Longrightarrow> fst (fds s ! me) ! j = None"
  shows "ensures (\<lambda>_ t. at_rest me t \<and> set (fst (fds t ! me)) \<subseteq> {None}) (close_files me i k s)"
  using assms
proof (induction k arbitrary: i s)
  case 0
  have "length (fst (fds s ! me)) = NOFILE" using 0(2) by (intro refs_goodD(2) [of "{#}" _ "frefs s"]) (simp_all add: at_rest_def fd_inv_def live_def)
  then have "set (fst (fds s ! me)) \<subseteq> {None}" using 0(1,3) by (metis add_0_right in_set_conv_nth insertI1 subsetI)
  then show ?case using 0(2) by simp
next
  case (Suc k)
  have i: "i < NOFILE" using Suc.prems(1) by simp
  have inv: "fd_inv {#} s" and lv: "live me s" and me: "me < length (fds s)" using Suc.prems(2) by (simp_all add: at_rest_def live_def)
  have len: "length (fst (fds s ! me)) = NOFILE" using inv me by (intro refs_goodD(2)) (simp_all add: fd_inv_def)
  show ?case
  proof (cases "p_ofile (procs s ! me) ! i")
    case None
    then have "fst (fds s ! me) ! j = None" if "j < Suc i" for j using that Suc.prems(3) me by (cases "j = i") simp_all
    then show ?thesis using None Suc.IH [of "Suc i" s] Suc.prems(1,2) by simp
  next
    case (Some f)
    then have sl: "fst (fds s ! me) ! i = Some f" using me by simp
    then have "Some f \<in> set (fst (fds s ! me))" using len i by (metis nth_mem)
    then have f: "f < length (ftable s)" using refs_goodD(3) [of "{#}" "fds s" "frefs s" me f] inv me by (simp add: fd_inv_def)
    let ?h = "\<lambda>p. p\<lparr>p_ofile := (p_ofile p)[i := None]\<rparr>"
    have step: "ensures (\<lambda>_ t. at_rest me t \<and> set (fst (fds t ! me)) \<subseteq> {None}) (close_files me (Suc i) k (upd_proc me ?h t))"
      if t: "fds t = fds s" "frefs t = (frefs s)[f := frefs s ! f - 1]" for t :: "'a filest_scheme"
    proof -
      let ?t = "upd_proc me ?h t"
      have l: "length (procs t) = length (procs s)" using t(1) by (metis fds_simps(1))
      have o: "p_ofile (procs t ! me) = fst (fds s ! me)" "\<not> dead (procs t ! me)"
        using t(1) fds_simps(3) [of me t] me l lv by (auto simp: live_def)
      have e: "fds ?t = (fds s)[me := ((fst (fds s ! me))[i := None], False)]" using t(1) o l me by (simp add: fds_upd_proc dead_def)
      have "refs_good {#f#} (fds ?t) (frefs s)" unfolding e using inv me i sl by (intro refs_clear) (simp_all add: fd_inv_def)
      then have "refs_good {#} (fds ?t) (frefs ?t)" unfolding frefs_upd t(2) by (rule refs_dec)
      moreover have "live me ?t" unfolding live_fds e using me by simp
      ultimately have rest: "at_rest me ?t" by (simp add: at_rest_def fd_inv_def)
      have "fst (fds ?t ! me) ! j = None" if "j < Suc i" for j
        unfolding e using that me len i Suc.prems(3) [of j] by (cases "j = i") simp_all
      then show ?thesis using Suc.IH [of "Suc i" ?t] rest Suc.prems(1) by simp
    qed
    show ?thesis unfolding close_files.simps Some option.case
      by (rule ensures_bind [OF fileclose_refs [OF f]]) (use step in blast)
  qed
qed

lemma reparent_fobs: "fobs (reparent me s) = fobs s"
proof -
  have "fobs (reparent_loop me i k s) = fobs s" for i k
    by (induction k arbitrary: i s) (simp_all add: fobs_proc dead_def split: option.split)
  then show ?thesis by (simp add: reparent_def)
qed

lemma kexit_inv:
  fixes s :: "'a filest_scheme"
  assumes "at_rest me s"
  shows "ensures (\<lambda>_. fd_inv {#}) (kexit me status s)"
proof -
  let ?Q = "\<lambda>_ t. at_rest me t \<and> set (fst (fds t ! me)) \<subseteq> {None}"
  have obs: "?Q () u" if "fobs u = fobs t" "?Q () t" for t u :: "'a filest_scheme"
    using that at_rest_obs [OF that(1)] by (simp add: fobs_def)
  have quiet_Q: "ensures ?Q m" if "?Q () t" "keeps fobs (fobs t) m" for t :: "'a filest_scheme" and m :: "('a filest_scheme, unit) res"
    unfolding ensures_def by (intro allI impI obs [OF keepsD [OF that(2)] that(1)])
  have fin: "fd_inv {#} (upd_proc me (\<lambda>p. p\<lparr>p_xstate := status, p_state := ZOMBIE\<rparr>) u)" if "?Q () u" for u :: "'a filest_scheme"
  proof (rule fd_inv_flag [of _ u me True])
    show "fds (upd_proc me (\<lambda>p. p\<lparr>p_xstate := status, p_state := ZOMBIE\<rparr>) u) = (fds u)[me := (fst (fds u ! me), True)]"
      using that by (simp add: fds_upd_proc dead_def at_rest_def live_def)
  qed (use that in \<open>auto simp: at_rest_def live_def\<close>)
  have tail: "ensures (\<lambda>_. fd_inv {#}) (let s = upd_proc me (\<lambda>p. p\<lparr>p_cwd := None\<rparr>) t; s = reparent me s;
                 s = (case p_parent (procs s ! me) of Some pp \<Rightarrow> wakeup (Some me) (ChProc pp) s | None \<Rightarrow> s)
             in Ok () (upd_proc me (\<lambda>p. p\<lparr>p_xstate := status, p_state := ZOMBIE\<rparr>) s))" if "?Q () t" for t :: "'a filest_scheme"
  proof -
    let ?t = "reparent me (upd_proc me (\<lambda>p. p\<lparr>p_cwd := None\<rparr>) t)"
    have "fobs (case p_parent (procs ?t ! me) of Some pp \<Rightarrow> wakeup (Some me) (ChProc pp) ?t | None \<Rightarrow> ?t) = fobs t"
      by (simp add: reparent_fobs fobs_proc dead_def split: option.split)
    then show ?thesis using fin [OF obs [OF _ that]] by (simp add: Let_def)
  qed
  have files: "ensures ?Q (close_files me 0 NOFILE s)" using close_files_inv [of 0 NOFILE me s] assms by simp
  show ?thesis unfolding kexit_def Let_def
    by (intro ensures_if ensures_bind [where Q = ?Q, OF files] ensures_bind [where Q = ?Q, OF quiet_Q] ensures_case_option tail [unfolded Let_def]
          keeps_blocking fd.begin_op_keeps fd.end_op_keeps fd.iput_keeps; (assumption | simp))
qed

lemma wait_scan_zombie: "wait_scan me i ps h = Inr k \<Longrightarrow> i \<le> k \<and> k < i + length ps \<and> p_parent (ps ! (k - i)) = Some me \<and> p_state (ps ! (k - i)) = ZOMBIE"
proof (induction ps arbitrary: i h)
  case (Cons p ps)
  show ?case
  proof (cases "p_parent p = Some me \<and> p_state p = ZOMBIE")
    case False
    then obtain h' where "wait_scan me (Suc i) ps h' = Inr k" using Cons.prems by (auto split: if_splits)
    note ih = Cons.IH [OF this]
    then have "k - i = Suc (k - Suc i)" by arith
    then show ?thesis using ih by simp
  qed (use Cons.prems in auto)
qed simp

lemma freeproc_dead:
  assumes "i < length (procs s)" "dead (procs s ! i)" "fobs s = v"
  shows "keeps fobs v (freeproc i s)"
proof -
  have "(fds s)[i := (fst (fds s ! i), True)] = fds s" using assms by (simp add: list_update_same_conv)
  then show ?thesis using freeproc_fds [of s i] assms by (auto simp: keeps_def ensures_def fobs_def)
qed

lemma kwait_fobs:
  fixes s :: "'a filest_scheme"
  shows "fobs s = v \<Longrightarrow> keeps fobs v (kwait me a s)"
proof (cases "wait_scan me 0 (procs s) False")
  case (Inr i)
  assume v: "fobs s = v"
  have i: "i < length (procs s)" "dead (procs s ! i)" using wait_scan_zombie [OF Inr] by (simp_all add: dead_def)
  have "i < length (procs t) \<and> dead (procs t ! i)" if "fobs t = v" for t :: "'a filest_scheme"
    using that v i fds_simps(1,3) unfolding fobs_def by (metis Pair_inject)
  then show ?thesis using Inr v unfolding kwait_def Let_def
    by (simp only: sum.case) (intro keeps_intros fd.on_km_quiet freeproc_dead; simp)
qed (simp add: kwait_def)

lemma syscall_inv:
  fixes s :: "'a filest_scheme"
  assumes rest: "at_rest me s"
  shows "ensures (\<lambda>_. fd_inv {#}) (syscall me lc s)"
proof -
  have inv: "fd_inv {#} s" and me: "live me s" using rest by (simp_all add: at_rest_def)
  have "ensures (\<lambda>_. fd_inv {#}) (sys_exit me s)"
    unfolding sys_exit_def by (rule ensures_bind [OF kexit_inv [OF rest]]) simp
  note loud = this kfork_inv [OF rest, folded sys_fork_def] sys_pipe_inv [OF rest] sys_open_inv [OF rest] sys_dup_inv [OF inv me] sys_close_inv [OF inv me]
  have f: "ensures (\<lambda>_. fd_inv {#}) (f s)" if "Some f \<in> set (syscall_table me lc)" for f
  proof -
    have "ensures (\<lambda>_. fd_inv {#}) (f s)" if "f \<in> {sys_wait me, sys_read me, sys_kill me, sys_exec me lc, sys_fstat me lc, sys_chdir me lc,
        sys_getpid me, sys_sbrk me, sys_pause me, sys_uptime me, sys_write me, sys_mknod me lc, sys_unlink me lc, sys_link me lc, sys_mkdir me lc}"
      by (rule keeps_inv [OF inv], use that in \<open>auto simp: sys_wait_def sys_read_def sys_write_def sys_kill_def sys_fstat_def sys_getpid_def sys_pause_def
          pause_from_def sys_uptime_def Let_def split: option.splits
          intro!: kwait_fobs fd.fileread_quiet fd.filewrite_quiet fd.kkill_quiet fd.sys_exec_quiet fd.filestat_quiet fd.sys_chdir_quiet fd.sys_sbrk_quiet
            fd.sys_mknod_quiet fd.sys_unlink_quiet fd.sys_link_quiet fd.sys_mkdir_quiet\<close>)
    then show ?thesis using that loud unfolding syscall_table_def by auto
  qed
  show ?thesis
  proof (rule syscall_ensures [OF f])
    show "fd_inv {#} (tf_put me TF_A0 x t)" if "fd_inv {#} t" for x and t :: "'a filest_scheme"
      using that fd_inv_obs [of "tf_put me TF_A0 x t" t] by simp
    show "ensures (\<lambda>_. fd_inv {#}) (kprintf u a s)" for u a
      by (rule keeps_inv [OF inv fd.kprintf_quiet])
  qed
qed

subsection \<open>Property\<close>

text \<open>Property C19: reference counts of open files are exact. If every count is the number of
  descriptors that name the file (and the descriptors of unused and exited processes are closed),
  then this is so after every system call that returns, on its error paths too, and after a
  process has exited. So no file is freed while a descriptor names it, and none is lost.\<close>

theorem file_refs_exact:
  assumes "at_rest me s"
  shows "(\<forall>lc u t. syscall me lc s = Ok u t \<longrightarrow> fd_inv {#} t) \<and> (\<forall>status u t. kexit me status s = Ok u t \<longrightarrow> fd_inv {#} t)"
  using syscall_inv [OF assms] kexit_inv [OF assms] by (auto simp: ensures_def)

text \<open>One process with one descriptor, for file 0.\<close>

definition one_fd :: filest where
  "one_fd = bss0\<lparr>procs := [zero_proc\<lparr>p_state := RUNNING, p_ofile := (replicate NOFILE None)[0 := Some 0]\<rparr>], ftable := [zero_file\<lparr>f_ref := 1\<rparr>],
     km := (km bss0)\<lparr>mem := st64 (\<lambda>_. 0) TF_A7 10\<rparr>\<rparr>"

theorem file_refs_exact_witness:
  "\<exists>u t. at_rest 0 one_fd \<and> syscall 0 \<lparr>l_name = [], l_de = [], l_pad = []\<rparr> one_fd = Ok u t \<and> fd_inv {#} t \<and> p_ofile (procs t ! 0) ! 1 = Some 0"
proof -
  let ?lc = "\<lparr>l_name = [], l_de = [], l_pad = []\<rparr>"
  have rest: "at_rest 0 one_fd"
    by (auto simp: at_rest_def one_fd_def fd_inv_def refs_good_def fds_def frefs_def live_def dead_def zero_proc_def zero_file_def numeral_eq_Suc)
  have num: "tf_get 0 TF_A7 one_fd = 10" "argint 0 0 one_fd = 0"
    using ld64_st64_other [of TF_A7 TF_A0 "\<lambda>_. 0" 10]
    by (simp_all add: tf_get_def one_fd_def TF_A7_def TF_A0_def argint_def argraw_def zero_proc_def ld64_def [of "\<lambda>_. 0"])
  have fd: "fdalloc 0 0 one_fd = (1, upd_proc 0 (\<lambda>p. p\<lparr>p_ofile := (p_ofile p)[1 := Some 0]\<rparr>) one_fd)" (is "_ = (1, ?s)")
    by (simp add: fdalloc_def one_fd_def zero_proc_def numeral_eq_Suc)
  have "syscall 0 ?lc one_fd = Ok () (tf_put 0 TF_A0 1 (upd_file 0 (\<lambda>f. f\<lparr>f_ref := f_ref f + 1\<rparr>) ?s))" (is "_ = Ok () ?t")
  proof -
    have "p_ofile (procs one_fd ! 0) ! 0 = Some 0" by (simp add: one_fd_def)
    then have "argfd 0 0 one_fd = Some (0, 0)" by (simp add: argfd_def num)
    then have "sys_dup 0 one_fd = Ok 1 (upd_file 0 (\<lambda>f. f\<lparr>f_ref := f_ref f + 1\<rparr>) ?s)"
      by (simp add: sys_dup_def fd filedup_def) (simp add: one_fd_def zero_file_def upd_proc_def)
    then show ?thesis by (simp add: syscall_def num syscall_table_def)
  qed
  moreover have "p_ofile (procs ?t ! 0) ! 1 = Some 0" by (simp add: tf_put_def upd_file_def upd_proc_def one_fd_def zero_proc_def)
  ultimately show ?thesis using file_refs_exact [OF rest] rest by blast
qed

end
