(* ===== verification/Tables.thy ===== *)
theory Tables
  imports Fdref
begin

section \<open>Tables of slots\<close>

text \<open>
  The allocators of the kernel scan a table for the first free slot: \<^verbatim>\<open>filealloc\<close>, \<^verbatim>\<open>allocproc\<close>,
  \<^verbatim>\<open>fdalloc\<close> and \<^verbatim>\<open>iget\<close>. Each is an instance of the contract of slot tables. The second part is the
  inode table: no operation of the file system ever makes two entries of one inode.
\<close>

interpretation filetab: slot_table ftable "\<lambda>f. f_ref f = 0" "\<lambda>s i. upd_file i (\<lambda>f. f\<lparr>f_ref := 1\<rparr>) s"
  by unfold_locales (simp_all add: upd_file_def)

interpretation proctab: slot_table procs "\<lambda>p. p_state p = UNUSED" "\<lambda>s i. claim_proc i s"
  by unfold_locales (simp_all add: claim_proc_def allocpid_def upd_proc_def)

interpretation inodetab: slot_table itable "\<lambda>ip. i_ref ip = 0"
    "\<lambda>s i. upd_inode i (\<lambda>ip. ip\<lparr>i_dev := dev, i_inum := inum, i_ref := 1, i_valid := False\<rparr>) s" for dev inum
  by unfold_locales (simp_all add: upd_inode_def)

interpretation fdtab: slot_table "\<lambda>os. os" "\<lambda>x. x = None" "\<lambda>os fd. os[fd := Some f]" for f :: nat
  by unfold_locales simp_all

text \<open>Property C20: the tables are filled from the front and lose nothing. \<^verbatim>\<open>filealloc\<close> fails exactly when
  no file is free; otherwise it takes the first free one and leaves every file in use alone, and
  one free file fewer is left. \<^verbatim>\<open>fdalloc\<close> gives the lowest free descriptor, or -1 when none is free.\<close>

theorem slots_allocated:
  "(case filealloc s of
      Ok None t \<Rightarrow> t = s \<and> (\<forall>j < length (ftable s). f_ref (ftable s ! j) \<noteq> 0)
    | Ok (Some i) t \<Rightarrow> f_ref (ftable s ! i) = 0 \<and> (\<forall>j < i. f_ref (ftable s ! j) \<noteq> 0) \<and> f_ref (ftable t ! i) = 1 \<and>
        (\<forall>j < length (ftable s). f_ref (ftable s ! j) \<noteq> 0 \<longrightarrow> ftable t ! j = ftable s ! j) \<and>
        card {j. j < length (ftable t) \<and> f_ref (ftable t ! j) = 0} + 1 = card {j. j < length (ftable s) \<and> f_ref (ftable s ! j) = 0}
    | _ \<Rightarrow> False) \<and>
   (case fdalloc me f s of (fd, t) \<Rightarrow>
      if fd = -1 then t = s \<and> None \<notin> set (p_ofile (procs s ! me))
      else 0 \<le> fd \<and> p_ofile (procs s ! me) ! nat fd = None \<and> (\<forall>j < nat fd. p_ofile (procs s ! me) ! j \<noteq> None) \<and>
        (me < length (procs s) \<longrightarrow> p_ofile (procs t ! me) = (p_ofile (procs s ! me))[nat fd := Some f]))"
proof (rule conjI, goal_cases)
  case 1
  show ?case
  proof (cases "find_slot (\<lambda>f. f_ref f = 0) (ftable s) 0")
    case None
    then show ?thesis using filetab.scan_full [of s] by (simp add: filealloc_def)
  next
    case (Some i)
    then show ?thesis using find_slot_0 [OF Some] filetab.scan_used_kept [OF Some] filetab.scan_count [OF Some]
      by (simp add: filealloc_def upd_file_def)
  qed
next
  case 2
  show ?case
  proof (cases "find_slot (\<lambda>x. x = None) (p_ofile (procs s ! me)) 0")
    case None
    then show ?thesis using find_slot_None [of "\<lambda>x. x = None" "p_ofile (procs s ! me)" 0] by (auto simp: fdalloc_def)
  next
    case (Some fd)
    then show ?thesis using find_slot_0 [OF Some] by (simp add: fdalloc_def upd_proc_def)
  qed
qed

theorem slots_allocated_witness:
  "\<exists>t. filealloc bss0 = Ok (Some 0) t \<and> f_ref (ftable t ! 0) = 1 \<and> fst (fdalloc 0 5 bss0) = 0"
proof -
  have a: "filealloc bss0 = Ok (Some 0) (upd_file 0 (\<lambda>f. f\<lparr>f_ref := 1\<rparr>) bss0)"
    by (simp add: filealloc_def bss_def zero_file_def NFILE_def numeral_eq_Suc)
  have "fst (fdalloc 0 5 bss0) = 0"
    by (simp add: fdalloc_def bss_def zero_proc_def numeral_eq_Suc)
  then show ?thesis using a slots_allocated [of bss0 0 5] by simp
qed

subsection \<open>The inode table\<close>

definition iobs :: "'a fsst_scheme \<Rightarrow> (uint32 \<times> uint32 \<times> int) list" where
  "iobs s = map (\<lambda>ip. (i_dev ip, i_inum ip, i_ref ip)) (itable s)"

lemma iobs_upd:
  assumes "\<And>ip. i_dev (h ip) = i_dev ip \<and> i_inum (h ip) = i_inum ip \<and> i_ref (h ip) = i_ref ip"
  shows "iobs (upd_inode i h s) = iobs s"
  using assms by (cases "i < length (itable s)") (simp_all add: iobs_def upd_inode_def map_update list_update_same_conv list_update_beyond)

interpretation it: inode_frame iobs
  by unfold_locales (simp_all add: iobs_upd, simp_all add: iobs_def)

text \<open>An inode is in the table at most once.\<close>

definition entries_unique :: "(uint32 \<times> uint32 \<times> int) list \<Rightarrow> bool" where
  "entries_unique es \<longleftrightarrow> (\<forall>i < length es. \<forall>j < length es. case (es ! i, es ! j) of ((d, n, r), (d', n', r')) \<Rightarrow>
     i \<noteq> j \<longrightarrow> 0 < r \<longrightarrow> 0 < r' \<longrightarrow> (d, n) \<noteq> (d', n'))"

definition inodes_unique :: "'a fsst_scheme \<Rightarrow> bool" where
  "inodes_unique s \<longleftrightarrow> entries_unique (iobs s)"

lemma inodes_unique_iff:
  "inodes_unique s \<longleftrightarrow> (\<forall>i < length (itable s). \<forall>j < length (itable s). i \<noteq> j \<longrightarrow> 0 < i_ref (itable s ! i) \<longrightarrow> 0 < i_ref (itable s ! j) \<longrightarrow>
     (i_dev (itable s ! i), i_inum (itable s ! i)) \<noteq> (i_dev (itable s ! j), i_inum (itable s ! j)))"
  by (auto simp: inodes_unique_def entries_unique_def iobs_def)

lemma itable_upd: "itable (upd_inode i h s) = (itable s)[i := h (itable s ! i)]"
  by (simp add: upd_inode_def)

lemma unique_upd:
  assumes "inodes_unique s"
    and "\<And>j. j < length (itable s) \<Longrightarrow> j \<noteq> i \<Longrightarrow> 0 < i_ref (itable s ! j) \<Longrightarrow> 0 < i_ref (h (itable s ! i)) \<Longrightarrow>
      (i_dev (h (itable s ! i)), i_inum (h (itable s ! i))) \<noteq> (i_dev (itable s ! j), i_inum (itable s ! j))"
  shows "inodes_unique (upd_inode i h s)"
  unfolding inodes_unique_iff itable_upd
proof (intro allI impI)
  fix a b
  assume "a < length ((itable s)[i := h (itable s ! i)])" "b < length ((itable s)[i := h (itable s ! i)])" "a \<noteq> b"
    "0 < i_ref ((itable s)[i := h (itable s ! i)] ! a)" "0 < i_ref ((itable s)[i := h (itable s ! i)] ! b)"
  then show "(i_dev ((itable s)[i := h (itable s ! i)] ! a), i_inum ((itable s)[i := h (itable s ! i)] ! a)) \<noteq>
      (i_dev ((itable s)[i := h (itable s ! i)] ! b), i_inum ((itable s)[i := h (itable s ! i)] ! b))"
    using assms(1) [unfolded inodes_unique_iff, rule_format, of a b] assms(2) [of a] assms(2) [of b]
    by (cases "a = i"; cases "b = i") (auto simp: nth_list_update)
qed

lemma unique_same:
  assumes u: "inodes_unique s" and i: "i < length (itable s)"
    and "i_dev (h (itable s ! i)) = i_dev (itable s ! i)" "i_inum (h (itable s ! i)) = i_inum (itable s ! i)"
    and r: "0 < i_ref (h (itable s ! i)) \<Longrightarrow> 0 < i_ref (itable s ! i)"
  shows "inodes_unique (upd_inode i h s)"
proof (rule unique_upd [OF u])
  fix j
  assume j: "j < length (itable s)" "j \<noteq> i" "0 < i_ref (itable s ! j)" "0 < i_ref (h (itable s ! i))"
  show "(i_dev (h (itable s ! i)), i_inum (h (itable s ! i))) \<noteq> (i_dev (itable s ! j), i_inum (itable s ! j))"
    using u [unfolded inodes_unique_iff, rule_format, OF i j(1) _ r [OF j(4)] j(3)] j(2) assms(3,4) by simp
qed

lemma iput_unique:
  fixes s :: "'a fsst_scheme"
  assumes "inodes_unique s"
  shows "ensures (\<lambda>_. inodes_unique) (iput pid i s)"
proof -
  have q: "ensures (\<lambda>_. inodes_unique) m" if "keeps iobs (iobs s) m" for m :: "('a fsst_scheme, unit) res"
    using that assms by (auto simp: keeps_def ensures_def inodes_unique_def)
  have drop: "inodes_unique (upd_inode i (\<lambda>ip. ip\<lparr>i_ref := i_ref ip - 1\<rparr>) t)" if "inodes_unique t" for t :: "'a fsst_scheme"
  proof (cases "i < length (itable t)")
    case True
    then show ?thesis using that by (intro unique_same) simp_all
  qed (use that in \<open>simp add: upd_inode_def list_update_beyond\<close>)
  have "keeps iobs (iobs s) (if i_ref (itable s ! i) = 1 \<and> i_valid (itable s ! i) \<and> i_nlink (itable s ! i) = 0
                then kbind (lock_inode pid i s) (\<lambda>_ s. kbind (itrunc pid i s) (\<lambda>_ s.
                     kbind (iupdate pid i (upd_inode i (\<lambda>ip. ip\<lparr>i_type := 0\<rparr>) s)) (\<lambda>_ s.
                     Ok () (unlock_inode i (upd_inode i (\<lambda>ip. ip\<lparr>i_valid := False\<rparr>) s))))) else Ok () s)"
    by (intro keeps_intros it.lock_inode_keeps it.itrunc_keeps it.iupdate_keeps; simp)
  then show ?thesis unfolding iput_def Let_def by (intro ensures_bind [OF q]) (simp_all add: drop)
qed

lemma iget_unique:
  fixes s :: "'a fsst_scheme"
  assumes u: "inodes_unique s"
  shows "ensures (\<lambda>i t. inodes_unique t \<and> i < length (itable t) \<and> i_dev (itable t ! i) = dev \<and> i_inum (itable t ! i) = inum \<and> 0 < i_ref (itable t ! i) \<and>
      (\<forall>j < length (itable t). j \<noteq> i \<longrightarrow> itable t ! j = itable s ! j)) (iget dev inum s)"
proof (cases "find_slot (\<lambda>ip. i_ref ip > 0 \<and> i_dev ip = dev \<and> i_inum ip = inum) (itable s) 0")
  case (Some i)
  let ?h = "\<lambda>ip. ip\<lparr>i_ref := i_ref ip + 1\<rparr>"
  have i: "i < length (itable s)" "0 < i_ref (itable s ! i)" "i_dev (itable s ! i) = dev" "i_inum (itable s ! i) = inum" using find_slot_0 [OF Some] by auto
  have "inodes_unique (upd_inode i ?h s)"
    using u i by (intro unique_same) simp_all
  then show ?thesis using Some i by (simp add: iget_def itable_upd)
next
  case None
  then have no: "\<not> (0 < i_ref (itable s ! j) \<and> i_dev (itable s ! j) = dev \<and> i_inum (itable s ! j) = inum)" if "j < length (itable s)" for j
    using that by (simp add: find_slot_None all_set_conv_all_nth)
  show ?thesis
  proof (cases "find_slot (\<lambda>ip. i_ref ip = 0) (itable s) 0")
    case (Some i)
    let ?h = "\<lambda>ip. ip\<lparr>i_dev := dev, i_inum := inum, i_ref := 1, i_valid := False\<rparr>"
    have i: "i < length (itable s)" using find_slot_0 [OF Some] by auto
    have "inodes_unique (upd_inode i ?h s)" using no by (intro unique_upd [OF u]) (simp, blast)
    then show ?thesis using None Some i by (simp add: iget_def itable_upd)
  qed (simp add: iget_def None)
qed

text \<open>Property C21: an inode is in the inode table at most once, so that locking the entry locks the
  inode. \<^verbatim>\<open>iget\<close> keeps this and returns the entry of the inode asked for, with a reference, and
  changes no other entry; \<^verbatim>\<open>iput\<close> keeps it, also when it frees the inode; \<^verbatim>\<open>idup\<close> keeps it for an
  entry in use.\<close>

theorem inode_table_unique:
  assumes "inodes_unique s"
  shows "(\<forall>dev inum i t. iget dev inum s = Ok i t \<longrightarrow> inodes_unique t \<and> i_dev (itable t ! i) = dev \<and> i_inum (itable t ! i) = inum \<and>
      0 < i_ref (itable t ! i) \<and> (\<forall>j < length (itable t). j \<noteq> i \<longrightarrow> itable t ! j = itable s ! j)) \<and>
    (\<forall>pid i u t. iput pid i s = Ok u t \<longrightarrow> inodes_unique t) \<and>
    (\<forall>i j t. i < length (itable s) \<longrightarrow> 0 < i_ref (itable s ! i) \<longrightarrow> idup i s = Ok j t \<longrightarrow> inodes_unique t)"
proof (intro conjI)
  show "\<forall>dev inum i t. iget dev inum s = Ok i t \<longrightarrow> inodes_unique t \<and> i_dev (itable t ! i) = dev \<and> i_inum (itable t ! i) = inum \<and>
      0 < i_ref (itable t ! i) \<and> (\<forall>j < length (itable t). j \<noteq> i \<longrightarrow> itable t ! j = itable s ! j)"
    using ensuresD [OF iget_unique [OF assms]] by blast
  show "\<forall>pid i u t. iput pid i s = Ok u t \<longrightarrow> inodes_unique t"
    using ensuresD [OF iput_unique [OF assms]] by blast
  have "inodes_unique (upd_inode i (\<lambda>ip. ip\<lparr>i_ref := i_ref ip + 1\<rparr>) s)" if "i < length (itable s)" "0 < i_ref (itable s ! i)" for i
    using assms that by (intro unique_same) simp_all
  then show "\<forall>i j t. i < length (itable s) \<longrightarrow> 0 < i_ref (itable s ! i) \<longrightarrow> idup i s = Ok j t \<longrightarrow> inodes_unique t"
    by (auto simp: idup_def)
qed

theorem inode_table_unique_witness:
  "\<exists>i t. inodes_unique bss0 \<and> iget 1 7 bss0 = Ok i t \<and> inodes_unique t \<and> i_inum (itable t ! i) = 7"
proof -
  have u: "inodes_unique bss0" by (simp add: inodes_unique_iff bss_def zero_inode_def)
  have "find_slot (\<lambda>ip. i_ref ip > 0 \<and> i_dev ip = 1 \<and> i_inum ip = 7) (itable bss0) 0 = None"
    by (simp add: find_slot_None bss_def zero_inode_def)
  moreover have "find_slot (\<lambda>ip. i_ref ip = 0) (itable bss0) 0 = Some 0" by (simp add: bss_def zero_inode_def NINODE_def numeral_eq_Suc)
  ultimately obtain t where "iget 1 7 bss0 = Ok 0 t" by (simp add: iget_def)
  then show ?thesis using inode_table_unique [OF u] u by blast
qed

end
