(* ===== verification/Execsafe.thy ===== *)
theory Execsafe
  imports Frame Syscall Bss
begin

section \<open>Exec\<close>

text \<open>
  \<^verbatim>\<open>kexec\<close> builds the new image beside the old one and switches to it only when nothing can fail any
  more: it succeeds or leaves the process as it was.
\<close>

interpretation pt: fs_frame procs
  by unfold_locales simp_all

lemma on_km_procs: "procs s = v \<Longrightarrow> keeps procs v (on_km f s)"
  unfolding on_km_def by (rule pt.on_km_keeps)

lemma tf_put_procs [simp]: "procs (tf_put i f v s) = procs s"
  by (simp add: tf_put_def)

lemmas proc_quiet = on_km_procs pt.fs_keeps

lemma exec_bad_result: "procs s = v \<Longrightarrow> ensures (\<lambda>r t. r = - 1 \<and> procs t = v) (exec_bad p pt sz ip s)"
proof -
  assume v: "procs s = v"
  have "keeps procs v (exec_bad p pt sz ip s)" unfolding exec_bad_def by (intro keeps_intros proc_quiet; simp add: v)
  moreover have "ensures (\<lambda>r t. r = - 1) (exec_bad p pt sz ip s)"
    unfolding exec_bad_def by (auto simp: ensures_def kbind_eq_Ok split: option.splits)
  ultimately show ?thesis by (auto simp: keeps_def ensures_def)
qed

lemma loadseg_loop_procs: "procs s = v \<Longrightarrow> keeps procs v (loadseg_loop p pt va ip off sz i s)"
proof (induction "sz - i" arbitrary: i s rule: less_induct)
  case less
  have step: "i < sz \<Longrightarrow> sz - (i + min (sz - i) (4096 - k mod 4096)) < sz - i" for k
    using mod_less_divisor [of 4096 k] by linarith
  show ?case
    by (subst loadseg_loop.simps) (intro keeps_intros proc_quiet less.hyps; simp add: less.prems step)
qed

lemma load_segments_procs: "procs s = v \<Longrightarrow> keeps procs v (load_segments p ip pt off k sz s)"
proof (induction k arbitrary: off sz s)
  case (Suc k)
  show ?case unfolding load_segments.simps loadseg_def by (intro keeps_intros proc_quiet loadseg_loop_procs Suc.IH; simp add: Suc.prems)
qed simp

lemma push_args_result:
  "procs s = v \<Longrightarrow> ensures (\<lambda>r t. procs t = v \<and> (\<forall>sp us. r = Some (sp, us) \<longrightarrow> length us = length us0 + length as \<and> (as \<noteq> [] \<longrightarrow> argc + length as \<le> MAXARG)))
     (push_args p pt base as argc sp0 us0 s)"
proof (induction as arbitrary: argc sp0 us0 s)
  case (Cons a as)
  show ?case unfolding push_args.simps Let_def
    by (intro ensures_if ensures_keeps_bind [OF on_km_procs [OF Cons.prems]] ensures_mono [OF Cons.IH])
       (auto simp: Cons.prems)
qed simp

definition new_image :: "nat \<Rightarrow> bytes list \<Rightarrow> addr \<Rightarrow> proc list \<Rightarrow> int \<Rightarrow> proc list \<Rightarrow> bool" where
  "new_image me argv pt v r v' \<longleftrightarrow> r = int (length argv) \<and> length argv \<le> MAXARG \<and>
     (\<exists>nm sz. v' = v[me := (v ! me)\<lparr>p_name := nm, p_pagetable := pt, p_sz := sz\<rparr>])"

lemma exec_switch:
  fixes s :: "'a filest_scheme"
  assumes "procs s = v" "length us = length argv" "argv \<noteq> [] \<Longrightarrow> length argv \<le> MAXARG"
  shows "ensures (\<lambda>r t. new_image me argv pt v r (procs t))
    (case n of None \<Rightarrow> Panic ''undefined''
     | Some nm \<Rightarrow>
         let oldpagetable = p_pagetable (procs s ! me);
             s = upd_proc me (\<lambda>q. q\<lparr>p_name := nm, p_pagetable := pt, p_sz := sz\<rparr>) s;
             s = tf_put me TF_EPC e s; s = tf_put me TF_SP sp s
         in kbind (on_km (proc_freepagetable oldpagetable oldsz) s) (\<lambda>_ s. Ok (int (length us)) s))"
  unfolding Let_def
proof (intro ensures_case_option)
  fix nm
  let ?s = "tf_put me TF_SP sp (tf_put me TF_EPC e (upd_proc me (\<lambda>q. q\<lparr>p_name := nm, p_pagetable := pt, p_sz := sz\<rparr>) s))"
  have "procs ?s = v[me := (v ! me)\<lparr>p_name := nm, p_pagetable := pt, p_sz := sz\<rparr>]" using assms(1) by (simp add: upd_proc_def)
  then show "ensures (\<lambda>r t. new_image me argv pt v r (procs t))
      (kbind (on_km (proc_freepagetable (p_pagetable (procs s ! me)) oldsz) ?s) (\<lambda>_ s. Ok (int (length us)) s))"
    using assms(2,3) by (intro ensures_keeps_bind [OF on_km_procs [OF refl]]) (cases "argv = []"; auto simp: new_image_def)
qed simp

lemma exec_commit_result:
  fixes s :: "'a filest_scheme"
  assumes v: "procs s = v"
  shows "ensures (\<lambda>r t. (r = - 1 \<and> procs t = v) \<or> new_image me argv pt v r (procs t)) (exec_commit me path argv elf pt sz s)"
    (is "ensures ?P _")
proof -
  have bad: "ensures ?P (exec_bad p pt n ip t)" if "procs t = v" for p n ip and t :: "'a filest_scheme"
    by (rule ensures_mono [OF exec_bad_result [OF that]]) simp
  have args: "ensures (\<lambda>r u. procs u = v \<and> (\<forall>sp us. r = Some (sp, us) \<longrightarrow> length us = length argv \<and> (argv \<noteq> [] \<longrightarrow> length argv \<le> MAXARG)))
      (push_args p pt base argv 0 sp0 [] t)" if "procs t = v" for p base sp0 and t :: "'a filest_scheme"
    using push_args_result [OF that, of "[]" argv 0] by simp
  have switch: "ensures ?P m" if "ensures (\<lambda>r t. new_image me argv pt v r (procs t)) m" for m :: "('a filest_scheme, int) res"
    using that by (auto simp: ensures_def)
  show ?thesis unfolding exec_commit_def Let_def
    by (intro ensures_intros bad switch ensures_keeps_bind [OF on_km_procs] ensures_bind [OF args] exec_switch [unfolded Let_def])
       (use v in auto)
qed

lemma kexec_result:
  fixes s :: "'a filest_scheme"
  assumes v: "procs s = v"
  shows "ensures (\<lambda>r t. (r = - 1 \<and> procs t = v) \<or> (\<exists>pt. pt \<noteq> 0 \<and> new_image me argv pt v r (procs t))) (kexec me name0 path argv s)"
    (is "ensures ?P _")
proof -
  have bad: "ensures ?P (exec_bad p pt n ip t)" if "procs t = v" for p pt n ip and t :: "'a filest_scheme"
    by (rule ensures_mono [OF exec_bad_result [OF that]]) simp
  have good: "ensures ?P (exec_commit me path argv elf pt sz t)" if "procs t = v" "pt \<noteq> 0" for elf pt sz and t :: "'a filest_scheme"
    by (rule ensures_mono [OF exec_commit_result [OF that(1)]]) (use that(2) in blast)
  have fail: "ensures ?P (kbind (end_op pid t) (\<lambda>_ s. Ok (- 1) s))" if "procs t = v" for pid and t :: "'a filest_scheme"
    by (rule ensures_keeps_bind [OF pt.end_op_keeps [OF that]]) simp
  show ?thesis unfolding kexec_def Let_def
    by (intro ensures_intros bad good fail ensures_keeps_bind [OF on_km_procs] ensures_keeps_bind [OF pt.begin_op_keeps] ensures_keeps_bind [OF pt.namei_keeps]
          ensures_keeps_bind [OF pt.ilock_keeps] ensures_keeps_bind [OF pt.readi_keeps] ensures_keeps_bind [OF load_segments_procs]
          ensures_keeps_bind [OF pt.iunlockput_keeps] ensures_keeps_bind [OF pt.end_op_keeps]; (assumption | simp add: v))
qed


text \<open>A process whose working directory is an empty file; an empty path names it.\<close>

definition exec_empty :: filest where
  "exec_empty = bss0\<lparr>procs := [zero_proc\<lparr>p_state := RUNNING, p_pid := 1, p_cwd := Some 0\<rparr>],
     itable := [zero_inode\<lparr>i_ref := 1, i_valid := True, i_type := T_FILE, i_nlink := 1\<rparr>]\<rparr>"


end
