(* ===== verification/Procsafe.thy ===== *)
theory Procsafe
  imports Fdref Execsafe
begin

section \<open>Process identifiers, exit and wait\<close>

text \<open>
  An observation that does not even look at open files and descriptors is kept by every system call
  but \<^verbatim>\<open>fork\<close> and \<^verbatim>\<open>wait\<close>. The identifiers of the processes are one.
\<close>

locale proc_frame = quiet_frame +
  assumes any_file [simp]: "g (upd_file i k s) = g s"
    and any_fd: "(\<And>p. h p = p\<lparr>p_ofile := os p\<rparr>) \<Longrightarrow> g (upd_proc i h s) = g s"
begin

lemma fdalloc_kept: "fdalloc me f s = (r, t) \<Longrightarrow> g t = g s"
  by (auto simp: fdalloc_def any_fd split: option.splits)

lemma clear_fd_kept [simp]: "g (clear_fd me fd s) = g s"
  by (simp add: clear_fd_def any_fd)

lemma filealloc_kept: "g s = v \<Longrightarrow> keeps g v (filealloc s)"
  unfolding filealloc_def by (intro keeps_intros; simp)

lemma filedup_kept: "g s = v \<Longrightarrow> keeps g v (filedup f s)"
  unfolding filedup_def by (intro keeps_intros; simp)

lemma fileclose_kept: "g s = v \<Longrightarrow> keeps g v (fileclose me f s)"
  unfolding fileclose_def pipeclose_def
  by (cases "f_type (ftable s ! f)"; simp only: Let_def fdtype.case) (intro keeps_intros quiet_rules; simp)+

lemma sys_close_kept: "g s = v \<Longrightarrow> keeps g v (sys_close me s)"
  unfolding sys_close_def by (intro keeps_intros fileclose_kept; simp)

lemma sys_dup_kept: "g s = v \<Longrightarrow> keeps g v (sys_dup me s)"
  unfolding sys_dup_def Let_def by (intro keeps_intros filedup_kept; simp add: fdalloc_kept)

lemma open_inode_kept: "g s = v \<Longrightarrow> keeps g v (open_inode me m ip s)"
  unfolding open_inode_def open_bad_def Let_def
  by (intro keeps_intros filealloc_kept fileclose_kept quiet_rules; simp add: fdalloc_kept)

lemma sys_open_kept: "g s = v \<Longrightarrow> keeps g v (sys_open me lc s)"
  unfolding sys_open_def open_bad_def Let_def
  by (intro keeps_intros open_inode_kept argstr_quiet create_quiet quiet_rules; simp)

lemma pipealloc_kept: "g s = v \<Longrightarrow> keeps g v (pipealloc me s)"
  unfolding pipealloc_def close_opt_def
  by (intro keeps_intros filealloc_kept fileclose_kept quiet_rules; simp)

lemma sys_pipe_kept: "g s = v \<Longrightarrow> keeps g v (sys_pipe me s)"
  unfolding sys_pipe_def Let_def
  by (intro keeps_intros pipealloc_kept fileclose_kept quiet_rules; simp add: fdalloc_kept)

lemma dup_files_kept: "g s = v \<Longrightarrow> keeps g v (dup_files me np i k s)"
proof (induction k arbitrary: i s)
  case (Suc k)
  show ?case unfolding dup_files.simps by (intro keeps_intros filedup_kept Suc.IH; simp add: Suc.prems any_fd)
qed simp

lemma close_files_kept: "g s = v \<Longrightarrow> keeps g v (close_files me i k s)"
proof (induction k arbitrary: i s)
  case (Suc k)
  show ?case unfolding close_files.simps by (intro keeps_intros fileclose_kept Suc.IH; simp add: Suc.prems any_fd)
qed simp

text \<open>Every system call but three.\<close>

lemma other_calls_kept:
  assumes "Some f \<in> set (syscall_table me lc)" "f \<notin> {sys_fork me, sys_exit me, sys_wait me}" "g s = v"
  shows "keeps g v (f s)"
  using assms unfolding syscall_table_def
  by (auto simp: sys_read_def sys_write_def sys_kill_def sys_fstat_def sys_getpid_def sys_pause_def
          pause_from_def sys_uptime_def Let_def split: option.splits
          intro!: fileread_quiet filewrite_quiet kkill_quiet sys_exec_quiet filestat_quiet sys_chdir_quiet sys_sbrk_quiet
            sys_mknod_quiet sys_unlink_quiet sys_link_quiet sys_mkdir_quiet sys_dup_kept sys_close_kept sys_open_kept sys_pipe_kept)

end

subsection \<open>Identifiers\<close>

definition pobs :: "'a filest_scheme \<Rightarrow> (int \<times> bool) list \<times> int" where
  "pobs s = (map (\<lambda>p. (p_pid p, p_state p = UNUSED)) (procs s), nextpid s)"

lemma pobs_proc: "(\<And>p. p_pid (h p) = p_pid p \<and> (p_state (h p) = UNUSED \<longleftrightarrow> p_state p = UNUSED)) \<Longrightarrow> pobs (upd_proc i h s) = pobs s"
  by (cases "i < length (procs s)") (simp_all add: pobs_def upd_proc_def map_update list_update_same_conv list_update_beyond)

lemma pobs_wakeup [simp]: "pobs (wakeup me c s) = pobs s"
proof -
  have "map (\<lambda>p. (p_pid p, p_state p = UNUSED)) (wakeup_loop me c i ps) = map (\<lambda>p. (p_pid p, p_state p = UNUSED)) ps" for i ps
    by (induction ps arbitrary: i) auto
  then show ?thesis by (simp add: pobs_def wakeup_def)
qed

interpretation pid: proc_frame pobs
  by unfold_locales (simp_all add: pobs_proc same_proc_def, simp_all add: pobs_def upd_file_def upd_pipe_def)

text \<open>Identifiers in use are positive, smaller than the next one and different; a free slot has identifier 0.\<close>

definition pids_good :: "(int \<times> bool) list \<times> int \<Rightarrow> bool" where
  "pids_good v \<longleftrightarrow> 1 \<le> snd v \<and> (\<forall>p \<in> set (fst v). 0 \<le> fst p \<and> fst p < snd v \<and> (snd p \<longleftrightarrow> fst p = 0)) \<and>
     (\<forall>i < length (fst v). \<forall>j < length (fst v). i \<noteq> j \<longrightarrow> fst (fst v ! i) = fst (fst v ! j) \<longrightarrow> snd (fst v ! i))"

definition pids_ok :: "'a filest_scheme \<Rightarrow> bool" where
  "pids_ok s \<longleftrightarrow> pids_good (pobs s)"

lemma pids_goodD:
  assumes "pids_good (ps, n)"
  shows "1 \<le> n" "i < length ps \<Longrightarrow> 0 \<le> fst (ps ! i) \<and> fst (ps ! i) < n \<and> (snd (ps ! i) \<longleftrightarrow> fst (ps ! i) = 0)"
    "i < length ps \<Longrightarrow> j < length ps \<Longrightarrow> i \<noteq> j \<Longrightarrow> fst (ps ! i) = fst (ps ! j) \<Longrightarrow> fst (ps ! i) = 0"
  using assms nth_mem [of i ps] unfolding pids_good_def fst_conv snd_conv by (simp, simp, metis)

lemma pids_goodI:
  assumes "1 \<le> n" "\<And>i. i < length ps \<Longrightarrow> 0 \<le> fst (ps ! i) \<and> fst (ps ! i) < n \<and> (snd (ps ! i) \<longleftrightarrow> fst (ps ! i) = 0)"
    "\<And>i j. i < length ps \<Longrightarrow> j < length ps \<Longrightarrow> i \<noteq> j \<Longrightarrow> fst (ps ! i) = fst (ps ! j) \<Longrightarrow> fst (ps ! i) = 0"
  shows "pids_good (ps, n)"
  unfolding pids_good_def fst_conv snd_conv using assms by (auto simp: all_set_conv_all_nth)

lemma pids_good_upd:
  assumes g: "pids_good (ps, n)" and n: "n \<le> n'" and x: "0 \<le> x" "x < n'" "u \<longleftrightarrow> x = 0"
    and fresh: "\<And>j. j < length ps \<Longrightarrow> x \<noteq> 0 \<Longrightarrow> fst (ps ! j) \<noteq> x"
  shows "pids_good (ps[i := (x, u)], n')"
proof (rule pids_goodI)
  show "1 \<le> n'" using pids_goodD(1) [OF g] n by simp
  show "0 \<le> fst (ps[i := (x, u)] ! a) \<and> fst (ps[i := (x, u)] ! a) < n' \<and> (snd (ps[i := (x, u)] ! a) \<longleftrightarrow> fst (ps[i := (x, u)] ! a) = 0)"
    if "a < length (ps[i := (x, u)])" for a
    using that pids_goodD(2) [OF g, of a] n x by (cases "a = i") auto
  show "fst (ps[i := (x, u)] ! a) = 0" if "a < length (ps[i := (x, u)])" "b < length (ps[i := (x, u)])" "a \<noteq> b"
      "fst (ps[i := (x, u)] ! a) = fst (ps[i := (x, u)] ! b)" for a b
    using that pids_goodD(3) [OF g, of a b] fresh [of a] fresh [of b] by (cases "a = i"; cases "b = i") auto
qed

lemma pids_free: "pids_good (ps, n) \<Longrightarrow> pids_good (ps[i := (0, True)], n)"
  by (rule pids_good_upd) (auto dest: pids_goodD(1))

lemma pids_fresh: "pids_good (ps, n) \<Longrightarrow> pids_good (ps[i := (n, False)], n + 1)"
  using pids_goodD(2) [of ps n] by (intro pids_good_upd) (fastforce dest: pids_goodD(1))+

lemma pobs_upd: "pobs (upd_proc i h s) = (if i < length (procs s) then ((fst (pobs s))[i := (p_pid (h (procs s ! i)), p_state (h (procs s ! i)) = UNUSED)], snd (pobs s)) else pobs s)"
  by (simp add: pobs_def upd_proc_def map_update list_update_beyond)

lemma pobs_nth: "i < length (procs s) \<Longrightarrow> fst (pobs s) ! i = (p_pid (procs s ! i), p_state (procs s ! i) = UNUSED)" "length (fst (pobs s)) = length (procs s)"
  by (simp_all add: pobs_def)

lemma pids_obs: "pobs t = pobs s \<Longrightarrow> pids_ok t = pids_ok s"
  by (simp add: pids_ok_def)

lemma freeproc_pids:
  fixes s :: "'a filest_scheme"
  assumes "pids_ok s"
  shows "ensures (\<lambda>_ t. pids_ok t) (freeproc i s)"
proof -
  let ?Q = "\<lambda>_ t. pobs t = pobs s"
  have q: "keeps pobs (pobs s) m \<Longrightarrow> ensures ?Q m" for m :: "('a filest_scheme, unit) res" by (simp add: keeps_def)
  have obs: "pobs (upd_proc i (\<lambda>p. p\<lparr>p_trapframe := x\<rparr>) t) = pobs s" if "pobs t = pobs s" for x and t :: "'a filest_scheme"
    using that by (simp add: pobs_proc)
  have fin: "pids_ok (upd_proc i h t)" if "pobs t = pobs s" "\<And>p. p_pid (h p) = 0 \<and> p_state (h p) = UNUSED" for h and t :: "'a filest_scheme"
  proof -
    have "pids_good (fst (pobs t), snd (pobs t))" using assms that(1) by (simp add: pids_ok_def)
    then show ?thesis using that(2) pids_free by (auto simp: pids_ok_def pobs_upd)
  qed
  show ?thesis unfolding freeproc_def Let_def
    by (intro ensures_bind [where Q = ?Q] q keeps_intros pid.on_km_quiet obs; (simp only: ensures_simps, intro fin)?; simp add: obs)
qed

lemma allocproc_pids:
  fixes s :: "'a filest_scheme"
  assumes ok: "pids_ok s"
  shows "ensures (\<lambda>r t. pids_ok t \<and> (\<forall>i. r = Some i \<longrightarrow> i < length (procs t) \<and> p_state (procs t ! i) \<noteq> UNUSED)) (allocproc s)"
    (is "ensures ?P _")
proof (cases "find_slot (\<lambda>p. p_state p = UNUSED) (procs s) 0")
  case (Some i)
  then have i: "i < length (procs s)" using find_slot_0 by auto
  let ?v = "((fst (pobs s))[i := (nextpid s, False)], nextpid s + 1)"
  let ?Q = "\<lambda>_ t. pobs t = ?v"
  have q: "keeps pobs ?v m \<Longrightarrow> ensures ?Q m" for m :: "('a filest_scheme, 64 word) res" by (simp add: keeps_def)
  have claim: "pobs (claim_proc i s) = ?v" using i by (simp add: claim_proc_def allocpid_def pobs_def upd_proc_def map_update)
  have "pids_good ?v" using ok pids_fresh [of "fst (pobs s)" "nextpid s" i] by (simp add: pids_ok_def pobs_def)
  then have good: "pids_ok t" if "pobs t = ?v" for t :: "'a filest_scheme" using that by (simp add: pids_ok_def)
  have obs: "pobs (upd_proc i h t) = ?v" if "pobs t = ?v" "\<And>p. p_pid (h p) = p_pid p \<and> p_state (h p) = p_state p" for h and t :: "'a filest_scheme"
    using that pobs_proc by metis
  have fail: "ensures ?P (kbind (freeproc i t) (\<lambda>_ s. Ok None s))" if "pobs t = ?v" for t :: "'a filest_scheme"
    by (rule ensures_bind [OF freeproc_pids [OF good [OF that]]]) simp
  have got: "?P (Some i) t" if "pobs t = ?v" for t :: "'a filest_scheme"
  proof -
    have "length (procs t) = length (procs s)" using that pobs_nth(2) by (metis fst_conv length_list_update)
    then show ?thesis using good [OF that] i pobs_nth(1) [of i t] that by (simp add: pobs_nth(2))
  qed
  show ?thesis unfolding allocproc_def Some option.case Let_def
    by (rule ensures_bind [where Q = ?Q, OF q [OF pid.on_km_quiet [OF claim]]], rule ensures_if, (intro fail obs; simp),
        rule ensures_bind [where Q = ?Q, OF q [OF pid.on_km_quiet]], (intro obs; simp), rule ensures_if, (intro fail obs; simp),
        simp only: ensures_simps, intro got obs) simp_all
qed (use ok in \<open>simp add: allocproc_def\<close>)

lemma pobs_used:
  assumes "i < length (procs s)" "p_state (procs s ! i) \<noteq> UNUSED" "p_pid (h (procs s ! i)) = p_pid (procs s ! i)" "p_state (h (procs s ! i)) \<noteq> UNUSED"
  shows "pobs (upd_proc i h s) = pobs s"
  using assms by (simp add: pobs_def upd_proc_def map_update list_update_same_conv)

lemma used_obs:
  assumes "pobs t = pobs s"
  shows "i < length (procs t) \<and> p_state (procs t ! i) \<noteq> UNUSED \<longleftrightarrow> i < length (procs s) \<and> p_state (procs s ! i) \<noteq> UNUSED"
  using assms pobs_nth(1) [of i t] pobs_nth(1) [of i s] pobs_nth(2) [of t] pobs_nth(2) [of s] by auto

lemma kfork_pids:
  fixes s :: "'a filest_scheme"
  assumes ok: "pids_ok s"
  shows "ensures (\<lambda>_. pids_ok) (kfork me s)"
  unfolding kfork_def
proof (rule ensures_bind [OF allocproc_pids [OF ok]], goal_cases)
  case (1 r t)
  show ?case
  proof (cases r)
    case (Some np)
    let ?Q = "\<lambda>u. pobs u = pobs t"
    have t: "pids_ok t" "np < length (procs t)" "p_state (procs t ! np) \<noteq> UNUSED" using 1 Some by auto
    have good: "pids_ok u" if "?Q u" for u :: "'a filest_scheme" using t(1) pids_obs [OF that] by simp
    have fail: "ensures (\<lambda>_. pids_ok) (kbind (freeproc np u) (\<lambda>_ s. Ok (- 1) s))" if "?Q u" for u :: "'a filest_scheme"
      by (rule ensures_bind [OF freeproc_pids [OF good [OF that]]]) simp
    have last: "pids_ok (upd_proc np (\<lambda>q. q\<lparr>p_state := RUNNABLE\<rparr>) u)" if "?Q u" for u :: "'a filest_scheme"
      using good [OF that] used_obs [OF that, of np] t(2,3) pids_obs [OF pobs_used [of np u "\<lambda>q. q\<lparr>p_state := RUNNABLE\<rparr>"]] by simp
    show ?thesis unfolding Some option.case Let_def
      by (intro ensures_intros fail ensures_keeps_bind [where v = "pobs t", OF pid.on_km_quiet] ensures_keeps_bind [where v = "pobs t", OF pid.dup_files_kept]
            ensures_keeps_bind [where v = "pobs t", OF pid.idup_keeps]; (assumption | rule refl | simp add: pobs_proc last))
  qed (use 1 in simp)
qed

lemma kwait_pids:
  fixes s :: "'a filest_scheme"
  assumes ok: "pids_ok s"
  shows "ensures (\<lambda>_. pids_ok) (kwait me a s)"
proof (cases "wait_scan me 0 (procs s) False")
  case (Inr i)
  have "pids_ok u" if "pobs u = pobs s" for u :: "'a filest_scheme" using ok pids_obs [OF that] by simp
  note good = this
  have free: "ensures (\<lambda>_. pids_ok) (kbind (freeproc i u) (\<lambda>_ s. Ok r s))" if "pobs u = pobs s" for r and u :: "'a filest_scheme"
    by (rule ensures_bind [OF freeproc_pids [OF good [OF that]]]) simp
  have copy: "keeps pobs (pobs s) (if a \<noteq> 0 then on_km c s else Ok 0 s)" for c
    by (intro keeps_intros pid.on_km_quiet) simp_all
  show ?thesis unfolding kwait_def Inr sum.case Let_def
    by (intro ensures_intros free ensures_keeps_bind [OF copy]) (simp_all add: good)
qed (use ok in \<open>simp add: kwait_def\<close>)

lemma reparent_pobs [simp]: "pobs (reparent me s) = pobs s"
proof -
  have "pobs (reparent_loop me i k s) = pobs s" for i k
    by (induction k arbitrary: i s) (simp_all add: pobs_proc split: option.split)
  then show ?thesis by (simp add: reparent_def)
qed

lemma kexit_pids:
  fixes s :: "'a filest_scheme"
  assumes ok: "pids_ok s" and me: "me < length (procs s)" "p_state (procs s ! me) \<noteq> UNUSED"
  shows "ensures (\<lambda>_. pids_ok) (kexit me status s)"
proof -
  have good: "pids_ok (upd_proc me (\<lambda>p. p\<lparr>p_xstate := status, p_state := ZOMBIE\<rparr>) u)" if "pobs u = pobs s" for u :: "'a filest_scheme"
    using ok used_obs [OF that, of me] me pids_obs [OF pobs_used [of me u "\<lambda>p. p\<lparr>p_xstate := status, p_state := ZOMBIE\<rparr>"]] pids_obs [OF that] by simp
  have tail: "ensures (\<lambda>_. pids_ok) (let s = upd_proc me (\<lambda>p. p\<lparr>p_cwd := None\<rparr>) u; s = reparent me s;
                 s = (case p_parent (procs s ! me) of Some pp \<Rightarrow> wakeup (Some me) (ChProc pp) s | None \<Rightarrow> s)
             in Ok () (upd_proc me (\<lambda>p. p\<lparr>p_xstate := status, p_state := ZOMBIE\<rparr>) s))" if "pobs u = pobs s" for u :: "'a filest_scheme"
    using that unfolding Let_def ensures_simps by (intro good) (simp add: pobs_proc split: option.split)
  show ?thesis unfolding kexit_def Let_def
    by (intro ensures_intros tail [unfolded Let_def] ensures_keeps_bind [OF pid.close_files_kept] ensures_keeps_bind [OF keeps_blocking [OF pid.begin_op_keeps]]
          ensures_keeps_bind [OF keeps_blocking [OF pid.iput_keeps]] ensures_keeps_bind [OF keeps_blocking [OF pid.end_op_keeps]]; (assumption | rule refl | simp))
qed

lemma kkill_effect:
  assumes ok: "pids_ok s" and pid: "0 < pid" and k: "kkill pid s = Ok r t"
  shows "if r = 0 then \<exists>!i. i < length (procs s) \<and> p_pid (procs s ! i) = pid \<and> p_killed (procs t ! i) \<and> p_state (procs t ! i) \<noteq> SLEEPING \<and>
            (\<forall>j < length (procs s). j \<noteq> i \<longrightarrow> p_pid (procs s ! j) \<noteq> pid \<and> procs t ! j = procs s ! j)
        else t = s \<and> (\<forall>j < length (procs s). p_pid (procs s ! j) \<noteq> pid)"
proof (cases "find_slot (\<lambda>p. p_pid p = pid) (procs s) 0")
  case None
  then have "r = -1" "t = s" using k by (simp_all add: kkill_def)
  moreover have "p_pid (procs s ! j) \<noteq> pid" if "j < length (procs s)" for j
    using None that by (simp add: find_slot_None all_set_conv_all_nth)
  ultimately show ?thesis by simp
next
  case (Some i)
  then have i: "i < length (procs s)" "p_pid (procs s ! i) = pid" using find_slot_0 by auto
  have "pids_good (fst (pobs s), snd (pobs s))" using ok by (simp add: pids_ok_def)
  note d = pids_goodD(3) [OF this, of i]
  have u: "p_pid (procs s ! j) \<noteq> pid" if "j < length (procs s)" "j \<noteq> i" for j
    using d [of j] that i pid by (auto simp: pobs_nth)
  have t: "r = 0" "procs t = (procs s)[i := (procs s ! i)\<lparr>p_killed := True, p_state := (if p_state (procs s ! i) = SLEEPING then RUNNABLE else p_state (procs s ! i))\<rparr>]"
    using k Some by (auto simp: kkill_def upd_proc_def)
  have "\<exists>!i. i < length (procs s) \<and> p_pid (procs s ! i) = pid \<and> p_killed (procs t ! i) \<and> p_state (procs t ! i) \<noteq> SLEEPING \<and>
            (\<forall>j < length (procs s). j \<noteq> i \<longrightarrow> p_pid (procs s ! j) \<noteq> pid \<and> procs t ! j = procs s ! j)"
    using i u unfolding t(2) by (intro ex1I [of _ i]) auto
  then show ?thesis using t(1) by simp
qed


text \<open>The first process, of which nothing else exists.\<close>

definition one_proc :: filest where
  "one_proc = bss0\<lparr>procs := [zero_proc\<lparr>p_state := RUNNING, p_pid := 1, p_name := replicate 16 0\<rparr>], nextpid := 2\<rparr>"


subsection \<open>Exit and wait\<close>

definition parents :: "'a filest_scheme \<Rightarrow> nat option list \<times> nat option" where
  "parents s = (map p_parent (procs s), initproc s)"

lemma parents_proc: "(\<And>p. p_parent (h p) = p_parent p) \<Longrightarrow> parents (upd_proc i h s) = parents s"
  by (cases "i < length (procs s)") (simp_all add: parents_def upd_proc_def map_update list_update_same_conv list_update_beyond)

lemma length_wakeup_loop [simp]: "length (wakeup_loop me c k ps) = length ps"
  by (induction ps arbitrary: k) simp_all

lemma nth_wakeup_loop: "i < length ps \<Longrightarrow> wakeup_loop me c k ps ! i = (if Some (k + i) \<noteq> me \<and> p_state (ps ! i) = SLEEPING \<and> p_chan (ps ! i) = Some c
     then (ps ! i)\<lparr>p_state := RUNNABLE\<rparr> else ps ! i)"
proof (induction ps arbitrary: i k)
  case (Cons p ps)
  show ?case
  proof (cases i)
    case (Suc j)
    then show ?thesis using Cons.IH [of j "Suc k"] Cons.prems by simp
  qed simp
qed simp

lemma wakeup_shape [simp]:
  "initproc (wakeup me c s) = initproc s" "length (procs (wakeup me c s)) = length (procs s)"
  "j < length (procs s) \<Longrightarrow> p_parent (procs (wakeup me c s) ! j) = p_parent (procs s ! j)"
  by (simp_all add: wakeup_def nth_wakeup_loop)

lemma wakeup_none_asleep:
  "j < length (procs s) \<Longrightarrow> Some j \<noteq> me \<Longrightarrow> p_chan (procs (wakeup me c s) ! j) = Some c \<Longrightarrow> p_state (procs (wakeup me c s) ! j) \<noteq> SLEEPING"
  by (auto simp: wakeup_def nth_wakeup_loop)

lemma parents_wakeup [simp]: "parents (wakeup me c s) = parents s"
  by (simp add: parents_def, rule nth_equalityI) simp_all

interpretation par: proc_frame parents
  by unfold_locales (simp_all add: parents_proc same_proc_def, simp_all add: parents_def upd_file_def upd_pipe_def)

lemma parentsD:
  assumes "parents t = parents s"
  shows "initproc t = initproc s" "length (procs t) = length (procs s)" "j < length (procs s) \<Longrightarrow> p_parent (procs t ! j) = p_parent (procs s ! j)"
  using assms map_eq_imp_length_eq [of p_parent "procs t" p_parent "procs s"] nth_map [of j "procs s" p_parent] nth_map [of j "procs t" p_parent]
  by (simp_all add: parents_def)

text \<open>One turn of the loop of \<^verbatim>\<open>reparent\<close>, then the loop: the children of \<open>me\<close> in its range get a new parent.\<close>

lemma reparent_turn:
  assumes "initproc s = Some ip" "i < length (procs s)"
    and t: "t = (if p_parent (procs s ! i) = Some me then wakeup (Some me) (ChProc ip) (upd_proc i (\<lambda>p. p\<lparr>p_parent := Some ip\<rparr>) s) else s)"
  shows "initproc t = Some ip" "length (procs t) = length (procs s)"
    "j < length (procs s) \<Longrightarrow> p_parent (procs t ! j) = (if j = i \<and> p_parent (procs s ! i) = Some me then Some ip else p_parent (procs s ! j))"
  using assms by (simp_all add: upd_proc_def nth_list_update)

lemma reparent_loop_parent:
  assumes "initproc s = Some ip" "ip \<noteq> me" "i + k \<le> length (procs s)"
  shows "initproc (reparent_loop me i k s) = Some ip \<and> length (procs (reparent_loop me i k s)) = length (procs s) \<and>
    (\<forall>j < length (procs s). p_parent (procs (reparent_loop me i k s) ! j) =
       (if i \<le> j \<and> j < i + k \<and> p_parent (procs s ! j) = Some me then Some ip else p_parent (procs s ! j)))"
  using assms
proof (induction k arbitrary: i s)
  case (Suc k)
  define t where "t = (if p_parent (procs s ! i) = Some me then wakeup (Some me) (ChProc ip) (upd_proc i (\<lambda>p. p\<lparr>p_parent := Some ip\<rparr>) s) else s)"
  have i: "i < length (procs s)" using Suc.prems(3) by simp
  note turn = reparent_turn [OF Suc.prems(1) i t_def]
  have eq: "reparent_loop me i (Suc k) s = reparent_loop me (Suc i) k t" using Suc.prems(1) by (simp add: t_def)
  have IH: "initproc (reparent_loop me (Suc i) k t) = Some ip" "length (procs (reparent_loop me (Suc i) k t)) = length (procs s)"
    "\<And>j. j < length (procs s) \<Longrightarrow> p_parent (procs (reparent_loop me (Suc i) k t) ! j) =
       (if Suc i \<le> j \<and> j < Suc i + k \<and> p_parent (procs t ! j) = Some me then Some ip else p_parent (procs t ! j))"
    using Suc.IH [of t "Suc i"] Suc.prems turn by auto
  show ?case unfolding eq using IH(1,2)
  proof (intro conjI allI impI, goal_cases)
    case (3 j)
    then show ?case using IH(3) [of j] turn(3) [of j] Suc.prems(2) by (cases "j = i") auto
  qed simp_all
qed simp

text \<open>Property C24: \<^verbatim>\<open>exit\<close> leaves no orphan and wakes the parent. When \<^verbatim>\<open>kexit\<close> gets to its last switch, the
  process is a zombie that holds its exit status, its children have the initial process as their
  parent and all other processes keep theirs, and no other process is still asleep waiting on the
  parent's channel. The initial process itself never gets there.\<close>

theorem exit_reparents:
  fixes s :: "'a filest_scheme"
  assumes "kexit me status s = Ok u t" "initproc s = Some ip" "me < length (procs s)"
  shows "ip \<noteq> me \<and> length (procs t) = length (procs s) \<and> p_state (procs t ! me) = ZOMBIE \<and> p_xstate (procs t ! me) = status \<and>
    (\<forall>j < length (procs s). p_parent (procs t ! j) = (if p_parent (procs s ! j) = Some me then Some ip else p_parent (procs s ! j))) \<and>
    (\<forall>pp j. p_parent (procs t ! me) = Some pp \<longrightarrow> j < length (procs s) \<longrightarrow> j \<noteq> me \<longrightarrow> p_chan (procs t ! j) = Some (ChProc pp) \<longrightarrow> p_state (procs t ! j) \<noteq> SLEEPING)"
    (is "?P t")
proof -
  have me: "ip \<noteq> me" using assms by (auto simp: kexit_def)
  have last: "?P (upd_proc me (\<lambda>p. p\<lparr>p_xstate := status, p_state := ZOMBIE\<rparr>)
      (case p_parent (procs w ! me) of Some pp \<Rightarrow> wakeup (Some me) (ChProc pp) w | None \<Rightarrow> w))"
    if w: "length (procs w) = length (procs s)" "\<And>j. j < length (procs s) \<Longrightarrow> p_parent (procs w ! j) = (if p_parent (procs s ! j) = Some me then Some ip else p_parent (procs s ! j))"
    for w :: "'a filest_scheme"
  proof (cases "p_parent (procs w ! me)")
    case None
    then show ?thesis using w assms(3) me by (auto simp: upd_proc_def nth_list_update)
  next
    case (Some pp)
    then show ?thesis using w assms(3) me wakeup_none_asleep [of _ w "Some me" "ChProc pp"] by (auto simp: upd_proc_def nth_list_update)
  qed
  have rep: "length (procs (reparent me v)) = length (procs s)"
      "j < length (procs s) \<Longrightarrow> p_parent (procs (reparent me v) ! j) = (if p_parent (procs s ! j) = Some me then Some ip else p_parent (procs s ! j))"
    if v: "parents v = parents s" for j and v :: "'a filest_scheme"
    using reparent_loop_parent [of v ip me 0 "length (procs v)"] parentsD [OF v] assms(2) me by (auto simp: reparent_def)
  have tail: "ensures (\<lambda>_. ?P) (let s = upd_proc me (\<lambda>p. p\<lparr>p_cwd := None\<rparr>) v; s = reparent me s;
                 s = (case p_parent (procs s ! me) of Some pp \<Rightarrow> wakeup (Some me) (ChProc pp) s | None \<Rightarrow> s)
             in Ok () (upd_proc me (\<lambda>p. p\<lparr>p_xstate := status, p_state := ZOMBIE\<rparr>) s))" if "parents v = parents s" for v :: "'a filest_scheme"
    unfolding Let_def ensures_simps using that by (intro last rep) (simp_all add: parents_proc)
  have "ensures (\<lambda>_. ?P) (kexit me status s)" unfolding kexit_def Let_def
    by (intro ensures_intros tail [unfolded Let_def] ensures_keeps_bind [OF par.close_files_kept] ensures_keeps_bind [OF keeps_blocking [OF par.begin_op_keeps]]
          ensures_keeps_bind [OF keeps_blocking [OF par.iput_keeps]] ensures_keeps_bind [OF keeps_blocking [OF par.end_op_keeps]]; (assumption | rule refl | simp))
  then show ?thesis using assms(1) by (rule ensuresD)
qed

text \<open>The initial process, a child of it and a grandchild; the child exits.\<close>

definition family :: filest where
  "family = bss0\<lparr>initproc := Some 0, procs := [zero_proc\<lparr>p_state := SLEEPING, p_pid := 1, p_chan := Some (ChProc 0)\<rparr>,
       zero_proc\<lparr>p_state := RUNNING, p_pid := 2, p_parent := Some 0, p_cwd := Some 0\<rparr>, zero_proc\<lparr>p_state := RUNNABLE, p_pid := 3, p_parent := Some 1\<rparr>],
     itable := [zero_inode\<lparr>i_ref := 1, i_valid := True, i_type := T_FILE, i_nlink := 1\<rparr>]\<rparr>"

theorem exit_reparents_witness:
  "\<exists>t. kexit 1 7 family = Ok () t \<and> p_state (procs t ! 1) = ZOMBIE \<and> p_xstate (procs t ! 1) = 7 \<and> p_parent (procs t ! 2) = Some 0"
proof -
  have closed: "close_files 1 0 NOFILE family = Ok () family"
    by (simp add: family_def zero_proc_def numeral_eq_Suc)
  obtain t where t: "kexit 1 7 family = Ok () t"
    unfolding kexit_def closed
    by (simp add: family_def begin_op_def iput_def end_op_def commit_def blocking_def upd_inode_def zero_inode_def zero_proc_def bss_def Let_def)
  have len: "length (procs family) = 3" "initproc family = Some 0" "p_parent (procs family ! 2) = Some 1" by (simp_all add: family_def)
  show ?thesis using t exit_reparents [OF t len(2)] len by auto
qed

lemma wait_scan_Inr: "wait_scan me k ps h = Inr i \<Longrightarrow> k \<le> i \<and> i < k + length ps \<and> p_parent (ps ! (i - k)) = Some me \<and> p_state (ps ! (i - k)) = ZOMBIE"
  by (induction me k ps h rule: wait_scan.induct) (auto simp: nth_Cons' split: if_splits)

lemma wait_scan_Inl: "wait_scan me k ps h = Inl b \<Longrightarrow> (b \<longleftrightarrow> h \<or> (\<exists>p \<in> set ps. p_parent p = Some me)) \<and> (\<forall>p \<in> set ps. p_parent p = Some me \<longrightarrow> p_state p \<noteq> ZOMBIE)"
  by (induction me k ps h rule: wait_scan.induct) (auto split: if_splits)

lemma freeproc_procs:
  fixes s :: "'a filest_scheme"
  assumes "i < length (procs s)"
  shows "ensures (\<lambda>_ t. \<exists>p. p_state p = UNUSED \<and> p_pid p = 0 \<and> p_parent p = None \<and> procs t = (procs s)[i := p]) (freeproc i s)"
proof -
  have last: "\<exists>p. p_state p = UNUSED \<and> p_pid p = 0 \<and> p_parent p = None \<and> procs (upd_proc i (\<lambda>p. p\<lparr>p_pagetable := 0, p_sz := 0, p_pid := 0, p_parent := None,
        p_name := (p_name p)[0 := 0], p_chan := None, p_killed := False, p_xstate := 0, p_state := UNUSED\<rparr>) v) = (procs s)[i := p]"
    if "procs v = (procs s)[i := q]" for q and v :: "'a filest_scheme"
    using that assms by (auto simp: upd_proc_def intro!: exI)
  have free: "keeps procs v (if c then on_km f w else Ok () w)" if "procs w = v" for c f v and w :: "'a filest_scheme"
    using that by (intro keeps_if on_km_procs) simp_all
  have second: "ensures (\<lambda>_ t. \<exists>p. p_state p = UNUSED \<and> p_pid p = 0 \<and> p_parent p = None \<and> procs t = (procs s)[i := p])
      (kbind (if c then on_km f (upd_proc i (\<lambda>p. p\<lparr>p_trapframe := 0\<rparr>) w) else Ok () (upd_proc i (\<lambda>p. p\<lparr>p_trapframe := 0\<rparr>) w)) (\<lambda>_ s.
            Ok () (upd_proc i (\<lambda>p. p\<lparr>p_pagetable := 0, p_sz := 0, p_pid := 0, p_parent := None,
                      p_name := (p_name p)[0 := 0], p_chan := None, p_killed := False, p_xstate := 0, p_state := UNUSED\<rparr>) s)))"
    if "procs w = procs s" for c f and w :: "'a filest_scheme"
    by (rule ensures_keeps_bind [OF free [OF refl]]) (simp only: ensures_simps, rule last [of _ "(procs s ! i)\<lparr>p_trapframe := 0\<rparr>"], simp add: upd_proc_def that)
  show ?thesis unfolding freeproc_def Let_def by (rule ensures_keeps_bind [OF free [OF refl]]) (rule second)
qed

definition has_child :: "nat \<Rightarrow> 'a filest_scheme \<Rightarrow> bool" where
  "has_child me s \<longleftrightarrow> (\<exists>p \<in> set (procs s). p_parent p = Some me)"

definition exited_child :: "nat \<Rightarrow> 'a filest_scheme \<Rightarrow> nat \<Rightarrow> bool" where
  "exited_child me s i \<longleftrightarrow> i < length (procs s) \<and> p_parent (procs s ! i) = Some me \<and> p_state (procs s ! i) = ZOMBIE"

lemma wait_found: "wait_scan me 0 (procs s) False = Inr i \<Longrightarrow> exited_child me s i"
  using wait_scan_Inr [of me 0 "procs s" False i] by (simp add: exited_child_def)

lemma wait_none: "wait_scan me 0 (procs s) False = Inl b \<Longrightarrow> (b \<longleftrightarrow> has_child me s) \<and> \<not> exited_child me s i"
  using wait_scan_Inl [of me 0 "procs s" False b] by (auto simp: has_child_def exited_child_def)

lemma kwait_found:
  fixes s :: "'a filest_scheme"
  assumes "wait_scan me 0 (procs s) False = Inr i"
  shows "ensures (\<lambda>r t. r = - 1 \<and> procs t = procs s \<and> a \<noteq> 0 \<or>
    r = p_pid (procs s ! i) \<and> (\<exists>p. p_state p = UNUSED \<and> p_pid p = 0 \<and> p_parent p = None \<and> procs t = (procs s)[i := p])) (kwait me a s)"
proof -
  have i: "i < length (procs s)" using wait_found [OF assms] by (simp add: exited_child_def)
  have free: "ensures (\<lambda>r t. r = - 1 \<and> procs t = procs s \<and> a \<noteq> 0 \<or> r = p_pid (procs s ! i) \<and> (\<exists>p. p_state p = UNUSED \<and> p_pid p = 0 \<and> p_parent p = None \<and> procs t = (procs s)[i := p]))
      (kbind (freeproc i w) (\<lambda>_ s'. Ok (p_pid (procs s ! i)) s'))" if "procs w = procs s" for w :: "'a filest_scheme"
    using freeproc_procs [of i w] i that by (intro ensures_bind [OF freeproc_procs]) simp_all
  show ?thesis
  proof (cases "a = 0")
    case True
    then show ?thesis using free [OF refl] assms by (simp add: kwait_def)
  next
    case False
    then show ?thesis unfolding kwait_def assms sum.case Let_def if_P [OF False]
      by (intro ensures_keeps_bind [OF on_km_procs [OF refl]] ensures_if free) simp_all
  qed
qed

text \<open>Property C25: \<^verbatim>\<open>wait\<close> reaps one exited child. If it returns, either it returns -1 and no process has
  changed, which with a null status address happens only if no child has exited; or it returns the
  identifier of a child that has exited, whose slot is free afterwards while every other process is
  as it was. It fails at once for a caller without children, and if no child has exited a caller
  that has not been killed goes to sleep on its own channel.\<close>

theorem wait_reaps:
  fixes s :: "'a filest_scheme"
  shows "(\<forall>r t. kwait me a s = Ok r t \<longrightarrow>
        r = - 1 \<and> procs t = procs s \<and> (a \<noteq> 0 \<or> (\<forall>i. \<not> exited_child me s i)) \<or>
        (\<exists>i. exited_child me s i \<and> r = p_pid (procs s ! i) \<and>
           (\<exists>p. p_state p = UNUSED \<and> p_pid p = 0 \<and> p_parent p = None \<and> procs t = (procs s)[i := p]))) \<and>
    (\<not> has_child me s \<longrightarrow> kwait me a s = Ok (- 1) s) \<and>
    (has_child me s \<and> (\<forall>i. \<not> exited_child me s i) \<and> \<not> killed me s \<longrightarrow> kwait me a s = Sleep (ChProc me) (sleep_on me (ChProc me) s))"
proof (cases "wait_scan me 0 (procs s) False")
  case (Inl b)
  then show ?thesis using wait_none [OF Inl] by (auto simp: kwait_def)
next
  case (Inr i)
  have "exited_child me s i" by (rule wait_found [OF Inr])
  moreover from this have "has_child me s" unfolding exited_child_def has_child_def by (meson nth_mem)
  ultimately show ?thesis using ensuresD [OF kwait_found [OF Inr]] by blast
qed

text \<open>The family after the exit above: the initial process waits.\<close>

definition exited :: filest where
  "exited = family\<lparr>procs := (procs family)[1 := zero_proc\<lparr>p_state := ZOMBIE, p_pid := 2, p_parent := Some 0\<rparr>]\<rparr>"

theorem wait_reaps_witness:
  "\<exists>t p. exited_child 0 exited 1 \<and> kwait 0 0 exited = Ok 2 t \<and> p_state p = UNUSED \<and> procs t = (procs exited)[1 := p]"
proof -
  have ch: "exited_child 0 exited i \<longleftrightarrow> i = 1" for i
    by (auto simp: exited_child_def exited_def family_def zero_proc_def less_Suc_eq numeral_eq_Suc nth_Cons')
  obtain t where t: "kwait 0 0 exited = Ok 2 t"
    by (simp add: kwait_def exited_def family_def zero_proc_def freeproc_def Let_def upd_proc_def)
  have "p_pid (procs exited ! 1) = 2" by (simp add: exited_def family_def)
  then show ?thesis using t conjunct1 [OF wait_reaps [of 0 0 exited], rule_format, OF t] ch by auto
qed

subsection \<open>Killing process 0\<close>

text \<open>
  The slots that are not in use have identifier 0, so \<^verbatim>\<open>kill(0)\<close> finds one, reports success and marks
  it; \<^verbatim>\<open>allocproc\<close> does not clear the mark, and the next process to be created is born killed.
\<close>

lemma allocproc_keeps_killed:
  fixes s :: "'a filest_scheme"
  assumes i: "find_slot (\<lambda>p. p_state p = UNUSED) (procs s) 0 = Some i" and k: "p_killed (procs s ! i)"
  shows "ensures (\<lambda>r t. r = None \<or> r = Some i \<and> p_killed (procs t ! i)) (allocproc s)"
proof -
  have len: "i < length (procs s)" using find_slot_0 [OF i] by simp
  have fail: "ensures (\<lambda>r t. r = None \<or> r = Some i \<and> p_killed (procs t ! i)) (kbind m (\<lambda>_ s. Ok None s))" for m :: "('a filest_scheme, unit) res"
    by (rule ensures_bind [where Q = "\<lambda>_ _. True"]) (simp_all add: ensures_def)
  have claim: "i < length (procs (claim_proc i s)) \<and> p_killed (procs (claim_proc i s) ! i)"
    using len k by (simp add: claim_proc_def allocpid_def upd_proc_def)
  show ?thesis unfolding allocproc_def i option.case Let_def
    by (intro ensures_keeps_bind [OF on_km_procs [OF refl]] ensures_if fail) (use claim in \<open>simp add: upd_proc_def\<close>)
qed

text \<open>Property C26: \<^verbatim>\<open>kill(0)\<close> is not refused. If the slots not in use are those with identifier 0, as the kernel
  keeps them, and there is one, \<^verbatim>\<open>kkill(0)\<close> returns 0, and the process that the next successful
  \<^verbatim>\<open>allocproc\<close> gives out has its killed flag set.\<close>

theorem kill_zero:
  fixes s :: "'a filest_scheme"
  assumes free: "\<And>p. p \<in> set (procs s) \<Longrightarrow> p_pid p = 0 \<longleftrightarrow> p_state p = UNUSED" and i: "find_slot (\<lambda>p. p_state p = UNUSED) (procs s) 0 = Some i"
  shows "\<exists>t. kkill 0 s = Ok 0 t \<and> ensures (\<lambda>r u. r = None \<or> r = Some i \<and> p_killed (procs u ! i)) (allocproc t)"
proof -
  have len: "i < length (procs s)" "p_state (procs s ! i) = UNUSED" "\<forall>j < i. p_state (procs s ! j) \<noteq> UNUSED" using find_slot_0 [OF i] by auto
  let ?h = "\<lambda>p. p\<lparr>p_killed := True, p_state := (if p_state p = SLEEPING then RUNNABLE else p_state p)\<rparr>"
  have zero: "find_slot (\<lambda>p. p_pid p = 0) (procs s) 0 = Some i"
    using len free find_slot_SomeI [of i "procs s" "\<lambda>p. p_pid p = 0"] by simp
  have "find_slot (\<lambda>p. p_state p = UNUSED) (procs (upd_proc i ?h s)) 0 = Some i"
    using len find_slot_SomeI [of i "procs (upd_proc i ?h s)" "\<lambda>p. p_state p = UNUSED"] by (simp add: upd_proc_def)
  from allocproc_keeps_killed [OF this] show ?thesis using zero len by (simp add: kkill_def upd_proc_def)
qed

theorem kill_zero_witness:
  "\<exists>t. kkill 0 bss0 = Ok 0 t \<and> ensures (\<lambda>r u. r = None \<or> r = Some 0 \<and> p_killed (procs u ! 0)) (allocproc t)"
proof (rule kill_zero)
  show "find_slot (\<lambda>p. p_state p = UNUSED) (procs bss0) 0 = Some 0" by (rule find_slot_SomeI) (simp_all add: bss_def zero_proc_def NPROC_def)
qed (auto simp: bss_def zero_proc_def)

end
