(* ===== verification/Spec2Isabelle.thy ===== *)
theory Spec2Isabelle
  imports Logcrash Consin Sched Tables Procsafe
begin

text \<open>
  A model of the xv6 port to the Kendryte K230 (a dual-core RISC-V machine with T-Head extensions) and
  its correctness theorems. The sources are under \<^verbatim>\<open>src/kernel\<close>, \<^verbatim>\<open>src/user\<close> and \<^verbatim>\<open>src/mkfs\<close>.

  \<^bold>\<open>The program.\<close> User programs enter the kernel by traps (\<^verbatim>\<open>trap.c\<close>), which fetch the arguments and
  dispatch (\<^verbatim>\<open>syscall.c\<close>) to the handlers (\<^verbatim>\<open>sysfile.c\<close>, \<^verbatim>\<open>sysproc.c\<close>). Handlers for files work on
  descriptors, the file table and pipes (\<^verbatim>\<open>file.c\<close>, \<^verbatim>\<open>pipe.c\<close>), which sit on inodes, directories and
  blocks (\<^verbatim>\<open>fs.c\<close>), those on the write-ahead log (\<^verbatim>\<open>log.c\<close>), the log on the buffer cache (\<^verbatim>\<open>bio.c\<close>) and
  the disk in memory (\<^verbatim>\<open>ramdisk.c\<close>). Handlers for processes work on the process table and the scheduler
  (\<^verbatim>\<open>proc.c\<close>, \<^verbatim>\<open>exec.c\<close>), those on page tables (\<^verbatim>\<open>vm.c\<close>) and the page allocator (\<^verbatim>\<open>kalloc.c\<close>). The console
  driver, the line discipline and \<^verbatim>\<open>printf\<close> are in \<^verbatim>\<open>uart.c\<close>; locks are in \<^verbatim>\<open>spinlock.c\<close> and \<^verbatim>\<open>sleeplock.c\<close>.

  \<^bold>\<open>State and effects.\<close> Memory is a function from 64-bit addresses to bytes; page tables, the free list
  and trap frames live in it, at the addresses the code uses. The other kernel variables are fields of
  a record that is extended layer by layer: \<open>bcache\<close> (buffers, the list of buffers, the disk), \<open>logst\<close>
  (the log), \<open>fsst\<close> (super block, inode table, memory), \<open>procst\<close> (process table), \<open>consst\<close> (console),
  \<open>filest\<close> (file table, pipes). An operation of a layer is a function on every extension of its
  layer's record, so the layers compose as the calls do. Entries of a table are named by their index
  where the code has a pointer into the table; \<open>me\<close> is the current process. A result (\<open>res\<close>, theory
  \<^verbatim>\<open>Prelude\<close>) is a value with the new state, a panic with its message (also for what the C standard leaves
  undefined, as \<^verbatim>\<open>undefined\<close>), a sleep on a channel with the state in which the process sleeps, or
  divergence. An operation that sleeps is modelled up to the sleep; its continuation is the same test
  again, as in the loops around \<^verbatim>\<open>sleep\<close>. Integers have the width of the source.

  \<^bold>\<open>Theories of the model\<close>, each with the correctness of its own component where it is local:
  \<^item> \<^verbatim>\<open>Prelude\<close>: results, scans of tables, the locales \<open>slot_table\<close> and \<open>invariant_system\<close>.
  \<^item> \<^verbatim>\<open>Riscv\<close> (\<^verbatim>\<open>riscv.h\<close>, \<^verbatim>\<open>memlayout.h\<close>, \<^verbatim>\<open>param.h\<close>): page-table entries, address layout, constants.
  \<^item> \<^verbatim>\<open>Kstring\<close> (\<^verbatim>\<open>string.c\<close>), \<^verbatim>\<open>Kalloc\<close> (\<^verbatim>\<open>kalloc.c\<close>, with the locale \<open>page_pool\<close> of what an allocator promises).
  \<^item> \<^verbatim>\<open>Vm\<close>, \<^verbatim>\<open>Vmmap\<close>, \<^verbatim>\<open>Uvm\<close> (\<^verbatim>\<open>vm.c\<close>): the page-table walk and its invariant, mapping and unmapping of
    ranges, user address spaces and the copies between user and kernel memory.
  \<^item> \<^verbatim>\<open>Locks\<close> (\<^verbatim>\<open>spinlock.c\<close>, \<^verbatim>\<open>sleeplock.c\<close>): the spin lock as a step relation of several processors.
  \<^item> \<^verbatim>\<open>Enc\<close>, \<^verbatim>\<open>Bio\<close>, \<^verbatim>\<open>Log\<close> (\<^verbatim>\<open>ramdisk.c\<close>, \<^verbatim>\<open>bio.c\<close>, \<^verbatim>\<open>log.c\<close>), \<^verbatim>\<open>Fs\<close> (\<^verbatim>\<open>fs.c\<close>).
  \<^item> \<^verbatim>\<open>Proc\<close> (\<^verbatim>\<open>proc.c\<close>), \<^verbatim>\<open>Console\<close> (\<^verbatim>\<open>uart.c\<close>), \<^verbatim>\<open>File\<close> (\<^verbatim>\<open>file.c\<close>, \<^verbatim>\<open>pipe.c\<close>), \<^verbatim>\<open>Exec\<close> (\<^verbatim>\<open>exec.c\<close> and the part
    of \<^verbatim>\<open>proc.c\<close> that needs files), \<^verbatim>\<open>Sysfile\<close>, \<^verbatim>\<open>Syscall\<close> (handlers, dispatch, traps), \<^verbatim>\<open>Bss\<close> (the initial
    values of the kernel's variables).
  \<^bold>\<open>Theories of properties\<close> that span operations:
  \<^item> \<^verbatim>\<open>Logsafe\<close>, \<^verbatim>\<open>Logcrash\<close>: a crash at any disk write of \<^verbatim>\<open>commit\<close> is recovered to all or nothing of the
    transaction.
  \<^item> \<^verbatim>\<open>Ring\<close>, \<^verbatim>\<open>Consin\<close>: pipes and console input refine the bounded queue of the locale \<open>bounded_queue\<close>;
    printing of numbers; a console write completes.
  \<^item> \<^verbatim>\<open>Sched\<close>: two transition systems, for the assignment of processes to processors and for the lock
    protocol of \<^verbatim>\<open>sleep\<close> and \<^verbatim>\<open>wakeup\<close>; no process runs twice and no wakeup is lost.
  \<^item> \<^verbatim>\<open>Frame\<close>, \<^verbatim>\<open>Quiet\<close>: what an operation does not change, once and for all, as a hierarchy of locales over
    an observation of the state (\<open>cache_frame\<close>, \<open>inode_frame\<close>, \<open>fs_frame\<close>, \<open>quiet_frame\<close>, \<open>proc_frame\<close>). An
    interpretation proves the laws of an observation for the primitive updates and obtains the frame
    property of every operation and handler.
  \<^item> \<^verbatim>\<open>Fdref\<close>, \<^verbatim>\<open>Tables\<close>, \<^verbatim>\<open>Execsafe\<close>, \<^verbatim>\<open>Procsafe\<close>: reference counts of files, allocation in the tables, the
    inode table, \<^verbatim>\<open>exec\<close>, process identifiers, \<^verbatim>\<open>exit\<close> and \<^verbatim>\<open>wait\<close>, all proved through interpretations of the
    frame locales.
  \<^bold>\<open>Bounds and fuel.\<close> Loops over tables and blocks are structural or have a measure (the number of
  entries left); the walk of a path ends because each turn shortens the path. The loops that poll the device are bounded by the list of values the device will give, an
  argument of the model: when it is used up, the result is \<open>Diverge\<close>. Nothing else can diverge.

  \<^bold>\<open>Not modelled.\<close>
  \<^item> Assembly: \<^verbatim>\<open>entry.S\<close>, \<^verbatim>\<open>kernelvec.S\<close>, \<^verbatim>\<open>swtch.S\<close>, \<^verbatim>\<open>trampoline.S\<close>, \<^verbatim>\<open>initcode.S\<close>, \<^verbatim>\<open>ramdisk_img.S\<close>. They save,
    restore and switch registers; the model has the values the C code reads, and a context switch is a
    step of the transition systems of \<^verbatim>\<open>Sched\<close>.
  \<^item> \<^verbatim>\<open>start.c\<close>, \<^verbatim>\<open>plic.c\<close>, \<^verbatim>\<open>timer.c\<close>, \<^verbatim>\<open>wdt.c\<close>, \<^verbatim>\<open>k230_sd.c\<close>: writes of constants to control registers and device
    registers whose effect is hardware. The SD card driver is not called (its call in \<^verbatim>\<open>main.c\<close> is commented
    out). \<^verbatim>\<open>main.c\<close> is a list of the initialisation calls.
  \<^item> The user programs under \<^verbatim>\<open>src/user\<close> and the host program \<^verbatim>\<open>mkfs.c\<close>, which use the kernel but are not part of it.
  \<^item> Memory ordering between the processors and the caches of the address translation: a step of a
    transition system is atomic, and an update of a page table acts at once.
\<close>

end
